(* ===== verification/Prelude.thy ===== *)
theory Prelude
  imports
    Main
    "HOL-Library.List_Lexorder"
    "HOL-Library.Char_ord"
    "HOL-Library.Product_Lexorder"
    "HOL-Library.Multiset"
begin

text \<open>
  What every component of the development shares: Go strings (byte lists) with the functions of
  package strings the code calls, decimal printing (\<open>fmt.Sprintf\<close> with \<open>%d\<close>), slices with their nil
  value, results as sums, and \<open>sort.Slice\<close>, \<open>sort.SliceStable\<close> and \<open>sort.Strings\<close> as one stable
  insertion sort that takes the code's \<open>less\<close> function.
\<close>

section \<open>Collections of facts\<close>

named_theorems contract_simps
  \<open>characterisations of the contract checks: when a \<open>Validate\<close> method returns nil\<close>
named_theorems result_simps
  \<open>the monad of results\<close>
named_theorems sort_facts
  \<open>what a sort keeps of its input\<close>

section \<open>Results and slices\<close>

text \<open>
  A Go function that returns \<open>(T, error)\<close> returns \<open>'e + 'a\<close> here: \<open>Inl\<close> is the error. A function
  that returns only \<open>error\<close> returns \<open>'e option\<close>, with \<open>None\<close> for nil. A slice or a map that the
  code compares with nil is an \<open>option\<close>, with \<open>None\<close> for nil.
\<close>

type_synonym 'a slice = "'a list option"

definition elems :: "'a slice \<Rightarrow> 'a list" where
  "elems s = (case s of None \<Rightarrow> [] | Some xs \<Rightarrow> xs)"

lemma elems_simps [simp]: "elems None = []" "elems (Some xs) = xs"
  by (simp_all add: elems_def)

text \<open>\<open>append([]T(nil), xs...)\<close>: a copy, which is nil when there is nothing to copy.\<close>

definition append_nil :: "'a slice \<Rightarrow> 'a slice" where
  "append_nil s = (case elems s of [] \<Rightarrow> None | x # xs \<Rightarrow> Some (x # xs))"

lemma elems_append_nil [simp]: "elems (append_nil s) = elems s"
  by (simp add: append_nil_def split: list.split)

definition bind_result :: "'e + 'a \<Rightarrow> ('a \<Rightarrow> 'e + 'b) \<Rightarrow> 'e + 'b" where
  "bind_result r f = (case r of Inl e \<Rightarrow> Inl e | Inr a \<Rightarrow> f a)"

lemma bind_result_simps [simp, result_simps]:
  "bind_result (Inl e) f = Inl e" "bind_result (Inr a) f = f a"
  by (simp_all add: bind_result_def)

lemma bind_result_Inr_iff [result_simps]:
  "bind_result r f = Inr b \<longleftrightarrow> (\<exists>a. r = Inr a \<and> f a = Inr b)"
  by (cases r) simp_all

lemma bind_result_Inl_iff: "bind_result r f = Inl e \<longleftrightarrow> r = Inl e \<or> (\<exists>a. r = Inr a \<and> f a = Inl e)"
  by (cases r) simp_all

lemma map_sum_Inr_iff: "map_sum f g x = Inr y \<longleftrightarrow> (\<exists>z. x = Inr z \<and> y = g z)"
  by (cases x) auto

lemma map_sum_Inl_iff: "map_sum f g x = Inl y \<longleftrightarrow> (\<exists>z. x = Inl z \<and> y = f z)"
  by (cases x) auto

text \<open>\<open>map_result f xs\<close>: a loop that stops at the first error and collects the values.\<close>

fun map_result :: "('a \<Rightarrow> 'e + 'b) \<Rightarrow> 'a list \<Rightarrow> 'e + 'b list" where
  "map_result f [] = Inr []"
| "map_result f (x # xs) =
     (case f x of Inl e \<Rightarrow> Inl e
      | Inr y \<Rightarrow> (case map_result f xs of Inl e \<Rightarrow> Inl e | Inr ys \<Rightarrow> Inr (y # ys)))"

lemma map_result_Inr_iff:
  "map_result f xs = Inr ys \<longleftrightarrow> map f xs = map Inr ys"
proof (induction xs arbitrary: ys)
  case Nil
  show ?case by auto
next
  case (Cons x xs)
  show ?case
  proof (cases "f x")
    case (Inl e)
    then show ?thesis by (cases ys) auto
  next
    case (Inr y)
    then show ?thesis
      by (cases ys; cases "map_result f xs") (auto simp flip: Cons)
  qed
qed

text \<open>\<open>first_error f xs\<close>: a loop that returns the first non-nil error.\<close>

fun first_error :: "('a \<Rightarrow> 'e option) \<Rightarrow> 'a list \<Rightarrow> 'e option" where
  "first_error f [] = None"
| "first_error f (x # xs) = (case f x of None \<Rightarrow> first_error f xs | Some e \<Rightarrow> Some e)"

lemma first_error_None_iff [simp, contract_simps]:
  "first_error f xs = None \<longleftrightarrow> (\<forall>x\<in>set xs. f x = None)"
  by (induction xs) (auto split: option.splits)

section \<open>Go strings\<close>

fun has_prefix :: "string \<Rightarrow> string \<Rightarrow> bool" where
  "has_prefix s [] = True"
| "has_prefix [] (p # ps) = False"
| "has_prefix (c # s) (p # ps) = (c = p \<and> has_prefix s ps)"

lemma has_prefix_append [simp]: "has_prefix (p @ s) p"
  by (induction p) auto

lemma has_prefix_iff: "has_prefix s p \<longleftrightarrow> (\<exists>r. s = p @ r)"
  by (induction s p rule: has_prefix.induct) auto

definition has_suffix :: "string \<Rightarrow> string \<Rightarrow> bool" where
  "has_suffix s p = has_prefix (rev s) (rev p)"

definition trim_prefix :: "string \<Rightarrow> string \<Rightarrow> string" where
  "trim_prefix s p = (if has_prefix s p then drop (length p) s else s)"

lemma trim_prefix_append [simp]: "trim_prefix (p @ s) p = s"
  by (simp add: trim_prefix_def)

definition trim_suffix :: "string \<Rightarrow> string \<Rightarrow> string" where
  "trim_suffix s p = (if has_suffix s p then take (length s - length p) s else s)"

definition byte :: "char \<Rightarrow> nat" where
  "byte c = of_char c"

definition is_digit :: "char \<Rightarrow> bool" where
  "is_digit c \<longleftrightarrow> 48 \<le> byte c \<and> byte c \<le> 57"

definition digit_value :: "char \<Rightarrow> int" where
  "digit_value c = int (byte c) - 48"

text \<open>
  \<open>strings.TrimSpace(s) == ""\<close> holds when \<open>s\<close> is a sequence of white-space runes, written in UTF-8:
  the ASCII ones are one byte, the others two or three.
\<close>

fun blank :: "string \<Rightarrow> bool" where
  "blank [] = True"
| "blank (a # s) =
     (if byte a \<in> {9, 10, 11, 12, 13, 32} then blank s
      else case s of [] \<Rightarrow> False
      | b # t \<Rightarrow>
         (if byte a = 194 \<and> (byte b = 133 \<or> byte b = 160) then blank t
          else case t of [] \<Rightarrow> False
          | c # u \<Rightarrow>
             (if (byte a = 225 \<and> byte b = 154 \<and> byte c = 128)
                 \<or> (byte a = 226 \<and> byte b = 128
                     \<and> ((128 \<le> byte c \<and> byte c \<le> 138) \<or> byte c = 168 \<or> byte c = 169 \<or> byte c = 175))
                 \<or> (byte a = 226 \<and> byte b = 129 \<and> byte c = 159)
                 \<or> (byte a = 227 \<and> byte b = 128 \<and> byte c = 128)
              then blank u else False)))"

lemma not_blank_Cons:
  "33 \<le> byte a \<Longrightarrow> byte a < 128 \<Longrightarrow> \<not> blank (a # s)"
  by (auto split: list.split)

text \<open>\<open>fmt.Sprintf("%d", n)\<close> and \<open>strconv.Itoa\<close>.\<close>

definition digit_char :: "nat \<Rightarrow> char" where
  "digit_char d = char_of (48 + d)"

fun nat_dec :: "nat \<Rightarrow> string" where
  "nat_dec n = (if n < 10 then [digit_char n] else nat_dec (n div 10) @ [digit_char (n mod 10)])"

declare nat_dec.simps [simp del]

definition int_dec :: "int \<Rightarrow> string" where
  "int_dec n = (if n < 0 then CHR ''-'' # nat_dec (nat (- n)) else nat_dec (nat n))"

text \<open>\<open>%+d\<close>\<close>

definition int_dec_signed :: "int \<Rightarrow> string" where
  "int_dec_signed n = (if n < 0 then int_dec n else CHR ''+'' # int_dec n)"

fun digits_value :: "int \<Rightarrow> string \<Rightarrow> int" where
  "digits_value acc [] = acc"
| "digits_value acc (c # cs) = digits_value (10 * acc + digit_value c) cs"

lemma digits_value_append [simp]:
  "digits_value acc (xs @ ys) = digits_value (digits_value acc xs) ys"
  by (induction xs arbitrary: acc) auto

lemma byte_digit_char [simp]: "d < 10 \<Longrightarrow> byte (digit_char d) = 48 + d"
  by (simp add: byte_def digit_char_def)

lemma digit_value_digit_char [simp]: "d < 10 \<Longrightarrow> digit_value (digit_char d) = int d"
  by (simp add: digit_value_def)

lemma is_digit_digit_char [simp]: "d < 10 \<Longrightarrow> is_digit (digit_char d)"
  by (simp add: is_digit_def)

lemma digits_value_nat_dec: "digits_value 0 (nat_dec n) = int n"
proof (induction n rule: nat_dec.induct)
  case (1 n)
  show ?case
  proof (cases "n < 10")
    case True
    then show ?thesis by (simp add: nat_dec.simps [of n])
  next
    case False
    with "1.IH" have "digits_value 0 (nat_dec (n div 10)) = int (n div 10)" by simp
    with False show ?thesis
      by (simp add: nat_dec.simps [of n] flip: of_nat_mult of_nat_add) presburger
  qed
qed

lemma nat_dec_digits: "\<forall>c\<in>set (nat_dec n). is_digit c"
proof (induction n rule: nat_dec.induct)
  case (1 n)
  then show ?case by (cases "n < 10") (auto simp: nat_dec.simps [of n])
qed

lemma nat_dec_nonempty [simp]: "nat_dec n \<noteq> []"
  by (simp add: nat_dec.simps [of n])

lemma nat_dec_inj [simp]: "nat_dec m = nat_dec n \<longleftrightarrow> m = n"
  by (metis digits_value_nat_dec of_nat_eq_iff)

text \<open>
  Two strings that end in a separator and a number agree on the number, whatever stands before it:
  the digits never contain the separator.
\<close>

lemma dash_suffix_unique:
  assumes "x @ CHR ''-'' # ds = y @ CHR ''-'' # es"
    and "\<forall>c\<in>set ds. is_digit c" and "\<forall>c\<in>set es. is_digit c"
  shows "ds = es"
proof -
  have nd: "\<not> is_digit CHR ''-''" by (simp add: is_digit_def byte_def)
  have tw: "takeWhile is_digit (rev (z @ CHR ''-'' # fs)) = rev fs"
    if "\<forall>c\<in>set fs. is_digit c" for z fs
    using that nd by (simp add: takeWhile_append)
  from assms show ?thesis by (metis tw rev_rev_ident)
qed

section \<open>Sorting\<close>

text \<open>
  \<open>sort.SliceStable(xs, less)\<close>. The sorts of the code that are not stable
  (\<open>sort.Slice\<close>, \<open>sort.Strings\<close>) are modelled by the same function: their \<open>less\<close> compares keys that
  differ on the elements of the list, or only the keys of the result are used, so all sorts agree.
\<close>

fun insert_by :: "('a \<Rightarrow> 'a \<Rightarrow> bool) \<Rightarrow> 'a \<Rightarrow> 'a list \<Rightarrow> 'a list" where
  "insert_by lt x [] = [x]"
| "insert_by lt x (y # ys) = (if lt y x then y # insert_by lt x ys else x # y # ys)"

fun sort_by :: "('a \<Rightarrow> 'a \<Rightarrow> bool) \<Rightarrow> 'a list \<Rightarrow> 'a list" where
  "sort_by lt [] = []"
| "sort_by lt (x # xs) = insert_by lt x (sort_by lt xs)"

lemma mset_insert_by [simp]: "mset (insert_by lt x xs) = add_mset x (mset xs)"
  by (induction xs) auto

lemma mset_sort_by [simp, sort_facts]: "mset (sort_by lt xs) = mset xs"
  by (induction xs) auto

lemma set_sort_by [simp, sort_facts]: "set (sort_by lt xs) = set xs"
  by (metis mset_sort_by set_mset_mset)

lemma length_sort_by [simp, sort_facts]: "length (sort_by lt xs) = length xs"
  by (metis mset_sort_by size_mset)

lemma sort_by_eq_Nil_iff [simp]: "sort_by lt xs = [] \<longleftrightarrow> xs = []"
  by (metis length_0_conv length_sort_by)

lemma distinct_sort_by [simp, sort_facts]: "distinct (sort_by lt xs) = distinct xs"
  by (metis mset_sort_by mset_eq_imp_distinct_iff)

text \<open>
  The contract between a \<open>less\<close> function of the code and the sort: \<open>less\<close> compares keys of a linear
  order. Every comparator of the code is shown to be one (an interpretation in its theory), and
  every fact about the sorted list comes from here.
\<close>

locale key_order =
  fixes lt :: "'a \<Rightarrow> 'a \<Rightarrow> bool" and key :: "'a \<Rightarrow> 'k::linorder"
  assumes lt_key: "lt a b \<longleftrightarrow> key a < key b"
begin

lemma insert_by_insort: "insert_by lt x xs = insort_key key x xs"
  by (induction xs) (auto simp: lt_key not_less)

lemma sort_by_sort_key: "sort_by lt xs = sort_key key xs"
  by (induction xs) (simp_all add: insert_by_insort sort_key_def)

lemma sorted_sort: "sorted (map key (sort_by lt xs))"
  by (simp add: sort_by_sort_key)

lemma sort_by_sorted: "sorted (map key xs) \<Longrightarrow> sort_by lt xs = xs"
  by (simp add: sort_by_sort_key sort_key_id_if_sorted)

lemma hd_sort_le: "x \<in> set xs \<Longrightarrow> key (hd (sort_by lt xs)) \<le> key x"
proof -
  assume x: "x \<in> set xs"
  then obtain y ys where s: "sort_by lt xs = y # ys"
    by (metis empty_iff empty_set list.exhaust sort_by_eq_Nil_iff)
  from x s have "x \<in> set (y # ys)" by (metis set_sort_by)
  with sorted_sort [of xs] s show ?thesis by auto
qed

text \<open>The sorted list depends on the multiset alone when the keys are distinct.\<close>

lemma sort_by_unique:
  assumes "mset xs = mset ys" and inj: "inj_on key (set xs)"
  shows "sort_by lt xs = sort_by lt ys"
proof -
  have "set (sort_by lt xs) = set xs" by simp
  then show ?thesis
    using assms properties_for_sort_key [of "sort_by lt xs" ys key]
    by (metis inj_onD mset_sort_by sort_by_sort_key sorted_sort filter_mset_eq_conv
        mset_eq_setD sort_key_inj_key_eq)
qed

end

text \<open>\<open>sort.Strings\<close>\<close>

definition sort_strings :: "string list \<Rightarrow> string list" where
  "sort_strings = sort_by (<)"

interpretation string_order: key_order "(<) :: string \<Rightarrow> string \<Rightarrow> bool" "\<lambda>s. s"
  by unfold_locales simp

lemma sorted_sort_strings [simp]: "sorted (sort_strings xs)"
  using string_order.sorted_sort by (simp add: sort_strings_def)

lemma set_sort_strings [simp]: "set (sort_strings xs) = set xs"
  by (simp add: sort_strings_def)

end
