(* ===== verification/GoTime.thy ===== *)
theory GoTime
  imports Prelude
begin

text \<open>
  Package time as the code uses it: \<open>time.Parse(time.RFC3339Nano, s)\<close>, \<open>Before\<close>, \<open>After\<close>, \<open>Equal\<close>,
  \<open>IsZero\<close>, \<open>Add\<close>. An instant is the number of nanoseconds since 0001-01-01T00:00:00Z, the zero
  \<open>time.Time\<close>. The clock (\<open>time.Now\<close>) is an input of the operations that read it.
\<close>

section \<open>Instants\<close>

datatype instant = Instant (nanos: int)

instantiation instant :: linorder
begin

definition less_eq_instant :: "instant \<Rightarrow> instant \<Rightarrow> bool" where
  "less_eq_instant a b \<longleftrightarrow> nanos a \<le> nanos b"

definition less_instant :: "instant \<Rightarrow> instant \<Rightarrow> bool" where
  "less_instant a b \<longleftrightarrow> nanos a < nanos b"

instance
  by standard (auto simp: less_eq_instant_def less_instant_def intro: instant.expand)

end

lemma instant_less_simps [simp]:
  "Instant a < Instant b \<longleftrightarrow> a < b" "Instant a \<le> Instant b \<longleftrightarrow> a \<le> b"
  by (simp_all add: less_instant_def less_eq_instant_def)

definition zero_time :: instant where
  "zero_time = Instant 0"

definition is_zero :: "instant \<Rightarrow> bool" where
  "is_zero t \<longleftrightarrow> t = zero_time"

definition add_nanos :: "instant \<Rightarrow> int \<Rightarrow> instant" where
  "add_nanos t d = Instant (nanos t + d)"

lemma add_nanos_mono [simp]: "add_nanos s d \<le> add_nanos t d \<longleftrightarrow> s \<le> t"
  by (simp add: add_nanos_def less_eq_instant_def)

lemma le_add_nanos: "0 \<le> d \<Longrightarrow> t \<le> add_nanos t d"
  by (cases t) (simp add: add_nanos_def)

section \<open>The calendar\<close>

definition leap_year :: "int \<Rightarrow> bool" where
  "leap_year y \<longleftrightarrow> y mod 4 = 0 \<and> (y mod 100 \<noteq> 0 \<or> y mod 400 = 0)"

definition days_in :: "int \<Rightarrow> int \<Rightarrow> int" where
  "days_in m y =
     (if m = 2 then (if leap_year y then 29 else 28)
      else if m \<in> {4, 6, 9, 11} then 30 else 31)"

definition days_before_month :: "int \<Rightarrow> int \<Rightarrow> int" where
  "days_before_month m y =
     [0, 31, 59, 90, 120, 151, 181, 212, 243, 273, 304, 334] ! nat (m - 1)
     + (if 2 < m \<and> leap_year y then 1 else 0)"

text \<open>Days from 0001-01-01 to the first day of a year, in the proleptic Gregorian calendar.\<close>

definition days_before_year :: "int \<Rightarrow> int" where
  "days_before_year y = 365 * (y - 1) + (y - 1) div 4 - (y - 1) div 100 + (y - 1) div 400"

definition date_instant :: "int \<Rightarrow> int \<Rightarrow> int \<Rightarrow> int \<Rightarrow> int \<Rightarrow> int \<Rightarrow> int \<Rightarrow> instant" where
  "date_instant y m d hh mm ss ns =
     Instant (((days_before_year y + days_before_month m y + (d - 1)) * 86400
               + hh * 3600 + mm * 60 + ss) * 1000000000 + ns)"

section \<open>Parsing RFC 3339\<close>

text \<open>
  \<open>time.Parse\<close> on the layout \<open>2006-01-02T15:04:05.999999999Z07:00\<close>, chunk by chunk: four digits of
  year, two of month and day, one or two of hour, two of minute and second, an optional fraction
  after a period or a comma, then \<open>Z\<close> or a numeric offset, and nothing after it. The second
  component of the result says that the zone was written \<open>Z\<close>, which is the only way to get a time
  in UTC out of \<open>time.Parse\<close>.
\<close>

definition getnum :: "bool \<Rightarrow> string \<Rightarrow> (int \<times> string) option" where
  "getnum fixed s =
     (case s of [] \<Rightarrow> None
      | c # cs \<Rightarrow>
         (if \<not> is_digit c then None
          else case cs of
              [] \<Rightarrow> (if fixed then None else Some (digit_value c, []))
            | d # ds \<Rightarrow>
                (if is_digit d then Some (10 * digit_value c + digit_value d, ds)
                 else if fixed then None else Some (digit_value c, d # ds))))"

definition get_year :: "string \<Rightarrow> (int \<times> string) option" where
  "get_year s =
     (let p = take 4 s
      in if length p = 4 \<and> list_all is_digit p then Some (digits_value 0 p, drop 4 s) else None)"

definition skip_char :: "char \<Rightarrow> string \<Rightarrow> string option" where
  "skip_char c s = (case s of [] \<Rightarrow> None | d # ds \<Rightarrow> if d = c then Some ds else None)"

definition in_range :: "int \<Rightarrow> int \<Rightarrow> (int \<times> string) option \<Rightarrow> (int \<times> string) option" where
  "in_range lo hi r =
     (case r of None \<Rightarrow> None | Some (n, s) \<Rightarrow> if lo \<le> n \<and> n \<le> hi then Some (n, s) else None)"

text \<open>A fraction keeps nine digits and scales them to nanoseconds; it may be absent.\<close>

definition get_fraction :: "string \<Rightarrow> int \<times> string" where
  "get_fraction s =
     (case s of
        p # c # cs \<Rightarrow>
          (if (p = CHR ''.'' \<or> p = CHR '','') \<and> is_digit c
           then (let ds = takeWhile is_digit (c # cs); kept = take 9 ds
                 in (digits_value 0 kept * 10 ^ (9 - length kept), drop (length ds) (c # cs)))
           else (0, s))
      | _ \<Rightarrow> (0, s))"

text \<open>The zone: seconds east of UTC, and whether it was written \<open>Z\<close>.\<close>

definition get_zone :: "string \<Rightarrow> ((int \<times> bool) \<times> string) option" where
  "get_zone s =
     (case s of [] \<Rightarrow> None
      | sign # rest \<Rightarrow>
         (if sign = CHR ''Z'' then Some ((0, True), rest)
          else if sign \<noteq> CHR ''+'' \<and> sign \<noteq> CHR ''-'' then None
          else case in_range 0 24 (getnum True rest) of None \<Rightarrow> None
          | Some (hh, r1) \<Rightarrow>
             (case skip_char CHR '':'' r1 of None \<Rightarrow> None
              | Some r2 \<Rightarrow>
                 (case in_range 0 60 (getnum True r2) of None \<Rightarrow> None
                  | Some (mm, r3) \<Rightarrow>
                      Some (((hh * 60 + mm) * 60 * (if sign = CHR ''-'' then -1 else 1), False), r3)))))"

definition parse_time :: "string \<Rightarrow> (instant \<times> bool) option" where
  "parse_time s =
     Option.bind (get_year s) (\<lambda>(y, s).
     Option.bind (skip_char CHR ''-'' s) (\<lambda>s.
     Option.bind (in_range 1 12 (getnum True s)) (\<lambda>(m, s).
     Option.bind (skip_char CHR ''-'' s) (\<lambda>s.
     Option.bind (getnum True s) (\<lambda>(d, s).
     Option.bind (skip_char CHR ''T'' s) (\<lambda>s.
     Option.bind (in_range 0 23 (getnum False s)) (\<lambda>(hh, s).
     Option.bind (skip_char CHR '':'' s) (\<lambda>s.
     Option.bind (in_range 0 59 (getnum True s)) (\<lambda>(mm, s).
     Option.bind (skip_char CHR '':'' s) (\<lambda>s.
     Option.bind (in_range 0 59 (getnum True s)) (\<lambda>(ss, s).
     (case get_fraction s of (ns, s) \<Rightarrow>
     Option.bind (get_zone s) (\<lambda>((offset, utc), s).
       if s \<noteq> [] \<or> d < 1 \<or> d > days_in m y then None
       else Some (add_nanos (date_instant y m d hh mm ss ns) (- offset * 1000000000), utc))))))))))))))"

text \<open>\<open>t, _ := time.Parse(...)\<close>: the zero time when the string does not parse.\<close>

definition time_of :: "string \<Rightarrow> instant" where
  "time_of s = (case parse_time s of None \<Rightarrow> zero_time | Some (t, _) \<Rightarrow> t)"

text \<open>\<open>contracts.validUTCTime\<close>\<close>

definition validUTCTime :: "string \<Rightarrow> bool" where
  "validUTCTime s =
     (case parse_time s of None \<Rightarrow> False | Some (_, utc) \<Rightarrow> has_suffix s ''Z'' \<and> utc)"

lemma validUTCTime_nonempty: "validUTCTime s \<Longrightarrow> s \<noteq> []"
  by (auto simp: validUTCTime_def parse_time_def get_year_def)

lemma validUTCTime_parses: "validUTCTime s \<Longrightarrow> \<exists>t. parse_time s = Some (t, True)"
  by (auto simp: validUTCTime_def split: option.splits)

end
