(* ===== verification/GoValue.thy ===== *)
theory GoValue
  imports GoTime
begin

text \<open>
  Values of type \<open>any\<close> as they reach the code (JSON decoded with \<open>UseNumber\<close>, JSON decoded
  without it, or built in process), the integer tests of contracts.go, \<open>reflect.DeepEqual\<close>, and the
  part of package net/url behind \<open>replayOnlyHost\<close>.
\<close>

section \<open>Values\<close>

datatype int_kind =
    KInt | KInt8 | KInt16 | KInt32 | KInt64
  | KUint | KUint8 | KUint16 | KUint32 | KUint64

text \<open>A finite \<open>float64\<close> is \<open>m * 2 ^ e\<close> with integers \<open>m\<close> and \<open>e\<close>.\<close>

datatype go_float = FFin int int | FInf bool | FNaN

datatype go_value =
    VNil
  | VBool bool
  | VStr string
  | VInt int_kind int
  | VFloat go_float
  | VNumber string
  | VIntPtr "int option"
  | VList "go_value list"
  | VObj "(string \<times> go_value) list"

text \<open>A \<open>map[string]any\<close>: an association list with distinct keys, \<open>None\<close> for the nil map.\<close>

type_synonym go_object = "(string \<times> go_value) list option"

definition lookup_key :: "go_object \<Rightarrow> string \<Rightarrow> go_value option" where
  "lookup_key m k = map_of (elems m) k"

section \<open>Integer tests\<close>

text \<open>\<open>json.Number.Int64\<close>: \<open>strconv.ParseInt(s, 10, 64)\<close>.\<close>

definition parse_int64 :: "string \<Rightarrow> int option" where
  "parse_int64 s =
     (let neg = has_prefix s ''-''; ds = (if neg \<or> has_prefix s ''+'' then tl s else s)
      in if ds = [] \<or> \<not> list_all is_digit ds then None
         else (let n = (if neg then - digits_value 0 ds else digits_value 0 ds)
               in if - (2 ^ 63) \<le> n \<and> n < 2 ^ 63 then Some n else None))"

text \<open>\<open>n == math.Trunc(n)\<close> for a finite float.\<close>

fun float_integral :: "go_float \<Rightarrow> bool" where
  "float_integral (FFin m e) = (0 \<le> e \<or> m mod 2 ^ nat (- e) = 0)"
| "float_integral _ = False"

fun float_int :: "go_float \<Rightarrow> int" where
  "float_int (FFin m e) = (if 0 \<le> e then m * 2 ^ nat e else m div 2 ^ nat (- e))"
| "float_int _ = 0"

definition signed_kind :: "int_kind \<Rightarrow> bool" where
  "signed_kind k \<longleftrightarrow> k \<in> {KInt, KInt8, KInt16, KInt32, KInt64}"

fun nonnegativeInteger :: "go_value \<Rightarrow> bool" where
  "nonnegativeInteger (VInt k n) = (if signed_kind k then 0 \<le> n else True)"
| "nonnegativeInteger (VFloat (FFin m e)) = (0 \<le> m \<and> float_integral (FFin m e))"
| "nonnegativeInteger (VNumber s) = (case parse_int64 s of None \<Rightarrow> False | Some i \<Rightarrow> 0 \<le> i)"
| "nonnegativeInteger _ = False"

fun positiveInteger :: "go_value \<Rightarrow> bool" where
  "positiveInteger (VInt k n) = (nonnegativeInteger (VInt k n) \<and> 0 < n)"
| "positiveInteger (VFloat (FFin m e)) = (nonnegativeInteger (VFloat (FFin m e)) \<and> 0 < m)"
| "positiveInteger (VNumber s) =
     (nonnegativeInteger (VNumber s) \<and> (case parse_int64 s of None \<Rightarrow> False | Some i \<Rightarrow> 0 < i))"
| "positiveInteger _ = False"

lemma positive_nonnegative: "positiveInteger v \<Longrightarrow> nonnegativeInteger v"
  by (cases v rule: positiveInteger.cases) auto

section \<open>JSON\<close>

text \<open>The grammar of JSON numbers, as \<open>encoding/json\<close> checks a \<open>json.Number\<close> it writes.\<close>

definition skip_digits :: "string \<Rightarrow> string" where
  "skip_digits s = dropWhile is_digit s"

definition valid_number :: "string \<Rightarrow> bool" where
  "valid_number s0 =
     (let s = (if has_prefix s0 ''-'' then tl s0 else s0)
      in s \<noteq> [] \<and> is_digit (hd s) \<and>
         (let s1 = (if hd s = CHR ''0'' then tl s else skip_digits s);
              s2 = (if 2 \<le> length s1 \<and> hd s1 = CHR ''.'' \<and> is_digit (s1 ! 1)
                    then skip_digits (drop 2 s1) else s1)
          in if 2 \<le> length s2 \<and> (hd s2 = CHR ''e'' \<or> hd s2 = CHR ''E'')
             then (let s3 = tl s2
                   in if hd s3 = CHR ''+'' \<or> hd s3 = CHR ''-''
                      then tl s3 \<noteq> [] \<and> skip_digits (tl s3) = []
                      else skip_digits s3 = [])
             else s2 = []))"

text \<open>\<open>validJSONValue\<close>: \<open>json.Marshal\<close> succeeds.\<close>

fun validJSONValue :: "go_value \<Rightarrow> bool" where
  "validJSONValue (VFloat (FInf _)) = False"
| "validJSONValue (VFloat FNaN) = False"
| "validJSONValue (VNumber s) = (s = [] \<or> valid_number s)"
| "validJSONValue (VList vs) = list_all validJSONValue vs"
| "validJSONValue (VObj kvs) = list_all (\<lambda>kv. validJSONValue (snd kv)) kvs"
| "validJSONValue _ = True"

definition validJSONObject :: "go_object \<Rightarrow> bool" where
  "validJSONObject m = (case m of None \<Rightarrow> False | Some kvs \<Rightarrow> validJSONValue (VObj kvs))"

text \<open>\<open>reflect.DeepEqual\<close>: maps are compared key by key, a NaN differs from itself.\<close>

function (sequential) deep_equal :: "go_value \<Rightarrow> go_value \<Rightarrow> bool" where
  "deep_equal (VObj kvs) (VObj kws) =
     (length kvs = length kws
      \<and> list_all (\<lambda>kv. case map_of kws (fst kv) of None \<Rightarrow> False | Some w \<Rightarrow> deep_equal (snd kv) w) kvs)"
| "deep_equal (VList vs) (VList ws) =
     (length vs = length ws \<and> list_all (\<lambda>(v, w). deep_equal v w) (zip vs ws))"
| "deep_equal (VFloat FNaN) _ = False"
| "deep_equal v w = (v = w)"
  by pat_completeness auto

lemma size_list_member: "x \<in> set xs \<Longrightarrow> f x < Suc (size_list f xs)"
  by (induction xs) auto

lemma size_list_pairs: "(k, v) \<in> set kvs \<Longrightarrow> size v < Suc (size_list (size_prod (\<lambda>_. 0) size) kvs)"
  using size_list_member [of "(k, v)" kvs "size_prod (\<lambda>_. 0) size"] by simp

lemma size_list_zip: "(v, w) \<in> set (zip vs ws) \<Longrightarrow> size v < Suc (size_list size vs)"
  by (auto dest!: set_zip_leftD intro: size_list_member)

termination deep_equal
  by (relation "measure (\<lambda>(v, w). size v)") (auto intro: size_list_pairs size_list_zip)

definition deep_equal_object :: "go_object \<Rightarrow> go_object \<Rightarrow> bool" where
  "deep_equal_object a b =
     (case (a, b) of
        (None, None) \<Rightarrow> True
      | (Some kvs, Some kws) \<Rightarrow> deep_equal (VObj kvs) (VObj kws)
      | _ \<Rightarrow> False)"

definition object_value :: "go_object \<Rightarrow> go_value" where
  "object_value m = (case m of None \<Rightarrow> VObj [] | Some kvs \<Rightarrow> VObj kvs)"

lemma deep_equal_strings [simp]: "deep_equal (VStr a) (VStr b) \<longleftrightarrow> a = b"
  by simp

section \<open>Hosts of URLs\<close>

text \<open>
  \<open>url.Parse\<close> as far as \<open>replayOnlyHost\<close> reads it: \<open>url_host s\<close> is \<open>Some h\<close> when the parse succeeds, with
  \<open>h\<close> the (possibly empty) \<open>Host\<close> field.
\<close>

fun cut_at :: "char \<Rightarrow> string \<Rightarrow> string \<times> string option" where
  "cut_at c [] = ([], None)"
| "cut_at c (d # ds) =
     (if d = c then ([], Some ds) else (case cut_at c ds of (a, b) \<Rightarrow> (d # a, b)))"

definition cut_last :: "char \<Rightarrow> string \<Rightarrow> (string \<times> string) option" where
  "cut_last c s =
     (case cut_at c (rev s) of (_, None) \<Rightarrow> None | (a, Some b) \<Rightarrow> Some (rev b, rev a))"

definition is_alpha :: "char \<Rightarrow> bool" where
  "is_alpha c \<longleftrightarrow> (97 \<le> byte c \<and> byte c \<le> 122) \<or> (65 \<le> byte c \<and> byte c \<le> 90)"

definition is_hex :: "char \<Rightarrow> bool" where
  "is_hex c \<longleftrightarrow> is_digit c \<or> (97 \<le> byte c \<and> byte c \<le> 102) \<or> (65 \<le> byte c \<and> byte c \<le> 70)"

text \<open>\<open>getScheme\<close>: \<open>Inl ()\<close> is the missing-scheme error; the scheme may be empty.\<close>

fun get_scheme :: "string \<Rightarrow> string \<Rightarrow> string \<Rightarrow> unit + string \<times> string" where
  "get_scheme raw acc [] = Inr ([], raw)"
| "get_scheme raw acc (c # cs) =
     (if is_alpha c then get_scheme raw (acc @ [c]) cs
      else if is_digit c \<or> c \<in> {CHR ''+'', CHR ''-'', CHR ''.''}
      then (if acc = [] then Inr ([], raw) else get_scheme raw (acc @ [c]) cs)
      else if c = CHR '':'' then (if acc = [] then Inl () else Inr (acc, cs))
      else Inr ([], raw))"

text \<open>\<open>unescape\<close> succeeds: every percent sign starts two hexadecimal digits.\<close>

fun escapes_ok :: "string \<Rightarrow> bool" where
  "escapes_ok [] = True"
| "escapes_ok (c # s) =
     (if c = CHR ''%''
      then (case s of a # b # t \<Rightarrow> is_hex a \<and> is_hex b \<and> escapes_ok t | _ \<Rightarrow> False)
      else escapes_ok s)"

definition valid_port :: "string \<Rightarrow> bool" where
  "valid_port p \<longleftrightarrow> p = [] \<or> (hd p = CHR '':'' \<and> list_all is_digit (tl p))"

definition host_char :: "char \<Rightarrow> bool" where
  "host_char c \<longleftrightarrow>
     128 \<le> byte c \<or> is_alpha c \<or> is_digit c
     \<or> c \<in> set ''-_.~!$&()*+,;=:[]<>'' \<or> byte c = 39 \<or> byte c = 34"

text \<open>
  \<open>parseHost\<close> for a host without percent escapes and brackets; the code's replay hosts have neither,
  and a host with one is reported as an error here (it never equals a replay host after decoding,
  since only escapes of bytes outside ASCII are allowed in a host).
\<close>

definition parse_host :: "string \<Rightarrow> string option" where
  "parse_host h =
     (if \<not> list_all host_char h \<or> CHR ''['' \<in> set h \<or> CHR '']'' \<in> set h then None
      else case cut_last CHR '':'' h of
          None \<Rightarrow> Some h
        | Some (_, port) \<Rightarrow> if list_all is_digit port then Some h else None)"

definition userinfo_char :: "char \<Rightarrow> bool" where
  "userinfo_char c \<longleftrightarrow>
     is_alpha c \<or> is_digit c \<or> c \<in> set ''-._:~!$&()*+,;=%@'' \<or> byte c = 39"

definition parse_authority :: "string \<Rightarrow> string option" where
  "parse_authority a =
     (case cut_last CHR ''@'' a of
        None \<Rightarrow> parse_host a
      | Some (user, host) \<Rightarrow>
          (case parse_host host of None \<Rightarrow> None
           | Some h \<Rightarrow>
               if list_all userinfo_char user \<and> escapes_ok user then Some h else None))"

definition url_host :: "string \<Rightarrow> string option" where
  "url_host raw =
     (case cut_at CHR ''#'' raw of (u, frag) \<Rightarrow>
      if (\<exists>c\<in>set u. byte c < 32 \<or> byte c = 127) then None
      else if (case frag of None \<Rightarrow> False | Some f \<Rightarrow> \<not> escapes_ok f) then None
      else if u = ''*'' then Some []
      else case get_scheme u [] u of
          Inl _ \<Rightarrow> None
        | Inr (scheme, rest0) \<Rightarrow>
           (let rest = fst (cut_at CHR ''?'' rest0)
            in if \<not> has_prefix rest ''/''
               then (if scheme \<noteq> [] then Some []
                     else if CHR '':'' \<in> set (fst (cut_at CHR ''/'' rest)) then None
                     else if escapes_ok rest then Some [] else None)
               else if (scheme \<noteq> [] \<or> \<not> has_prefix rest ''///'') \<and> has_prefix rest ''//''
               then (case cut_at CHR ''/'' (drop 2 rest) of (auth, path) \<Rightarrow>
                       (case parse_authority auth of None \<Rightarrow> None
                        | Some h \<Rightarrow>
                           (if (case path of None \<Rightarrow> False | Some p \<Rightarrow> \<not> escapes_ok p)
                            then None else Some h)))
               else if escapes_ok rest then Some [] else None))"

text \<open>\<open>URL.Hostname\<close> drops a valid port.\<close>

definition hostname :: "string \<Rightarrow> string" where
  "hostname h =
     (case cut_last CHR '':'' h of
        None \<Rightarrow> h
      | Some (name, port) \<Rightarrow> if list_all is_digit port then name else h)"

definition replayOnlyHost :: "string \<Rightarrow> bool" where
  "replayOnlyHost destination =
     (let host = (case url_host destination of
                    None \<Rightarrow> destination
                  | Some h \<Rightarrow> if h \<noteq> [] then hostname h else destination)
      in host = ''payment-simulator'' \<or> host = ''replay-postgres''
         \<or> has_prefix host ''payment-simulator:'' \<or> has_prefix host ''replay-postgres:'')"

end
