(* ===== verification/Contracts.thy ===== *)
theory Contracts
  imports GoValue
begin

text \<open>
  internal/contracts/contracts.go: the frozen data model and its \<open>Validate\<close> methods. A Go string
  enumeration is a datatype with the constants of the code and one constructor for every other
  string. A slice or map the code compares with nil is an \<open>option\<close>; every \<open>Validate\<close> returns \<open>None\<close>
  for nil and the message of the first failed check otherwise (where the code ranges over a map
  literal and only the message depends on the iteration order, the model follows the literal).
\<close>

section \<open>Enumerations\<close>

datatype operation_kind =
    OperationEntrypoint | OperationInternal | OperationDependency | OperationStateChange
  | OperationSideEffect | OperationControl | UnknownOperation string

datatype event_type =
    EventStart | EventComplete | EventError | EventTimeout | EventRetry | EventEffect
  | EventStateObservation | UnknownEventType string

datatype event_status =
    EventRunning | EventSuccess | EventFailed | EventTimedOut | EventBlocked | UnknownEventStatus string

datatype incident_status =
    IncidentDetected | IncidentReady | IncidentBlocked | UnknownIncidentStatus string

datatype sanitization_status = SanitizationPass | SanitizationFail | UnknownSanitization string

datatype verdict = VerdictPass | VerdictFail | UnknownVerdict string

datatype graph_edge_type =
    GraphEdgeParentChild | GraphEdgeTemporal | GraphEdgeDependency | GraphEdgeRetry
  | GraphEdgeState | GraphEdgeSideEffect | UnknownGraphEdge string

datatype run_type = RunTypeBaseline | RunTypeWhatIf | UnknownRunType string

datatype replay_run_status =
    ReplayRunCreated | ReplayRunValidating | ReplayRunRunning
  | ReplayRunCompleted | ReplayRunFailed | ReplayRunBlocked | UnknownRunStatus string

text \<open>\<open>NoOutcome\<close> is the empty string, the value of a run without an outcome.\<close>

datatype replay_outcome =
    NoOutcome | ReplayOutcomeReproduced | ReplayOutcomeNotReproduced | ReplayOutcomeMitigated
  | ReplayOutcomeUnchanged | ReplayOutcomeInconclusive | UnknownOutcome string

datatype dependency_interaction_result =
    InteractionSimulated | InteractionAllowed | InteractionDenied | UnknownInteraction string

datatype reset_status = ResetCompleted | ResetFailed | UnknownResetStatus string

datatype capture_environment = CaptureDemo | UnknownCapture string
datatype state_fixture_kind = StateFixturePostgresRowset | UnknownFixtureKind string
datatype fixture_reset_strategy = FixtureTruncateAndLoad | UnknownFixtureReset string
datatype dependency_name = DependencyPaymentSimulator | UnknownDependency string
datatype failure_mode = FailureModeNone | UnknownFailureMode string
datatype replay_reset_strategy = ReplayResetGoldenV1 | UnknownReplayReset string
datatype intervention_type = InterventionPaymentLatency | UnknownIntervention string
datatype intervention_value_type = InterventionValueInteger | UnknownValueType string
datatype intervention_unit = InterventionUnitMilliseconds | UnknownUnit string
datatype integrity_algorithm = NoAlgorithm | IntegritySHA256 | UnknownAlgorithm string
datatype credential_profile = CredentialReplayOnly | UnknownCredential string

datatype error_code =
    SchemaInvalid | IntegrityMismatch | PackUnavailable | FixtureMissing | SanitizationFailed
  | IsolationViolation | DestinationBlocked | GraphCycle | OracleUnavailable
  | InterventionInvalid | InternalFailure | UnknownErrorCode string

definition ContractVersion :: string where
  "ContractVersion = ''1.0''"

fun event_type_str :: "event_type \<Rightarrow> string" where
  "event_type_str EventStart = ''START''"
| "event_type_str EventComplete = ''COMPLETE''"
| "event_type_str EventError = ''ERROR''"
| "event_type_str EventTimeout = ''TIMEOUT''"
| "event_type_str EventRetry = ''RETRY''"
| "event_type_str EventEffect = ''EFFECT''"
| "event_type_str EventStateObservation = ''STATE_OBSERVATION''"
| "event_type_str (UnknownEventType s) = s"

fun event_status_str :: "event_status \<Rightarrow> string" where
  "event_status_str EventRunning = ''RUNNING''"
| "event_status_str EventSuccess = ''SUCCESS''"
| "event_status_str EventFailed = ''FAILED''"
| "event_status_str EventTimedOut = ''TIMEOUT''"
| "event_status_str EventBlocked = ''BLOCKED''"
| "event_status_str (UnknownEventStatus s) = s"

section \<open>Structures\<close>

record component_ref =
  comp_name :: string
  comp_instance :: string

record operation_ref =
  op_name :: string
  op_kind :: operation_kind

record system_pack_ref =
  pack_id :: string
  pack_version :: string
  pack_interface :: string

record failure_oracle_ref =
  oracle_id :: string
  oracle_version :: string

record execution_event =
  ev_schema :: string
  ev_id :: string
  ev_execution :: string
  ev_trace :: string
  ev_parent :: string
  ev_run :: string
  ev_component :: component_ref
  ev_operation :: operation_ref
  ev_type :: event_type
  ev_attempt :: int
  ev_logical_op :: string
  ev_occurred_at :: string
  ev_sequence :: int
  ev_duration :: "int option"
  ev_status :: event_status
  ev_attributes :: go_object

record validation_issue =
  issue_code :: error_code
  issue_path :: string
  issue_message :: string

record run_error =
  err_code :: error_code
  err_message :: string
  err_retryable :: bool
  err_details :: go_object

record incident =
  inc_schema :: string
  inc_id :: string
  inc_status :: incident_status
  inc_block_reason :: "validation_issue option"
  inc_oracle :: failure_oracle_ref
  inc_pack :: system_pack_ref
  inc_trace :: string
  inc_execution :: string
  inc_detected_at :: string
  inc_summary :: string
  inc_evidence :: "string list"
  inc_graph :: string
  inc_sanitization :: sanitization_status

record graph_node =
  node_event :: string
  node_index :: int

record graph_edge =
  edge_id :: string
  edge_from :: string
  edge_to :: string
  edge_type :: graph_edge_type

record execution_graph =
  graph_schema :: string
  graph_id :: string
  graph_incident :: string
  graph_policy :: string
  graph_nodes :: "graph_node list"
  graph_edges :: "graph_edge list"

record capsule_source =
  src_incident :: string
  src_trace :: string
  src_execution :: string
  src_environment :: capture_environment
  src_captured_at :: string

record trigger =
  trig_request :: go_object
  trig_headers :: "(string \<times> string) list option"

record state_fixture =
  sf_id :: string
  sf_kind :: state_fixture_kind
  sf_ref :: string
  sf_digest :: string
  sf_sanitization :: sanitization_status
  sf_reset :: fixture_reset_strategy

record dependency_fixture =
  df_id :: string
  df_dependency :: dependency_name
  df_request :: go_object
  df_response :: go_object
  df_latency :: int
  df_failure_mode :: failure_mode
  df_limit :: int

record timing_policy =
  clock_tolerance_ms :: int
  timeout_ms :: int

record replay_plan =
  plan_entrypoint :: string
  plan_components :: "string slice"
  plan_load_order :: "string slice"
  plan_reset :: replay_reset_strategy

record effect_summary =
  payment_attempts :: int
  ledger_commits :: int

record effect_delta =
  delta_attempts :: int
  delta_commits :: int

record failure_oracle_spec =
  spec_id :: string
  spec_version :: string
  spec_expected :: bool
  spec_effects :: effect_summary

record intervention_spec =
  ispec_type :: intervention_type
  ispec_value_type :: intervention_value_type
  ispec_unit :: intervention_unit
  ispec_min :: int
  ispec_max :: int

record safety_policy =
  sp_version :: string
  sp_sanitization :: sanitization_status
  sp_blocked :: "string list"
  sp_allowed :: "string slice"
  sp_credential :: credential_profile

record integrity =
  int_algorithm :: integrity_algorithm
  int_digest :: string

record replay_capsule =
  cap_schema :: string
  cap_id :: string
  cap_created_at :: string
  cap_source :: capsule_source
  cap_pack :: system_pack_ref
  cap_trigger :: trigger
  cap_events :: "string list"
  cap_graph :: string
  cap_state_fixtures :: "state_fixture list"
  cap_dependency_fixtures :: "dependency_fixture list"
  cap_timing :: timing_policy
  cap_plan :: replay_plan
  cap_oracle :: failure_oracle_spec
  cap_interventions :: "intervention_spec list"
  cap_safety :: safety_policy
  cap_integrity :: integrity

record intervention =
  iv_type :: intervention_type
  iv_from :: int
  iv_to :: int
  iv_unit :: intervention_unit

record oracle_result =
  or_oracle :: failure_oracle_ref
  or_matched :: bool
  or_effects :: effect_summary
  or_evidence :: "string slice"
  or_explanation :: string

record dependency_interaction =
  di_dependency :: string
  di_destination :: string
  di_operation :: string
  di_result :: dependency_interaction_result

record isolation_evidence =
  iso_policy :: string
  iso_verdict :: verdict
  iso_namespace :: string
  iso_network :: verdict
  iso_credential :: credential_profile
  iso_datastores :: "string slice"
  iso_simulators :: "dependency_interaction slice"
  iso_denied :: "dependency_interaction slice"
  iso_teardown :: verdict

record replay_run =
  run_schema :: string
  run_id :: string
  run_execution :: string
  run_capsule :: string
  run_capsule_hash :: string
  run_kind :: run_type
  run_baseline :: string
  run_intervention :: "intervention option"
  run_trial :: int
  run_status :: replay_run_status
  run_outcome :: replay_outcome
  run_started_at :: string
  run_completed_at :: string
  run_observed :: "string slice"
  run_effects :: "effect_summary option"
  run_oracle :: "oracle_result option"
  run_isolation :: "isolation_evidence option"
  run_error_field :: "run_error option"

record event_alignment =
  al_baseline :: string
  al_comparison :: string

record event_change =
  ch_baseline :: string
  ch_comparison :: string
  ch_field :: string
  ch_baseline_value :: go_value
  ch_comparison_value :: go_value

record first_divergence =
  dv_baseline :: string
  dv_comparison :: string
  dv_rule :: string
  dv_baseline_value :: go_value
  dv_comparison_value :: go_value
  dv_baseline_index :: int
  dv_comparison_index :: int

record replay_diff =
  diff_schema :: string
  diff_id :: string
  diff_baseline :: string
  diff_comparison :: string
  diff_alignment :: string
  diff_intervention :: intervention
  diff_baseline_oracle :: oracle_result
  diff_comparison_oracle :: oracle_result
  diff_matched :: "event_alignment slice"
  diff_added :: "string slice"
  diff_removed :: "string slice"
  diff_changed :: "event_change slice"
  diff_divergence :: "first_divergence option"
  diff_baseline_effects :: effect_summary
  diff_comparison_effects :: effect_summary
  diff_delta :: effect_delta
  diff_evidence :: string
  diff_limitations :: "string slice"

record reset_result =
  rr_schema :: string
  rr_id :: string
  rr_status :: reset_status
  rr_incidents :: int
  rr_runs :: int
  rr_ledger :: int
  rr_fixture_version :: string
  rr_latency :: int
  rr_dedup :: bool
  rr_next_op :: string
  rr_error :: "run_error option"

record fixture_set =
  fs_state :: "state_fixture list"
  fs_dependency :: "dependency_fixture list"

record replay_execution =
  ex_run :: replay_run
  ex_events :: "execution_event list"
  ex_graph :: execution_graph

record create_run_request =
  crr_type :: run_type
  crr_baseline :: string
  crr_intervention :: "intervention option"

record create_diff_request =
  cdr_baseline :: string
  cdr_comparison :: string

end
