(* ===== verification/Validation.thy ===== *)
theory Validation
  imports Contracts
begin

text \<open>
  The \<open>Validate\<close> methods of internal/contracts/contracts.go (the graph's is in theory Graph) and
  the run life cycle \<open>CanTransitionReplayRun\<close>. For each contract the library states when its check
  returns nil, and what a valid value guarantees.
\<close>

datatype contract_error = ContractError string

type_synonym check = "contract_error option"

abbreviation fail :: "string \<Rightarrow> check" where
  "fail m \<equiv> Some (ContractError m)"

text \<open>A chain of guards returns nil exactly when no guard fires.\<close>

lemma guard_None [simp]: "(if b then Some x else r) = None \<longleftrightarrow> \<not> b \<and> r = None"
  by simp

lemma guard_None_last [simp]: "(if b then r else Some x) = None \<longleftrightarrow> b \<and> r = None"
  by simp

lemma first_of_None [simp]:
  "(case r of None \<Rightarrow> s | Some e \<Rightarrow> Some (f e)) = None \<longleftrightarrow> r = None \<and> s = None"
  by (cases r) simp_all

lemma missing_None [simp]:
  "(case r of None \<Rightarrow> Some m | Some e \<Rightarrow> g e) = None \<longleftrightarrow> (\<exists>e. r = Some e \<and> g e = None)"
  by (cases r) simp_all

section \<open>Helpers\<close>

fun oneOf :: "'a \<Rightarrow> 'a list \<Rightarrow> bool" where
  "oneOf v [] = False"
| "oneOf v (c # cs) = (v = c \<or> oneOf v cs)"

lemma oneOf_iff [simp]: "oneOf v cs \<longleftrightarrow> v \<in> set cs"
  by (induction cs) auto

fun nonemptyStrings :: "string list \<Rightarrow> bool" where
  "nonemptyStrings [] = True"
| "nonemptyStrings (v # vs) = (if blank v then False else nonemptyStrings vs)"

lemma nonemptyStrings_iff [simp]: "nonemptyStrings vs \<longleftrightarrow> (\<forall>v\<in>set vs. \<not> blank v)"
  by (induction vs) auto

text \<open>\<open>^[0-9a-f]{64}$\<close>\<close>

definition sha256Pattern :: "string \<Rightarrow> bool" where
  "sha256Pattern s \<longleftrightarrow>
     length s = 64 \<and> list_all (\<lambda>c. is_digit c \<or> (97 \<le> byte c \<and> byte c \<le> 102)) s"

definition validOperationKind :: "operation_kind \<Rightarrow> bool" where
  "validOperationKind v = oneOf v [OperationEntrypoint, OperationInternal, OperationDependency,
     OperationStateChange, OperationSideEffect, OperationControl]"

definition validEventType :: "event_type \<Rightarrow> bool" where
  "validEventType v = oneOf v [EventStart, EventComplete, EventError, EventTimeout, EventRetry,
     EventEffect, EventStateObservation]"

definition validEventStatus :: "event_status \<Rightarrow> bool" where
  "validEventStatus v = oneOf v [EventRunning, EventSuccess, EventFailed, EventTimedOut, EventBlocked]"

definition validGraphEdgeType :: "graph_edge_type \<Rightarrow> bool" where
  "validGraphEdgeType v = oneOf v [GraphEdgeParentChild, GraphEdgeTemporal, GraphEdgeDependency,
     GraphEdgeRetry, GraphEdgeState, GraphEdgeSideEffect]"

definition validRunStatus :: "replay_run_status \<Rightarrow> bool" where
  "validRunStatus v = oneOf v [ReplayRunCreated, ReplayRunValidating, ReplayRunRunning,
     ReplayRunCompleted, ReplayRunFailed, ReplayRunBlocked]"

definition validErrorCode :: "error_code \<Rightarrow> bool" where
  "validErrorCode v = oneOf v [SchemaInvalid, IntegrityMismatch, PackUnavailable, FixtureMissing,
     SanitizationFailed, IsolationViolation, DestinationBlocked, GraphCycle, OracleUnavailable,
     InterventionInvalid, InternalFailure]"

lemmas valid_enum_defs = validOperationKind_def validEventType_def validEventStatus_def
  validGraphEdgeType_def validRunStatus_def validErrorCode_def

section \<open>Execution events\<close>

definition event_required :: "execution_event \<Rightarrow> (string \<times> string) list" where
  "event_required e =
     [(''schema_version'', ev_schema e), (''event_id'', ev_id e), (''execution_id'', ev_execution e),
      (''trace_id'', ev_trace e), (''component.name'', comp_name (ev_component e)),
      (''component.instance'', comp_instance (ev_component e)),
      (''operation.name'', op_name (ev_operation e)),
      (''logical_operation_id'', ev_logical_op e), (''occurred_at'', ev_occurred_at e)]"

definition required_check :: "string \<times> string \<Rightarrow> check" where
  "required_check nv = (if snd nv = [] then fail (fst nv @ '' is required'') else None)"

text \<open>The allow-list of attributes, with the type each one must have.\<close>

definition attribute_check :: "string \<times> go_value \<Rightarrow> check" where
  "attribute_check kv =
     (let key = fst kv; value = snd kv
      in if key = ''configured_latency_ms'' then
           (if nonnegativeInteger value then None
            else fail (''attributes.'' @ key @ '' must be a non-negative integer''))
         else if key = ''checkout_timeout_ms'' then
           (if positiveInteger value then None
            else fail (''attributes.'' @ key @ '' must be a positive integer''))
         else if key = ''effect_id'' \<or> key = ''dependency_name'' then
           (case value of VStr _ \<Rightarrow> None | _ \<Rightarrow> fail (''attributes.'' @ key @ '' must be a string''))
         else if key = ''effect_committed'' then
           (case value of VBool _ \<Rightarrow> None | _ \<Rightarrow> fail (''attributes.'' @ key @ '' must be a boolean''))
         else fail (''attribute '' @ key @ '' is not allowed''))"

definition event_validate :: "execution_event \<Rightarrow> check" where
  "event_validate e =
     (case first_error required_check (event_required e) of Some err \<Rightarrow> Some err
      | None \<Rightarrow>
        if ev_schema e \<noteq> ContractVersion then fail ''schema_version must be 1.0''
        else if \<not> validOperationKind (op_kind (ev_operation e)) \<or> \<not> validEventType (ev_type e)
                \<or> \<not> validEventStatus (ev_status e) then fail ''invalid execution event enum''
        else if ev_attempt e < 1 then fail ''attempt must be at least 1''
        else if ev_sequence e < 0 then fail ''sequence must be non-negative''
        else if (case ev_duration e of None \<Rightarrow> False | Some d \<Rightarrow> d < 0)
          then fail ''duration_ms must be non-negative''
        else if \<not> validUTCTime (ev_occurred_at e) then fail ''occurred_at must be RFC3339 UTC''
        else (case ev_attributes e of None \<Rightarrow> fail ''attributes must be an object''
              | Some kvs \<Rightarrow> first_error attribute_check kvs))"

lemma required_check_None [simp]: "required_check nv = None \<longleftrightarrow> snd nv \<noteq> []"
  by (simp add: required_check_def)

lemma event_validate_None_iff [contract_simps]:
  "event_validate e = None \<longleftrightarrow>
     ev_schema e = ContractVersion \<and> ev_id e \<noteq> [] \<and> ev_execution e \<noteq> [] \<and> ev_trace e \<noteq> []
     \<and> comp_name (ev_component e) \<noteq> [] \<and> comp_instance (ev_component e) \<noteq> []
     \<and> op_name (ev_operation e) \<noteq> [] \<and> ev_logical_op e \<noteq> []
     \<and> validOperationKind (op_kind (ev_operation e)) \<and> validEventType (ev_type e)
     \<and> validEventStatus (ev_status e) \<and> 1 \<le> ev_attempt e \<and> 0 \<le> ev_sequence e
     \<and> (\<forall>d. ev_duration e = Some d \<longrightarrow> 0 \<le> d) \<and> validUTCTime (ev_occurred_at e)
     \<and> (\<exists>kvs. ev_attributes e = Some kvs \<and> (\<forall>kv\<in>set kvs. attribute_check kv = None))"
proof -
  have dur: "(case d of None \<Rightarrow> False | Some d \<Rightarrow> d < 0) \<longleftrightarrow> \<not> (\<forall>k. d = Some k \<longrightarrow> 0 \<le> k)"
    for d :: "int option"
    by (cases d) auto
  have ver: "ev_schema e = ContractVersion \<Longrightarrow> ev_schema e \<noteq> []"
    by (simp add: ContractVersion_def)
  show ?thesis
    unfolding event_validate_def dur
    by (simp add: event_required_def) (use ver validUTCTime_nonempty in \<open>auto simp: not_less\<close>)
qed

section \<open>Errors and issues\<close>

definition run_error_validate :: "run_error \<Rightarrow> check" where
  "run_error_validate e =
     (if \<not> validErrorCode (err_code e) \<or> blank (err_message e) \<or> err_details e = None
      then fail ''invalid run error'' else None)"

definition issue_validate :: "validation_issue \<Rightarrow> check" where
  "issue_validate v =
     (if \<not> validErrorCode (issue_code v) \<or> \<not> has_prefix (issue_path v) ''/'' \<or> blank (issue_message v)
      then fail ''invalid validation issue'' else None)"

section \<open>Incidents\<close>

definition incident_validate :: "incident \<Rightarrow> check" where
  "incident_validate i =
     (if inc_schema i \<noteq> ContractVersion \<or> inc_id i = [] \<or> inc_trace i = [] \<or> inc_execution i = []
         \<or> inc_summary i = [] \<or> oracle_id (inc_oracle i) = [] \<or> oracle_version (inc_oracle i) = []
         \<or> pack_id (inc_pack i) = [] \<or> pack_version (inc_pack i) = []
         \<or> pack_interface (inc_pack i) \<noteq> ContractVersion
      then fail ''missing or invalid incident field''
      else if \<not> validUTCTime (inc_detected_at i) \<or> inc_evidence i = []
         \<or> \<not> oneOf (inc_sanitization i) [SanitizationPass, SanitizationFail]
         \<or> \<not> oneOf (inc_status i) [IncidentDetected, IncidentReady, IncidentBlocked]
      then fail ''invalid incident field''
      else if inc_status i = IncidentBlocked \<and> inc_block_reason i = None
      then fail ''blocked incident requires block_reason''
      else if inc_status i \<noteq> IncidentBlocked \<and> inc_block_reason i \<noteq> None
      then fail ''only blocked incident may have block_reason''
      else if inc_status i = IncidentReady \<and> (inc_graph i = [] \<or> inc_sanitization i \<noteq> SanitizationPass)
      then fail ''ready incident requires graph and passing sanitization''
      else (case inc_block_reason i of Some r \<Rightarrow> issue_validate r | None \<Rightarrow> None))"

lemma incident_valid_detected_at: "incident_validate i = None \<Longrightarrow> validUTCTime (inc_detected_at i)"
  by (simp add: incident_validate_def split: if_splits)

section \<open>Small contracts\<close>

definition intervention_validate :: "intervention \<Rightarrow> check" where
  "intervention_validate i =
     (if iv_type i \<noteq> InterventionPaymentLatency \<or> iv_unit i \<noteq> InterventionUnitMilliseconds
         \<or> iv_from i < 0 \<or> iv_from i > 5000 \<or> iv_to i < 0 \<or> iv_to i > 5000 \<or> iv_from i = iv_to i
      then fail ''invalid intervention'' else None)"

definition effects_validate :: "effect_summary \<Rightarrow> check" where
  "effects_validate e =
     (if payment_attempts e < 0 \<or> ledger_commits e < 0
      then fail ''effect counts must be non-negative'' else None)"

definition oracle_result_validate :: "oracle_result \<Rightarrow> check" where
  "oracle_result_validate r =
     (if oracle_id (or_oracle r) = [] \<or> oracle_version (or_oracle r) = [] \<or> or_evidence r = None
         \<or> \<not> nonemptyStrings (elems (or_evidence r)) \<or> blank (or_explanation r)
      then fail ''invalid oracle result'' else effects_validate (or_effects r))"

definition interaction_validate :: "dependency_interaction \<Rightarrow> check" where
  "interaction_validate i =
     (if di_dependency i = [] \<or> di_destination i = [] \<or> di_operation i = []
         \<or> \<not> oneOf (di_result i) [InteractionSimulated, InteractionAllowed, InteractionDenied]
      then fail ''invalid dependency interaction'' else None)"

lemma intervention_validate_None_iff [contract_simps]:
  "intervention_validate i = None \<longleftrightarrow>
     iv_type i = InterventionPaymentLatency \<and> iv_unit i = InterventionUnitMilliseconds
     \<and> 0 \<le> iv_from i \<and> iv_from i \<le> 5000 \<and> 0 \<le> iv_to i \<and> iv_to i \<le> 5000 \<and> iv_from i \<noteq> iv_to i"
  by (auto simp: intervention_validate_def)

lemma effects_validate_None_iff [contract_simps]:
  "effects_validate e = None \<longleftrightarrow> 0 \<le> payment_attempts e \<and> 0 \<le> ledger_commits e"
  by (auto simp: effects_validate_def)

lemma oracle_result_validate_None_iff [contract_simps]:
  "oracle_result_validate r = None \<longleftrightarrow>
     oracle_id (or_oracle r) \<noteq> [] \<and> oracle_version (or_oracle r) \<noteq> []
     \<and> (\<exists>ids. or_evidence r = Some ids \<and> (\<forall>i\<in>set ids. \<not> blank i)) \<and> \<not> blank (or_explanation r)
     \<and> effects_validate (or_effects r) = None"
  by (auto simp: oracle_result_validate_def)

section \<open>Isolation evidence\<close>

definition simulator_check :: "dependency_interaction \<Rightarrow> check" where
  "simulator_check i =
     (if interaction_validate i \<noteq> None \<or> di_result i = InteractionDenied \<or> \<not> replayOnlyHost (di_destination i)
      then fail ''invalid simulator interaction'' else None)"

definition denied_check :: "dependency_interaction \<Rightarrow> check" where
  "denied_check i =
     (if interaction_validate i \<noteq> None \<or> di_result i \<noteq> InteractionDenied
      then fail ''invalid denied interaction'' else None)"

definition isolation_failed :: "isolation_evidence \<Rightarrow> bool" where
  "isolation_failed i \<longleftrightarrow>
     iso_network i = VerdictFail \<or> iso_teardown i = VerdictFail \<or> elems (iso_denied i) \<noteq> []
     \<or> (\<exists>d\<in>set (elems (iso_datastores i)). \<not> has_prefix d ''postgres://replay/'')"

definition isolation_validate :: "isolation_evidence \<Rightarrow> check" where
  "isolation_validate i =
     (if iso_policy i \<noteq> ContractVersion \<or> \<not> oneOf (iso_verdict i) [VerdictPass, VerdictFail]
         \<or> iso_namespace i = [] \<or> \<not> oneOf (iso_network i) [VerdictPass, VerdictFail]
         \<or> iso_credential i \<noteq> CredentialReplayOnly \<or> iso_datastores i = None
         \<or> iso_simulators i = None \<or> iso_denied i = None
         \<or> \<not> oneOf (iso_teardown i) [VerdictPass, VerdictFail]
         \<or> \<not> nonemptyStrings (elems (iso_datastores i))
      then fail ''invalid isolation evidence''
      else case first_error simulator_check (elems (iso_simulators i)) of Some e \<Rightarrow> Some e
      | None \<Rightarrow>
        (case first_error denied_check (elems (iso_denied i)) of Some e \<Rightarrow> Some e
         | None \<Rightarrow>
           if (iso_verdict i = VerdictFail) \<noteq> isolation_failed i
           then fail ''isolation verdict is inconsistent with evidence'' else None))"

text \<open>What passing isolation evidence guarantees: default-deny held.\<close>

lemma isolation_pass_safe:
  assumes "isolation_validate i = None" and "iso_verdict i = VerdictPass"
  shows "iso_network i = VerdictPass" and "iso_teardown i = VerdictPass" and "iso_denied i = Some []"
    and "iso_credential i = CredentialReplayOnly"
    and "\<forall>d\<in>set (elems (iso_datastores i)). has_prefix d ''postgres://replay/''"
    and "\<forall>s\<in>set (elems (iso_simulators i)). di_result s \<noteq> InteractionDenied \<and> replayOnlyHost (di_destination s)"
  using assms
  by (auto simp: isolation_validate_def isolation_failed_def simulator_check_def
      split: if_splits option.splits)

section \<open>Replay capsules\<close>

text \<open>
  The two fixture loops share the set \<open>fixtureIDs\<close> of ids seen so far, here the list \<open>seen\<close>.
\<close>

definition state_fixture_bad :: "string list \<Rightarrow> state_fixture \<Rightarrow> bool" where
  "state_fixture_bad seen f \<longleftrightarrow>
     sf_id f = [] \<or> sf_id f \<in> set seen \<or> sf_kind f \<noteq> StateFixturePostgresRowset
     \<or> \<not> has_prefix (sf_ref f) ''fixture://'' \<or> \<not> sha256Pattern (sf_digest f)
     \<or> sf_sanitization f \<noteq> SanitizationPass \<or> sf_reset f \<noteq> FixtureTruncateAndLoad"

fun state_fixtures_check :: "string list \<Rightarrow> state_fixture list \<Rightarrow> contract_error + string list" where
  "state_fixtures_check seen [] = Inr seen"
| "state_fixtures_check seen (f # fs) =
     (if state_fixture_bad seen f then Inl (ContractError ''invalid state fixture'')
      else state_fixtures_check (sf_id f # seen) fs)"

definition dependency_fixture_bad :: "string list \<Rightarrow> dependency_fixture \<Rightarrow> bool" where
  "dependency_fixture_bad seen f \<longleftrightarrow>
     df_id f = [] \<or> df_id f \<in> set seen \<or> df_dependency f \<noteq> DependencyPaymentSimulator
     \<or> \<not> validJSONObject (df_request f) \<or> \<not> validJSONObject (df_response f) \<or> df_latency f < 0
     \<or> df_failure_mode f \<noteq> FailureModeNone \<or> df_limit f < 1"

fun dependency_fixtures_check :: "string list \<Rightarrow> dependency_fixture list \<Rightarrow> contract_error + string list" where
  "dependency_fixtures_check seen [] = Inr seen"
| "dependency_fixtures_check seen (f # fs) =
     (if dependency_fixture_bad seen f then Inl (ContractError ''invalid dependency fixture'')
      else dependency_fixtures_check (df_id f # seen) fs)"

definition p0_interventions :: "intervention_spec list" where
  "p0_interventions =
     [\<lparr>ispec_type = InterventionPaymentLatency, ispec_value_type = InterventionValueInteger,
       ispec_unit = InterventionUnitMilliseconds, ispec_min = 0, ispec_max = 5000\<rparr>]"

definition p0_components :: "string list" where
  "p0_components = [''gateway'', ''checkout'', ''payment'', ''ledger'']"

text \<open>The checks on the capsule after its fixtures, with the ids of all fixtures.\<close>

definition capsule_plan_check :: "string list \<Rightarrow> replay_capsule \<Rightarrow> check" where
  "capsule_plan_check ids c =
     (if clock_tolerance_ms (cap_timing c) \<noteq> 5 \<or> timeout_ms (cap_timing c) \<noteq> 200
         \<or> plan_entrypoint (cap_plan c) \<noteq> ''gateway.checkout''
         \<or> plan_components (cap_plan c) \<noteq> Some p0_components
         \<or> plan_load_order (cap_plan c) = None \<or> plan_reset (cap_plan c) \<noteq> ReplayResetGoldenV1
      then fail ''invalid replay timing or plan''
      else if (\<exists>f\<in>set (elems (plan_load_order (cap_plan c))). f \<notin> set ids)
      then fail ''fixture_load_order contains unknown fixture''
      else if length (elems (plan_load_order (cap_plan c))) \<noteq> length ids
      then fail ''fixture_load_order must contain every fixture exactly once''
      else if spec_id (cap_oracle c) \<noteq> ''duplicate_ledger_effect''
         \<or> spec_version (cap_oracle c) \<noteq> ''1.0.0'' \<or> \<not> spec_expected (cap_oracle c)
         \<or> spec_effects (cap_oracle c) \<noteq> \<lparr>payment_attempts = 2, ledger_commits = 2\<rparr>
      then fail ''invalid failure oracle''
      else if cap_interventions c \<noteq> p0_interventions
      then fail ''invalid allowed interventions''
      else if sp_version (cap_safety c) \<noteq> ContractVersion
         \<or> sp_sanitization (cap_safety c) \<noteq> SanitizationPass \<or> sp_blocked (cap_safety c) = []
         \<or> \<not> nonemptyStrings (sp_blocked (cap_safety c)) \<or> sp_allowed (cap_safety c) = None
         \<or> sp_credential (cap_safety c) \<noteq> CredentialReplayOnly
      then fail ''invalid safety policy''
      else if (\<exists>d\<in>set (elems (sp_allowed (cap_safety c))).
                 d \<noteq> ''payment-simulator'' \<and> d \<noteq> ''replay-postgres'')
      then fail ''allowed destination is not replay-only''
      else if int_algorithm (cap_integrity c) \<noteq> IntegritySHA256
         \<or> \<not> sha256Pattern (int_digest (cap_integrity c))
      then fail ''invalid capsule integrity'' else None)"

definition capsule_validate :: "replay_capsule \<Rightarrow> check" where
  "capsule_validate c =
     (if cap_schema c \<noteq> ContractVersion \<or> cap_id c = [] \<or> cap_graph c = []
         \<or> \<not> validUTCTime (cap_created_at c)
      then fail ''missing or invalid replay capsule field''
      else if src_incident (cap_source c) = [] \<or> src_trace (cap_source c) = []
         \<or> src_execution (cap_source c) = [] \<or> src_environment (cap_source c) \<noteq> CaptureDemo
         \<or> \<not> validUTCTime (src_captured_at (cap_source c))
      then fail ''invalid capsule source''
      else if pack_id (cap_pack c) = [] \<or> pack_version (cap_pack c) = []
         \<or> pack_interface (cap_pack c) \<noteq> ContractVersion
      then fail ''invalid system pack''
      else if \<not> validJSONObject (trig_request (cap_trigger c)) \<or> trig_headers (cap_trigger c) = None
         \<or> cap_events c = [] \<or> \<not> nonemptyStrings (cap_events c)
      then fail ''invalid capsule trigger or event_ids''
      else if cap_state_fixtures c = [] \<or> cap_dependency_fixtures c = []
      then fail ''fixture arrays are required''
      else case state_fixtures_check [] (cap_state_fixtures c) of Inl e \<Rightarrow> Some e
      | Inr seen \<Rightarrow>
        (case dependency_fixtures_check seen (cap_dependency_fixtures c) of Inl e \<Rightarrow> Some e
         | Inr ids \<Rightarrow> capsule_plan_check ids c))"

lemma state_fixture_good:
  "\<not> state_fixture_bad seen f \<Longrightarrow>
     sf_id f \<notin> set seen \<and> sf_kind f = StateFixturePostgresRowset
     \<and> sf_reset f = FixtureTruncateAndLoad \<and> sf_sanitization f = SanitizationPass"
  by (simp add: state_fixture_bad_def)

lemma dependency_fixture_good:
  "\<not> dependency_fixture_bad seen f \<Longrightarrow>
     df_id f \<notin> set seen \<and> df_dependency f = DependencyPaymentSimulator \<and> 0 \<le> df_latency f \<and> 1 \<le> df_limit f"
  by (simp add: dependency_fixture_bad_def)

lemma state_fixtures_check_distinct:
  "state_fixtures_check seen fs = Inr ids \<Longrightarrow> distinct seen \<Longrightarrow> distinct ids"
proof (induction fs arbitrary: seen)
  case Nil
  then show ?case by simp
next
  case (Cons f fs)
  then show ?case
    by (metis Inl_Inr_False distinct.simps(2) state_fixture_good state_fixtures_check.simps(2))
qed

lemma state_fixtures_check_Inr:
  assumes "state_fixtures_check seen fs = Inr ids"
  shows "ids = rev (map sf_id fs) @ seen"
    and "\<forall>f\<in>set fs. sf_kind f = StateFixturePostgresRowset \<and> sf_reset f = FixtureTruncateAndLoad
           \<and> sf_sanitization f = SanitizationPass"
  using assms
  by (induction fs arbitrary: seen) (auto dest!: state_fixture_good split: if_split_asm)

lemma dependency_fixtures_check_distinct:
  "dependency_fixtures_check seen fs = Inr ids \<Longrightarrow> distinct seen \<Longrightarrow> distinct ids"
proof (induction fs arbitrary: seen)
  case Nil
  then show ?case by simp
next
  case (Cons f fs)
  then show ?case
    by (metis Inl_Inr_False distinct.simps(2) dependency_fixture_good dependency_fixtures_check.simps(2))
qed

lemma dependency_fixtures_check_Inr:
  assumes "dependency_fixtures_check seen fs = Inr ids"
  shows "ids = rev (map df_id fs) @ seen"
    and "\<forall>f\<in>set fs. df_dependency f = DependencyPaymentSimulator \<and> 0 \<le> df_latency f \<and> 1 \<le> df_limit f"
  using assms
  by (induction fs arbitrary: seen) (auto dest!: dependency_fixture_good split: if_split_asm)

text \<open>The ids of all fixtures of a capsule, and what a valid capsule says of them.\<close>

definition fixture_ids :: "replay_capsule \<Rightarrow> string list" where
  "fixture_ids c = map sf_id (cap_state_fixtures c) @ map df_id (cap_dependency_fixtures c)"

lemma capsule_valid_parts:
  assumes "capsule_validate c = None"
  shows "distinct (fixture_ids c)"
    and "\<exists>order. plan_load_order (cap_plan c) = Some order \<and> set order \<subseteq> set (fixture_ids c)
           \<and> length order = length (fixture_ids c)"
    and "sp_credential (cap_safety c) = CredentialReplayOnly"
    and "set (elems (sp_allowed (cap_safety c))) \<subseteq> {''payment-simulator'', ''replay-postgres''}"
    and "cap_interventions c = p0_interventions"
    and "plan_components (cap_plan c) = Some p0_components"
    and "plan_entrypoint (cap_plan c) = ''gateway.checkout''"
    and "\<forall>f\<in>set (cap_state_fixtures c). sf_kind f = StateFixturePostgresRowset
           \<and> sf_reset f = FixtureTruncateAndLoad \<and> sf_sanitization f = SanitizationPass"
    and "\<forall>f\<in>set (cap_dependency_fixtures c). df_dependency f = DependencyPaymentSimulator
           \<and> 0 \<le> df_latency f \<and> 1 \<le> df_limit f"
    and "cap_state_fixtures c \<noteq> []" and "cap_dependency_fixtures c \<noteq> []"
proof -
  from assms obtain seen ids where
      s: "state_fixtures_check [] (cap_state_fixtures c) = Inr seen" and
      d: "dependency_fixtures_check seen (cap_dependency_fixtures c) = Inr ids" and
      p: "capsule_plan_check ids c = None"
    by (auto simp: capsule_validate_def split: if_splits sum.splits)
  note s' = state_fixtures_check_Inr [OF s] and d' = dependency_fixtures_check_Inr [OF d]
  have ids: "ids = rev (fixture_ids c)"
    using s'(1) d'(1) by (simp add: fixture_ids_def)
  show "distinct (fixture_ids c)" using state_fixtures_check_distinct [OF s] dependency_fixtures_check_distinct [OF d] ids by simp
  show "\<exists>order. plan_load_order (cap_plan c) = Some order \<and> set order \<subseteq> set (fixture_ids c)
           \<and> length order = length (fixture_ids c)"
    using p ids by (auto simp: capsule_plan_check_def split: if_splits)
  show "sp_credential (cap_safety c) = CredentialReplayOnly"
    "set (elems (sp_allowed (cap_safety c))) \<subseteq> {''payment-simulator'', ''replay-postgres''}"
    "cap_interventions c = p0_interventions"
    "plan_components (cap_plan c) = Some p0_components"
    "plan_entrypoint (cap_plan c) = ''gateway.checkout''"
    using p by (auto simp: capsule_plan_check_def split: if_splits)
  show "\<forall>f\<in>set (cap_state_fixtures c). sf_kind f = StateFixturePostgresRowset
           \<and> sf_reset f = FixtureTruncateAndLoad \<and> sf_sanitization f = SanitizationPass"
    by (rule s'(2))
  show "\<forall>f\<in>set (cap_dependency_fixtures c). df_dependency f = DependencyPaymentSimulator
           \<and> 0 \<le> df_latency f \<and> 1 \<le> df_limit f"
    by (rule d'(2))
  show "cap_state_fixtures c \<noteq> []" "cap_dependency_fixtures c \<noteq> []"
    using assms by (auto simp: capsule_validate_def split: if_splits)
qed

section \<open>Replay diffs\<close>

definition alignment_check :: "event_alignment \<Rightarrow> check" where
  "alignment_check a =
     (if al_baseline a = [] \<or> al_comparison a = [] then fail ''invalid event alignment'' else None)"

definition change_check :: "event_change \<Rightarrow> check" where
  "change_check c =
     (if ch_baseline c = [] \<or> ch_comparison c = [] \<or> ch_field c = []
         \<or> \<not> validJSONValue (ch_baseline_value c) \<or> \<not> validJSONValue (ch_comparison_value c)
         \<or> deep_equal (ch_baseline_value c) (ch_comparison_value c)
      then fail ''invalid event change'' else None)"

definition divergence_check :: "first_divergence \<Rightarrow> check" where
  "divergence_check v =
     (if dv_baseline v = [] \<and> dv_comparison v = [] \<or> dv_rule v = [] \<or> dv_baseline_index v < 0
         \<or> dv_comparison_index v < 0 \<or> \<not> validJSONValue (dv_baseline_value v)
         \<or> \<not> validJSONValue (dv_comparison_value v)
         \<or> deep_equal (dv_baseline_value v) (dv_comparison_value v)
      then fail ''invalid first meaningful divergence'' else None)"

definition diff_array_check :: "replay_diff \<Rightarrow> check" where
  "diff_array_check d =
     (if diff_matched d = None \<or> diff_added d = None \<or> diff_removed d = None \<or> diff_changed d = None
         \<or> diff_limitations d = None \<or> \<not> nonemptyStrings (elems (diff_added d))
         \<or> \<not> nonemptyStrings (elems (diff_removed d)) \<or> \<not> nonemptyStrings (elems (diff_limitations d))
      then fail ''invalid replay diff array''
      else case first_error alignment_check (elems (diff_matched d)) of Some e \<Rightarrow> Some e
      | None \<Rightarrow>
        (case first_error change_check (elems (diff_changed d)) of Some e \<Rightarrow> Some e
         | None \<Rightarrow>
           (case diff_divergence d of None \<Rightarrow> None | Some v \<Rightarrow> divergence_check v)))"

definition diff_validate :: "replay_diff \<Rightarrow> check" where
  "diff_validate d =
     (if diff_schema d \<noteq> ContractVersion \<or> diff_id d = [] \<or> diff_baseline d = []
         \<or> diff_comparison d = [] \<or> diff_baseline d = diff_comparison d
         \<or> diff_alignment d \<noteq> ContractVersion \<or> blank (diff_evidence d)
      then fail ''missing or invalid replay diff field''
      else case intervention_validate (diff_intervention d) of Some e \<Rightarrow> Some e | None \<Rightarrow>
     (case oracle_result_validate (diff_baseline_oracle d) of Some e \<Rightarrow> Some e | None \<Rightarrow>
     (case oracle_result_validate (diff_comparison_oracle d) of Some e \<Rightarrow> Some e | None \<Rightarrow>
     (case effects_validate (diff_baseline_effects d) of Some e \<Rightarrow> Some e | None \<Rightarrow>
     (case effects_validate (diff_comparison_effects d) of Some e \<Rightarrow> Some e | None \<Rightarrow>
       if or_effects (diff_baseline_oracle d) \<noteq> diff_baseline_effects d
          \<or> or_effects (diff_comparison_oracle d) \<noteq> diff_comparison_effects d
          \<or> delta_attempts (diff_delta d)
              \<noteq> payment_attempts (diff_comparison_effects d) - payment_attempts (diff_baseline_effects d)
          \<or> delta_commits (diff_delta d)
              \<noteq> ledger_commits (diff_comparison_effects d) - ledger_commits (diff_baseline_effects d)
       then fail ''effect summaries or delta are inconsistent''
       else diff_array_check d)))))"

section \<open>Requests and resets\<close>

definition reset_request_validate :: "string \<Rightarrow> check" where
  "reset_request_validate scenario =
     (if scenario \<noteq> ''checkout_duplicate_effect''
      then fail ''scenario_id must be checkout_duplicate_effect'' else None)"

definition reset_result_validate :: "reset_result \<Rightarrow> check" where
  "reset_result_validate r =
     (if rr_schema r \<noteq> ContractVersion \<or> rr_id r = [] \<or> \<not> oneOf (rr_status r) [ResetCompleted, ResetFailed]
         \<or> rr_incidents r < 0 \<or> rr_runs r < 0 \<or> rr_ledger r < 0 \<or> rr_fixture_version r \<noteq> ''1.0.0''
         \<or> rr_latency r \<noteq> 350 \<or> rr_dedup r \<or> rr_next_op r \<noteq> ''checkout-8271''
      then fail ''missing or invalid reset result field''
      else if (rr_status r = ResetFailed) \<noteq> (rr_error r \<noteq> None)
      then fail ''error is required exactly for failed reset''
      else (case rr_error r of Some e \<Rightarrow> run_error_validate e | None \<Rightarrow> None))"

definition create_run_validate :: "create_run_request \<Rightarrow> check" where
  "create_run_validate r =
     (if crr_type r = RunTypeBaseline
      then (if crr_baseline r \<noteq> [] \<or> crr_intervention r \<noteq> None
            then fail ''baseline must omit baseline_run_id and intervention'' else None)
      else if crr_type r \<noteq> RunTypeWhatIf \<or> crr_baseline r = [] \<or> crr_intervention r = None
      then fail ''what-if requires baseline_run_id and intervention''
      else intervention_validate (the (crr_intervention r)))"

definition create_diff_validate :: "create_diff_request \<Rightarrow> check" where
  "create_diff_validate r =
     (if cdr_baseline r = [] \<or> cdr_comparison r = [] \<or> cdr_baseline r = cdr_comparison r
      then fail ''distinct baseline_run_id and comparison_run_id are required'' else None)"

section \<open>Replay runs\<close>

text \<open>\<open>ReplayRun.Validate\<close>, in the order of the code: identity, kind, intervention, evidence of a run that is
  not completed, timestamps, completed result, error.\<close>

definition run_header_check :: "replay_run \<Rightarrow> check" where
  "run_header_check r =
     (if run_schema r \<noteq> ContractVersion \<or> run_id r = [] \<or> run_execution r = [] \<or> run_capsule r = []
         \<or> \<not> sha256Pattern (run_capsule_hash r) \<or> run_trial r < 1 \<or> \<not> validRunStatus (run_status r)
      then fail ''missing or invalid replay run field'' else None)"

definition run_kind_check :: "replay_run \<Rightarrow> check" where
  "run_kind_check r =
     (if run_kind r = RunTypeBaseline
      then (if run_baseline r \<noteq> [] \<or> run_intervention r \<noteq> None
            then fail ''baseline must omit baseline_run_id and intervention'' else None)
      else if run_kind r = RunTypeWhatIf
      then (if run_baseline r = [] \<or> run_intervention r = None
            then fail ''what-if requires baseline_run_id and intervention'' else None)
      else fail ''invalid run_type'')"

definition run_intervention_check :: "replay_run \<Rightarrow> check" where
  "run_intervention_check r =
     (case run_intervention r of None \<Rightarrow> None | Some i \<Rightarrow> intervention_validate i)"

definition run_evidence_check :: "replay_run \<Rightarrow> check" where
  "run_evidence_check r =
     (if run_status r \<noteq> ReplayRunCompleted
      then (case run_isolation r of None \<Rightarrow> None | Some i \<Rightarrow> isolation_validate i) else None)"

definition terminal_status :: "replay_run_status \<Rightarrow> bool" where
  "terminal_status s \<longleftrightarrow> s = ReplayRunCompleted \<or> s = ReplayRunFailed \<or> s = ReplayRunBlocked"

definition run_times_check :: "replay_run \<Rightarrow> check" where
  "run_times_check r =
     (if run_started_at r \<noteq> [] \<and> \<not> validUTCTime (run_started_at r)
      then fail ''started_at must be RFC3339 UTC''
      else if run_completed_at r \<noteq> [] \<and> \<not> validUTCTime (run_completed_at r)
      then fail ''completed_at must be RFC3339 UTC''
      else if (run_status r = ReplayRunCreated \<or> run_status r = ReplayRunValidating) \<and> run_started_at r \<noteq> []
      then fail ''started_at must be absent before runtime''
      else if run_status r = ReplayRunRunning \<and> run_started_at r = []
      then fail ''started_at is required once runtime begins''
      else if (run_status r = ReplayRunCompleted \<or> run_status r = ReplayRunFailed) \<and> run_started_at r = []
      then fail ''started_at is required for runtime-terminal statuses''
      else if terminal_status (run_status r) \<noteq> (run_completed_at r \<noteq> [])
      then fail ''completed_at is required exactly for terminal statuses'' else None)"

definition run_outcome_oracle_check :: "replay_run \<Rightarrow> bool \<Rightarrow> check" where
  "run_outcome_oracle_check r matched =
     (if run_kind r = RunTypeBaseline
      then (if run_outcome r = ReplayOutcomeReproduced \<and> \<not> matched
            then fail ''REPRODUCED requires a matched oracle''
            else if run_outcome r = ReplayOutcomeNotReproduced \<and> matched
            then fail ''NOT_REPRODUCED requires an unmatched oracle'' else None)
      else if run_kind r = RunTypeWhatIf
      then (if run_outcome r = ReplayOutcomeMitigated \<and> matched
            then fail ''MITIGATED requires an unmatched oracle''
            else if run_outcome r = ReplayOutcomeUnchanged \<and> \<not> matched
            then fail ''UNCHANGED requires a matched oracle'' else None)
      else None)"

definition run_result_check :: "replay_run \<Rightarrow> check" where
  "run_result_check r =
     (if run_status r = ReplayRunCompleted
      then (case (run_effects r, run_oracle r, run_isolation r) of
          (Some eff, Some orc, Some evd) \<Rightarrow>
            (if run_outcome r = NoOutcome \<or> iso_verdict evd \<noteq> VerdictPass \<or> run_error_field r \<noteq> None
             then fail ''completed run lacks required safe result''
             else if run_kind r = RunTypeBaseline
                \<and> \<not> oneOf (run_outcome r) [ReplayOutcomeReproduced, ReplayOutcomeNotReproduced, ReplayOutcomeInconclusive]
             then fail ''outcome is invalid for baseline''
             else if run_kind r = RunTypeWhatIf
                \<and> \<not> oneOf (run_outcome r) [ReplayOutcomeMitigated, ReplayOutcomeUnchanged, ReplayOutcomeInconclusive]
             then fail ''outcome is invalid for what-if''
             else case effects_validate eff of Some e \<Rightarrow> Some e | None \<Rightarrow>
               (case oracle_result_validate orc of Some e \<Rightarrow> Some e | None \<Rightarrow>
               (case isolation_validate evd of Some e \<Rightarrow> Some e | None \<Rightarrow>
                 run_outcome_oracle_check r (or_matched orc))))
        | _ \<Rightarrow> fail ''completed run lacks required safe result'')
      else if run_outcome r \<noteq> NoOutcome then fail ''non-completed run must omit outcome'' else None)"

definition run_error_check :: "replay_run \<Rightarrow> check" where
  "run_error_check r =
     (if (run_status r = ReplayRunFailed \<or> run_status r = ReplayRunBlocked) \<noteq> (run_error_field r \<noteq> None)
      then fail ''error is required exactly for failed and blocked runs''
      else case run_error_field r of None \<Rightarrow> None
      | Some e \<Rightarrow>
         (if run_status r = ReplayRunBlocked
             \<and> (err_code e = IsolationViolation \<or> err_code e = DestinationBlocked) \<and> run_isolation r = None
          then fail ''isolation-related blocked run requires isolation evidence''
          else run_error_validate e))"

definition run_validate :: "replay_run \<Rightarrow> check" where
  "run_validate r =
     (case run_header_check r of Some e \<Rightarrow> Some e | None \<Rightarrow>
     (case run_kind_check r of Some e \<Rightarrow> Some e | None \<Rightarrow>
     (case run_intervention_check r of Some e \<Rightarrow> Some e | None \<Rightarrow>
     (case run_evidence_check r of Some e \<Rightarrow> Some e | None \<Rightarrow>
     (case run_times_check r of Some e \<Rightarrow> Some e | None \<Rightarrow>
     (case run_result_check r of Some e \<Rightarrow> Some e | None \<Rightarrow> run_error_check r))))))"

lemma run_validate_None_iff [contract_simps]:
  "run_validate r = None \<longleftrightarrow>
     run_header_check r = None \<and> run_kind_check r = None \<and> run_intervention_check r = None
     \<and> run_evidence_check r = None \<and> run_times_check r = None \<and> run_result_check r = None
     \<and> run_error_check r = None"
  by (simp add: run_validate_def)

lemmas run_check_defs = run_header_check_def run_kind_check_def run_intervention_check_def
  run_evidence_check_def run_times_check_def run_result_check_def run_error_check_def

lemma run_kind_cases:
  assumes "run_validate r = None"
  obtains "run_kind r = RunTypeBaseline" "run_baseline r = []" "run_intervention r = None"
  | i where "run_kind r = RunTypeWhatIf" "run_baseline r \<noteq> []" "run_intervention r = Some i"
      "intervention_validate i = None"
  using assms
  by (auto simp: run_validate_None_iff run_kind_check_def run_intervention_check_def split: if_splits)

lemma run_result_check_completed:
  assumes "run_result_check r = None" and "run_status r = ReplayRunCompleted"
  obtains eff orc evd where "run_effects r = Some eff" "run_oracle r = Some orc" "run_isolation r = Some evd"
    "run_outcome r \<noteq> NoOutcome" "iso_verdict evd = VerdictPass" "run_error_field r = None"
    "effects_validate eff = None" "oracle_result_validate orc = None" "isolation_validate evd = None"
    "run_outcome_oracle_check r (or_matched orc) = None"
    "run_kind r = RunTypeBaseline \<Longrightarrow>
       run_outcome r \<in> {ReplayOutcomeReproduced, ReplayOutcomeNotReproduced, ReplayOutcomeInconclusive}"
    "run_kind r = RunTypeWhatIf \<Longrightarrow>
       run_outcome r \<in> {ReplayOutcomeMitigated, ReplayOutcomeUnchanged, ReplayOutcomeInconclusive}"
proof (cases "run_effects r"; cases "run_oracle r"; cases "run_isolation r")
  fix eff orc evd
  assume some: "run_effects r = Some eff" "run_oracle r = Some orc" "run_isolation r = Some evd"
  show thesis
    by (rule that [OF some]; use assms some in \<open>simp add: run_result_check_def\<close>)
qed (use assms in \<open>simp_all add: run_result_check_def\<close>)

section \<open>The life cycle of a run\<close>

fun CanTransitionReplayRun :: "replay_run_status \<Rightarrow> replay_run_status \<Rightarrow> bool" where
  "CanTransitionReplayRun ReplayRunCreated to = (to = ReplayRunValidating)"
| "CanTransitionReplayRun ReplayRunValidating to =
     (to = ReplayRunRunning \<or> to = ReplayRunBlocked \<or> to = ReplayRunFailed)"
| "CanTransitionReplayRun ReplayRunRunning to =
     (to = ReplayRunCompleted \<or> to = ReplayRunBlocked \<or> to = ReplayRunFailed)"
| "CanTransitionReplayRun _ to = False"

lemma no_transition_from_terminal [simp]:
  "terminal_status s \<Longrightarrow> \<not> CanTransitionReplayRun s t"
  by (auto simp: terminal_status_def)

text \<open>How far a run has come. A legal transition moves strictly forward.\<close>

fun status_rank :: "replay_run_status \<Rightarrow> nat" where
  "status_rank ReplayRunCreated = 0"
| "status_rank ReplayRunValidating = 1"
| "status_rank ReplayRunRunning = 2"
| "status_rank _ = 3"

lemma transition_rank: "CanTransitionReplayRun s t \<Longrightarrow> status_rank s < status_rank t"
  by (cases s) auto

lemma transition_target:
  "CanTransitionReplayRun s t \<Longrightarrow> t = ReplayRunValidating \<or> t = ReplayRunRunning \<or> terminal_status t"
  by (cases s) (auto simp: terminal_status_def)

end
