(* ===== verification/Cycle.thy ===== *)
theory Cycle
  imports Validation
begin

text \<open>
  The depth-first cycle search that contracts.go (\<open>ExecutionGraph.Validate\<close>) and graph.go
  (\<open>hasHardCycle\<close>) share: a recursive closure \<open>visit\<close> over a map from node ids to 0 (not seen),
  1 (on the stack) or 2 (finished). It is proved to terminate on every graph and to answer whether
  a cycle can be reached, whatever the order in which the roots are visited.
\<close>

section \<open>The search\<close>

datatype mark = Unseen | OnStack | Finished

type_synonym marks = "string \<Rightarrow> mark"

text \<open>\<open>adj[from] = append(adj[from], to)\<close> for every edge, in order.\<close>

definition adjacency :: "(string \<times> string) list \<Rightarrow> string \<Rightarrow> string list" where
  "adjacency es n = map snd (filter (\<lambda>p. fst p = n) es)"

lemma set_adjacency [simp]: "set (adjacency es n) = {m. (n, m) \<in> set es}"
  by (force simp: adjacency_def)

function visit :: "(string \<times> string) list \<Rightarrow> string \<Rightarrow> marks \<Rightarrow> bool \<times> marks"
  and visit_each :: "(string \<times> string) list \<Rightarrow> string list \<Rightarrow> marks \<Rightarrow> bool \<times> marks" where
  "visit es n st =
     (if st n = OnStack then (True, st)
      else if st n = Finished then (False, st)
      else case visit_each es (adjacency es n) (st(n := OnStack)) of
          (True, st') \<Rightarrow> (True, st')
        | (False, st') \<Rightarrow> (False, st'(n := Finished)))"
| "visit_each es [] st = (False, st)"
| "visit_each es (n # ns) st =
     (case visit es n st of
        (True, st') \<Rightarrow> (True, st')
      | (False, st') \<Rightarrow> visit_each es ns st')"
  by pat_completeness auto

text \<open>The nodes with an outgoing edge that the search has not seen.\<close>

definition unseen :: "(string \<times> string) list \<Rightarrow> marks \<Rightarrow> string set" where
  "unseen es st = {n \<in> fst ` set es. st n = Unseen}"

lemma finite_unseen [simp]: "finite (unseen es st)"
  by (simp add: unseen_def)

lemma visit_partial:
  "visit_visit_each_dom (Inl (es, n, st)) \<Longrightarrow>
     unseen es (snd (visit es n st)) \<subseteq> unseen es st"
  "visit_visit_each_dom (Inr (es, ns, st)) \<Longrightarrow>
     unseen es (snd (visit_each es ns st)) \<subseteq> unseen es st"
proof (induction es n st and es ns st rule: visit_visit_each.pinduct)
  case (1 es n st)
  show ?case
  proof (cases "st n = Unseen")
    case True
    then have "st n \<noteq> OnStack" and "st n \<noteq> Finished" by simp_all
    from "1.IH" [OF this]
    have "unseen es (snd (visit_each es (adjacency es n) (st(n := OnStack)))) \<subseteq> unseen es (st(n := OnStack))" .
    also have "\<dots> \<subseteq> unseen es st" by (auto simp: unseen_def)
    finally have *: "unseen es (snd (visit_each es (adjacency es n) (st(n := OnStack)))) \<subseteq> unseen es st" .
    show ?thesis
    proof (cases "visit_each es (adjacency es n) (st(n := OnStack))")
      case (Pair b st2)
      have "unseen es (st2(n := Finished)) \<subseteq> unseen es st2" by (auto simp: unseen_def)
      with * Pair True show ?thesis
        by (cases b) (auto simp: visit.psimps [OF "1.hyps"] simp del: fun_upd_apply)
    qed
  next
    case False
    then have "st n = OnStack \<or> st n = Finished" by (cases "st n") simp_all
    then show ?thesis by (auto simp: visit.psimps [OF "1.hyps"])
  qed
next
  case (2 es st)
  then show ?case by (simp add: visit_each.psimps)
next
  case (3 es n ns st)
  show ?case
  proof (cases "visit es n st")
    case (Pair b st1)
    show ?thesis
    proof (cases b)
      case True
      with Pair "3.IH"(1) show ?thesis by (simp add: visit_each.psimps(2) [OF "3.hyps"])
    next
      case False
      with Pair "3.IH"(2) [of b st1] have "unseen es (snd (visit_each es ns st1)) \<subseteq> unseen es st1"
        by simp
      also have "\<dots> \<subseteq> unseen es st" using "3.IH"(1) Pair by simp
      finally show ?thesis using Pair False by (simp add: visit_each.psimps(2) [OF "3.hyps"])
    qed
  qed
qed

termination visit
proof (relation "measures
    [\<lambda>x. case x of Inl (es, n, st) \<Rightarrow> card (unseen es st) | Inr (es, ns, st) \<Rightarrow> card (unseen es st),
     \<lambda>x. case x of Inl (es, n, st) \<Rightarrow> 1 | Inr (es, ns, st) \<Rightarrow> 2 * length ns]", goal_cases)
  case 1
  show ?case by simp
next
  case (2 es n st)
  show ?case
  proof (cases "n \<in> fst ` set es")
    case True
    with 2 have "unseen es (st(n := OnStack)) \<subset> unseen es st"
      by (cases "st n") (auto simp: unseen_def)
    then show ?thesis by (simp add: psubset_card_mono)
  next
    case False
    then have "adjacency es n = []" by (force simp: adjacency_def filter_empty_conv)
    moreover have "card (unseen es (st(n := OnStack))) \<le> card (unseen es st)"
      by (rule card_mono) (auto simp: unseen_def)
    ultimately show ?thesis by auto
  qed
next
  case (3 es n ns st)
  then show ?case by simp
next
  case (4 es n ns st x y)
  then have "unseen es y \<subseteq> unseen es st" using visit_partial(1) [of es n st] by (metis snd_conv)
  then have "card (unseen es y) \<le> card (unseen es st)" by (simp add: card_mono)
  then show ?case by auto
qed

declare visit.simps [simp del]

section \<open>No cycle found\<close>

text \<open>When the answer is no, the stack is as before and every visited root is finished.\<close>

lemma visit_False_marks:
  "visit es n st = (False, st') \<Longrightarrow>
     st' n = Finished \<and> (\<forall>x. st' x = OnStack \<longleftrightarrow> st x = OnStack)
     \<and> (\<forall>x. st x = Finished \<longrightarrow> st' x = Finished)"
  "visit_each es ns st = (False, st') \<Longrightarrow>
     (\<forall>n\<in>set ns. st' n = Finished) \<and> (\<forall>x. st' x = OnStack \<longleftrightarrow> st x = OnStack)
     \<and> (\<forall>x. st x = Finished \<longrightarrow> st' x = Finished)"
proof (induction es n st and es ns st arbitrary: st' and st' rule: visit_visit_each.induct)
  case (1 es n st)
  show ?case
  proof (cases "st n")
    case Unseen
    with "1.prems" obtain st2 where
        st2: "visit_each es (adjacency es n) (st(n := OnStack)) = (False, st2)" and
        st': "st' = st2(n := Finished)"
      by (auto simp: visit.simps [of es n] split: prod.splits bool.splits)
    from "1.IH" [OF _ _ st2] Unseen
    have stack: "\<And>x. st2 x = OnStack \<longleftrightarrow> (st(n := OnStack)) x = OnStack"
      and fin: "\<And>x. (st(n := OnStack)) x = Finished \<longrightarrow> st2 x = Finished" by auto
    show ?thesis
    proof (intro conjI allI impI)
      show "st' n = Finished" by (simp add: st')
    next
      fix x
      show "st' x = OnStack \<longleftrightarrow> st x = OnStack"
        using stack [of x] Unseen by (cases "x = n") (simp_all add: st')
    next
      fix x
      assume "st x = Finished"
      then show "st' x = Finished"
        using fin [of x] by (cases "x = n") (simp_all add: st')
    qed
  next
    case OnStack
    with "1.prems" show ?thesis by (simp add: visit.simps)
  next
    case Finished
    with "1.prems" show ?thesis by (simp add: visit.simps)
  qed
next
  case (2 es st)
  then show ?case by simp
next
  case (3 es n ns st)
  then obtain st1 where st1: "visit es n st = (False, st1)" and st': "visit_each es ns st1 = (False, st')"
    by (auto split: prod.splits bool.splits)
  from "3.IH"(1) [OF st1] "3.IH"(2) [OF st1 [symmetric] refl st'] show ?case by auto
qed

text \<open>Finished nodes have finished successors and lie on no cycle.\<close>

definition finished_closed :: "(string \<times> string) list \<Rightarrow> marks \<Rightarrow> bool" where
  "finished_closed es st \<longleftrightarrow>
     (\<forall>x. st x = Finished \<longrightarrow> (\<forall>y. (x, y) \<in> set es \<longrightarrow> st y = Finished) \<and> (x, x) \<notin> (set es)\<^sup>+)"

lemma finished_closed_reach:
  assumes "finished_closed es st" and "(x, y) \<in> (set es)\<^sup>*" and "st x = Finished"
  shows "st y = Finished"
  using assms(2,3) by induction (use assms(1) in \<open>auto simp: finished_closed_def\<close>)

lemma visit_False_closed:
  "visit es n st = (False, st') \<Longrightarrow> finished_closed es st \<Longrightarrow> finished_closed es st'"
  "visit_each es ns st = (False, st') \<Longrightarrow> finished_closed es st \<Longrightarrow> finished_closed es st'"
proof (induction es n st and es ns st arbitrary: st' and st' rule: visit_visit_each.induct)
  case (1 es n st)
  show ?case
  proof (cases "st n")
    case Unseen
    with "1.prems" obtain st2 where
        st2: "visit_each es (adjacency es n) (st(n := OnStack)) = (False, st2)" and
        st': "st' = st2(n := Finished)"
      by (auto simp: visit.simps [of es n] split: prod.splits bool.splits)
    have "finished_closed es (st(n := OnStack))"
      using "1.prems"(2) Unseen by (auto simp: finished_closed_def)
    from "1.IH" [OF _ _ st2 this] Unseen have closed: "finished_closed es st2"
      by (metis mark.distinct(1,3))
    have marks: "\<forall>m\<in>set (adjacency es n). st2 m = Finished" "st2 n = OnStack"
      using visit_False_marks(2) [OF st2] by auto
    have "(n, n) \<notin> (set es)\<^sup>+"
    proof
      assume "(n, n) \<in> (set es)\<^sup>+"
      then obtain m where "(n, m) \<in> set es" and "(m, n) \<in> (set es)\<^sup>*" by (meson tranclD)
      with marks(1) finished_closed_reach [OF closed] have "st2 n = Finished" by auto
      with marks(2) show False by simp
    qed
    with closed marks show ?thesis by (auto simp: st' finished_closed_def)
  qed (use "1.prems" in \<open>simp_all add: visit.simps\<close>)
next
  case (2 es st)
  then show ?case by simp
next
  case (3 es n ns st)
  then obtain st1 where st1: "visit es n st = (False, st1)" and st': "visit_each es ns st1 = (False, st')"
    by (auto split: prod.splits bool.splits)
  from "3.IH"(2) [OF st1 [symmetric] refl st'] "3.IH"(1) [OF st1 "3.prems"(2)] show ?case .
qed

section \<open>Cycle found\<close>

text \<open>When the answer is yes and every node on the stack leads to the root, a cycle is reachable.\<close>

lemma visit_True_cycle:
  "visit es n st = (True, st') \<Longrightarrow> \<forall>g. st g = OnStack \<longrightarrow> (g, n) \<in> (set es)\<^sup>+ \<Longrightarrow>
     \<exists>c. (n, c) \<in> (set es)\<^sup>* \<and> (c, c) \<in> (set es)\<^sup>+"
  "visit_each es ns st = (True, st') \<Longrightarrow> \<forall>g. st g = OnStack \<longrightarrow> (\<forall>n\<in>set ns. (g, n) \<in> (set es)\<^sup>+) \<Longrightarrow>
     \<exists>n\<in>set ns. \<exists>c. (n, c) \<in> (set es)\<^sup>* \<and> (c, c) \<in> (set es)\<^sup>+"
proof (induction es n st and es ns st arbitrary: st' and st' rule: visit_visit_each.induct)
  case (1 es n st)
  show ?case
  proof (cases "st n")
    case Unseen
    with "1.prems" obtain st2 where
        st2: "visit_each es (adjacency es n) (st(n := OnStack)) = (True, st2)"
      by (auto simp: visit.simps [of es n] split: prod.splits bool.splits)
    have "\<forall>g. (st(n := OnStack)) g = OnStack \<longrightarrow> (\<forall>m\<in>set (adjacency es n). (g, m) \<in> (set es)\<^sup>+)"
      using "1.prems"(2) by (auto intro: trancl_into_trancl)
    with "1.IH" [OF _ _ st2] Unseen obtain m c where
      "(n, m) \<in> set es" "(m, c) \<in> (set es)\<^sup>*" "(c, c) \<in> (set es)\<^sup>+" by auto
    then show ?thesis by (meson converse_rtrancl_into_rtrancl)
  qed (use "1.prems" in \<open>auto simp: visit.simps\<close>)
next
  case (2 es st)
  then show ?case by simp
next
  case (3 es n ns st)
  show ?case
  proof (cases "visit es n st")
    case (Pair b st1)
    show ?thesis
    proof (cases b)
      case True
      with Pair "3.IH"(1) [of st1] "3.prems"(2) show ?thesis by auto
    next
      case False
      with Pair "3.prems"(1) have rec: "visit_each es ns st1 = (True, st')" by simp
      have "\<forall>x. st1 x = OnStack \<longleftrightarrow> st x = OnStack"
        using visit_False_marks(1) [of es n st st1] Pair False by simp
      with "3.IH"(2) [OF Pair [symmetric] _ rec] False "3.prems"(2) show ?thesis by auto
    qed
  qed
qed

section \<open>The whole search\<close>

text \<open>\<open>for n := range nodes \{ if visit(n) \{ ... \} \}\<close> from an empty map of marks.\<close>

definition search_cycle :: "(string \<times> string) list \<Rightarrow> string list \<Rightarrow> bool" where
  "search_cycle es roots = fst (visit_each es roots (\<lambda>_. Unseen))"

lemma search_cycle_iff:
  "search_cycle es roots \<longleftrightarrow> (\<exists>n\<in>set roots. \<exists>c. (n, c) \<in> (set es)\<^sup>* \<and> (c, c) \<in> (set es)\<^sup>+)"
proof (cases "visit_each es roots (\<lambda>_. Unseen)")
  case (Pair b st)
  show ?thesis
  proof (cases b)
    case True
    with Pair visit_True_cycle(2) [of es roots "\<lambda>_. Unseen" st] show ?thesis
      by (simp add: search_cycle_def)
  next
    case False
    with Pair have each: "visit_each es roots (\<lambda>_. Unseen) = (False, st)" by simp
    have closed: "finished_closed es st"
      by (rule visit_False_closed(2) [OF each]) (simp add: finished_closed_def)
    have "\<forall>n\<in>set roots. st n = Finished" using visit_False_marks(2) [OF each] by simp
    with closed finished_closed_reach [OF closed]
    have "\<not> (\<exists>n\<in>set roots. \<exists>c. (n, c) \<in> (set es)\<^sup>* \<and> (c, c) \<in> (set es)\<^sup>+)"
      by (metis finished_closed_def)
    with each show ?thesis by (simp add: search_cycle_def)
  qed
qed

lemma search_cycle_order: "set roots = set roots' \<Longrightarrow> search_cycle es roots = search_cycle es roots'"
  by (simp add: search_cycle_iff)

lemma search_cycle_acyclic:
  assumes "fst ` set es \<subseteq> set roots"
  shows "search_cycle es roots \<longleftrightarrow> \<not> acyclic (set es)"
proof -
  have "\<exists>n\<in>set roots. (n, c) \<in> (set es)\<^sup>*" if "(c, c) \<in> (set es)\<^sup>+" for c
    using that assms by (metis image_eqI fst_conv rtrancl.rtrancl_refl subsetD tranclD)
  then show ?thesis by (auto simp: search_cycle_iff acyclic_def)
qed

end
