(* ===== verification/Graph.thy ===== *)
theory Graph
  imports Cycle
begin

text \<open>
  Execution graphs: \<open>ExecutionGraph.Validate\<close> (internal/contracts/contracts.go) and
  internal/graph/graph.go (\<open>Order\<close>, \<open>BuildNodes\<close>, \<open>hasHardCycle\<close>). A graph is valid exactly when
  its ids are distinct and its hard edges (all but the temporal ones) are acyclic; \<open>Order\<close> is
  characterised by an equivalence; \<open>BuildNodes\<close> is Kahn's algorithm with the 5 ms tie-break window,
  proved to succeed on every acyclic input and to give a topological numbering.
\<close>

section \<open>Validation of a graph\<close>

definition hard_edges :: "graph_edge list \<Rightarrow> graph_edge list" where
  "hard_edges es = filter (\<lambda>e. edge_type e \<noteq> GraphEdgeTemporal) es"

definition edge_pair :: "graph_edge \<Rightarrow> string \<times> string" where
  "edge_pair e = (edge_from e, edge_to e)"

definition hard_pairs :: "graph_edge list \<Rightarrow> (string \<times> string) list" where
  "hard_pairs es = map edge_pair (hard_edges es)"

text \<open>The loop over the nodes, with the sets of ids and indices seen so far.\<close>

fun nodes_check :: "graph_node list \<Rightarrow> string set \<Rightarrow> int set \<Rightarrow> bool" where
  "nodes_check [] ids ixs = True"
| "nodes_check (n # ns) ids ixs =
     (if node_event n = [] \<or> node_index n < 0 \<or> node_event n \<in> ids \<or> node_index n \<in> ixs then False
      else nodes_check ns (insert (node_event n) ids) (insert (node_index n) ixs))"

fun edges_check :: "string list \<Rightarrow> graph_edge list \<Rightarrow> string set \<Rightarrow> bool" where
  "edges_check nodes [] seen = True"
| "edges_check nodes (e # es) seen =
     (if edge_id e = [] \<or> edge_id e \<in> seen \<or> edge_from e \<notin> set nodes \<or> edge_to e \<notin> set nodes
         \<or> edge_from e = edge_to e \<or> \<not> validGraphEdgeType (edge_type e) then False
      else edges_check nodes es (insert (edge_id e) seen))"

definition node_ids :: "graph_node list \<Rightarrow> string list" where
  "node_ids ns = map node_event ns"

definition graph_validate :: "execution_graph \<Rightarrow> check" where
  "graph_validate g =
     (if graph_schema g \<noteq> ContractVersion \<or> graph_id g = [] \<or> graph_incident g = []
         \<or> graph_policy g \<noteq> ContractVersion then fail ''missing or invalid graph field''
      else if \<not> nodes_check (graph_nodes g) {} {} then fail ''invalid or duplicate graph node''
      else if \<not> edges_check (node_ids (graph_nodes g)) (graph_edges g) {}
        then fail ''invalid graph edge''
      else if search_cycle (hard_pairs (graph_edges g)) (node_ids (graph_nodes g))
        then fail ''hard ordering constraints contain a cycle''
      else None)"

lemma nodes_check_iff:
  "nodes_check ns ids ixs \<longleftrightarrow>
     distinct (map node_event ns) \<and> distinct (map node_index ns)
     \<and> (\<forall>n\<in>set ns. node_event n \<noteq> [] \<and> 0 \<le> node_index n
          \<and> node_event n \<notin> ids \<and> node_index n \<notin> ixs)"
  by (induction ns arbitrary: ids ixs) (force simp: image_iff not_less)+

definition edge_ok :: "string list \<Rightarrow> graph_edge \<Rightarrow> bool" where
  "edge_ok nodes e \<longleftrightarrow> edge_id e \<noteq> [] \<and> edge_from e \<in> set nodes \<and> edge_to e \<in> set nodes
     \<and> edge_from e \<noteq> edge_to e \<and> validGraphEdgeType (edge_type e)"

lemma edges_check_iff:
  "edges_check nodes es seen \<longleftrightarrow>
     distinct (map edge_id es) \<and> (\<forall>e\<in>set es. edge_ok nodes e \<and> edge_id e \<notin> seen)"
  by (induction es arbitrary: seen) (force simp: edge_ok_def image_iff)+

definition nodes_ok :: "graph_node list \<Rightarrow> bool" where
  "nodes_ok ns \<longleftrightarrow> distinct (node_ids ns) \<and> distinct (map node_index ns)
     \<and> (\<forall>n\<in>set ns. node_event n \<noteq> [] \<and> 0 \<le> node_index n)"

definition edges_ok :: "string list \<Rightarrow> graph_edge list \<Rightarrow> bool" where
  "edges_ok nodes es \<longleftrightarrow> distinct (map edge_id es) \<and> (\<forall>e\<in>set es. edge_ok nodes e)"

lemma hard_pairs_nodes:
  assumes "edges_ok nodes es" and "(u, v) \<in> set (hard_pairs es)"
  shows "u \<in> set nodes" and "v \<in> set nodes" and "u \<noteq> v"
  using assms by (auto simp: edges_ok_def edge_ok_def hard_pairs_def hard_edges_def edge_pair_def)

lemma search_hard:
  assumes "edges_ok nodes es"
  shows "search_cycle (hard_pairs es) nodes \<longleftrightarrow> \<not> acyclic (set (hard_pairs es))"
  using hard_pairs_nodes [OF assms] by (intro search_cycle_acyclic) auto

lemma graph_validate_None_iff [contract_simps]:
  "graph_validate g = None \<longleftrightarrow>
     graph_schema g = ContractVersion \<and> graph_id g \<noteq> [] \<and> graph_incident g \<noteq> []
     \<and> graph_policy g = ContractVersion \<and> nodes_ok (graph_nodes g)
     \<and> edges_ok (node_ids (graph_nodes g)) (graph_edges g)
     \<and> acyclic (set (hard_pairs (graph_edges g)))"
proof -
  have "nodes_check (graph_nodes g) {} {} \<longleftrightarrow> nodes_ok (graph_nodes g)"
    by (auto simp: nodes_check_iff nodes_ok_def node_ids_def)
  moreover have "edges_check (node_ids (graph_nodes g)) (graph_edges g) {} \<longleftrightarrow>
      edges_ok (node_ids (graph_nodes g)) (graph_edges g)"
    by (simp add: edges_check_iff edges_ok_def)
  ultimately show ?thesis
    using search_hard [of "node_ids (graph_nodes g)" "graph_edges g"]
    by (auto simp: graph_validate_def)
qed

section \<open>hasHardCycle\<close>

definition proper_pairs :: "graph_edge list \<Rightarrow> (string \<times> string) list" where
  "proper_pairs es = map edge_pair
     (filter (\<lambda>e. edge_type e \<noteq> GraphEdgeTemporal \<and> edge_from e \<noteq> edge_to e) es)"

definition hasHardCycle :: "graph_node list \<Rightarrow> graph_edge list \<Rightarrow> bool" where
  "hasHardCycle ns es = search_cycle (proper_pairs es) (node_ids ns)"

lemma proper_pairs_hard: "edges_ok nodes es \<Longrightarrow> proper_pairs es = hard_pairs es"
  by (auto simp: proper_pairs_def hard_pairs_def hard_edges_def edges_ok_def edge_ok_def
      intro!: arg_cong [where f = "map edge_pair"] filter_cong)

section \<open>Order\<close>

datatype graph_error =
    ErrGraphCycle
  | InvalidGraph contract_error
  | InvalidEvent string contract_error
  | DuplicateEvent string
  | NodeCount nat nat
  | NodeWithoutEvent string
  | IndexGap
  | HardEdgeOrder string

text \<open>\<open>byID\<close>: the events by id, in the order of insertion.\<close>

fun index_events :: "execution_event list \<Rightarrow> (string \<times> execution_event) list
    \<Rightarrow> graph_error + (string \<times> execution_event) list" where
  "index_events [] byID = Inr byID"
| "index_events (e # es) byID =
     (case event_validate e of Some err \<Rightarrow> Inl (InvalidEvent (ev_id e) err)
      | None \<Rightarrow>
        if map_of byID (ev_id e) \<noteq> None then Inl (DuplicateEvent (ev_id e))
        else index_events es (byID @ [(ev_id e, e)]))"

definition zero_event :: execution_event where
  "zero_event = \<lparr>ev_schema = [], ev_id = [], ev_execution = [], ev_trace = [], ev_parent = [],
     ev_run = [], ev_component = \<lparr>comp_name = [], comp_instance = []\<rparr>,
     ev_operation = \<lparr>op_name = [], op_kind = UnknownOperation []\<rparr>,
     ev_type = UnknownEventType [], ev_attempt = 0, ev_logical_op = [], ev_occurred_at = [],
     ev_sequence = 0, ev_duration = None, ev_status = UnknownEventStatus [], ev_attributes = None\<rparr>"

text \<open>The loop that fills \<open>indices\<close> and \<open>ordered\<close>.\<close>

fun place_nodes :: "(string \<times> execution_event) list \<Rightarrow> graph_node list \<Rightarrow> (string \<rightharpoonup> int)
    \<Rightarrow> execution_event list \<Rightarrow> graph_error + (string \<rightharpoonup> int) \<times> execution_event list" where
  "place_nodes byID [] indices ordered = Inr (indices, ordered)"
| "place_nodes byID (n # ns) indices ordered =
     (case map_of byID (node_event n) of
        None \<Rightarrow> Inl (NodeWithoutEvent (node_event n))
      | Some e \<Rightarrow>
        if int (length ordered) \<le> node_index n then Inl IndexGap
        else place_nodes byID ns (indices(node_event n \<mapsto> node_index n))
               (ordered[nat (node_index n) := e]))"

definition index_of :: "(string \<rightharpoonup> int) \<Rightarrow> string \<Rightarrow> int" where
  "index_of indices i = (case indices i of None \<Rightarrow> 0 | Some n \<Rightarrow> n)"

definition contradicting :: "(string \<rightharpoonup> int) \<Rightarrow> graph_edge \<Rightarrow> bool" where
  "contradicting indices e \<longleftrightarrow> edge_type e \<noteq> GraphEdgeTemporal
     \<and> index_of indices (edge_to e) \<le> index_of indices (edge_from e)"

definition Order :: "execution_event list \<Rightarrow> execution_graph \<Rightarrow> graph_error + execution_event list" where
  "Order events g =
     (case graph_validate g of
        Some err \<Rightarrow>
          if hasHardCycle (graph_nodes g) (graph_edges g) then Inl ErrGraphCycle
          else Inl (InvalidGraph err)
      | None \<Rightarrow>
        bind_result (index_events events []) (\<lambda>byID.
          if length byID \<noteq> length (graph_nodes g)
          then Inl (NodeCount (length (graph_nodes g)) (length byID))
          else bind_result
            (place_nodes byID (graph_nodes g) (\<lambda>_. None)
               (replicate (length (graph_nodes g)) zero_event)) (\<lambda>(indices, ordered).
            case find (contradicting indices) (graph_edges g) of
              Some e \<Rightarrow> Inl (HardEdgeOrder (edge_id e))
            | None \<Rightarrow> Inr (sort_by
                (\<lambda>a b. index_of indices (ev_id a) < index_of indices (ev_id b)) ordered))))"


subsection \<open>What Order returns\<close>

text \<open>The index the graph gives to an event id.\<close>

definition position_of :: "graph_node list \<Rightarrow> string \<rightharpoonup> int" where
  "position_of ns = map_of (map (\<lambda>n. (node_event n, node_index n)) ns)"

text \<open>The events in the order of their indices, which are \<open>0\<close>, \<open>1\<close>, \<open>2\<close>, ...\<close>

definition arranged :: "execution_event list \<Rightarrow> graph_node list \<Rightarrow> execution_event list \<Rightarrow> bool" where
  "arranged events ns out \<longleftrightarrow> mset out = mset events
     \<and> (\<forall>i<length out. position_of ns (ev_id (out ! i)) = Some (int i))"

lemma index_events_Inr_iff [result_simps]:
  "index_events es acc = Inr byID \<longleftrightarrow>
     (\<forall>e\<in>set es. event_validate e = None) \<and> distinct (map ev_id es)
     \<and> (\<forall>e\<in>set es. ev_id e \<notin> fst ` set acc) \<and> byID = acc @ map (\<lambda>e. (ev_id e, e)) es"
proof (induction es arbitrary: acc)
  case (Cons e es)
  have "map_of acc (ev_id e) = None \<longleftrightarrow> ev_id e \<notin> fst ` set acc" by (simp add: map_of_eq_None_iff)
  then show ?case by (cases "event_validate e") (force simp: Cons.IH image_iff)+
qed auto

lemma map_of_events:
  assumes "distinct (map ev_id es)"
  shows "map_of (map (\<lambda>e. (ev_id e, e)) es) i = Some e \<longleftrightarrow> e \<in> set es \<and> ev_id e = i"
proof -
  have "distinct (map fst (map (\<lambda>e. (ev_id e, e)) es))" using assms by (simp add: comp_def)
  from map_of_eq_Some_iff [OF this] show ?thesis by auto
qed

lemma place_nodes_Inr_iff [result_simps]:
  "place_nodes byID ns indices ordered = Inr r \<longleftrightarrow>
     (\<forall>n\<in>set ns. map_of byID (node_event n) \<noteq> None \<and> node_index n < int (length ordered))
     \<and> r = (fold (\<lambda>n m. m(node_event n \<mapsto> node_index n)) ns indices,
            fold (\<lambda>n xs. xs[nat (node_index n) := the (map_of byID (node_event n))]) ns ordered)"
  by (induction byID ns indices ordered rule: place_nodes.induct)
    (auto split: option.split simp del: fun_upd_apply)

lemma fold_indices:
  "distinct (node_ids ns) \<Longrightarrow>
     fold (\<lambda>n m. m(node_event n \<mapsto> node_index n)) ns m = m ++ position_of ns"
proof (induction ns arbitrary: m)
  case Nil
  show ?case by (simp add: position_of_def)
next
  case (Cons n ns)
  then have "position_of ns (node_event n) = None"
    by (force simp: position_of_def map_of_eq_None_iff node_ids_def)
  then have "m(node_event n \<mapsto> node_index n) ++ position_of ns = m ++ position_of (n # ns)"
    by (auto simp: position_of_def map_add_def fun_eq_iff split: option.split)
  with Cons show ?case by (simp add: node_ids_def del: fun_upd_apply)
qed

lemma fold_ordered:
  defines "step \<equiv> \<lambda>(f :: graph_node \<Rightarrow> 'a) n xs. xs[nat (node_index n) := f n]"
  shows fold_ordered_length: "length (fold (step f) ns xs) = length xs"
    and fold_ordered_other:
      "\<forall>n\<in>set ns. nat (node_index n) \<noteq> i \<Longrightarrow> fold (step f) ns xs ! i = xs ! i"
    and fold_ordered_nth:
      "\<lbrakk>distinct (map node_index ns); \<forall>n\<in>set ns. 0 \<le> node_index n \<and> node_index n < int (length xs);
        n \<in> set ns\<rbrakk> \<Longrightarrow> fold (step f) ns xs ! nat (node_index n) = f n"
proof -
  show len: "length (fold (step f) ns xs) = length xs" for ns and xs :: "'a list"
    by (induction ns arbitrary: xs) (simp_all add: step_def)
  show other: "fold (step f) ns xs ! i = xs ! i" if "\<forall>n\<in>set ns. nat (node_index n) \<noteq> i"
    for ns i and xs :: "'a list"
    using that by (induction ns arbitrary: xs) (simp_all add: step_def)
  show "fold (step f) ns xs ! nat (node_index n) = f n"
    if "distinct (map node_index ns)" "\<forall>n\<in>set ns. 0 \<le> node_index n \<and> node_index n < int (length xs)"
      "n \<in> set ns"
    using that
  proof (induction ns arbitrary: xs)
    case (Cons m ns)
    show ?case
    proof (cases "n \<in> set ns")
      case True
      with Cons show ?thesis by (simp add: step_def)
    next
      case False
      with Cons.prems(3) have [simp]: "n = m" by simp
      have "\<forall>k\<in>set ns. nat (node_index k) \<noteq> nat (node_index m)"
        using Cons.prems(1,2) by (metis distinct.simps(2) image_eqI list.set_map list.simps(9)
            nat_eq_iff2 list.set_intros)
      from other [OF this] Cons.prems show ?thesis by (simp add: step_def nat_less_iff)
    qed
  qed simp
qed
lemma position_of_node:
  "\<lbrakk>distinct (node_ids ns); n \<in> set ns\<rbrakk> \<Longrightarrow> position_of ns (node_event n) = Some (node_index n)"
  by (simp add: position_of_def map_of_eq_Some_iff node_ids_def comp_def image_iff) blast

lemma position_of_Some:
  "position_of ns i = Some k \<Longrightarrow> \<exists>n\<in>set ns. node_event n = i \<and> node_index n = k"
  unfolding position_of_def by (drule map_of_SomeD) force

lemma position_of_None [simp]: "position_of ns i = None \<longleftrightarrow> i \<notin> set (node_ids ns)"
  by (auto simp: position_of_def map_of_eq_None_iff node_ids_def image_iff)

lemma arranged_unique:
  assumes "arranged events ns xs" and "arranged events ns ys"
  shows "xs = ys"
proof (rule nth_equalityI)
  have mset: "mset xs = mset ys" using assms by (simp add: arranged_def)
  then show len: "length xs = length ys" by (rule mset_eq_length)
  fix i assume i: "i < length xs"
  then have "xs ! i \<in> set ys" using mset mset_eq_setD nth_mem by metis
  then obtain j where j: "j < length ys" "ys ! j = xs ! i" by (auto simp: in_set_conv_nth)
  have "int j = int i"
    using assms i j by (metis arranged_def option.inject)
  with j show "xs ! i = ys ! i" by simp
qed

text \<open>The indices of a graph of \<open>n\<close> nodes that are all below \<open>n\<close> are exactly \<open>0\<close> to \<open>n - 1\<close>.\<close>

lemma indices_onto:
  assumes "distinct (map node_index ns)" and "\<forall>n\<in>set ns. 0 \<le> node_index n \<and> node_index n < int (length ns)"
    and "i < length ns"
  obtains n where "n \<in> set ns" and "node_index n = int i"
proof -
  have "set (map node_index ns) \<subseteq> {0..<int (length ns)}" using assms(2) by auto
  moreover have "card (set (map node_index ns)) = card {0..<int (length ns)}"
    using distinct_card [OF assms(1)] by simp
  ultimately have "set (map node_index ns) = {0..<int (length ns)}" by (simp add: card_subset_eq)
  with assms(3) have "int i \<in> set (map node_index ns)" by simp
  with that show ?thesis by auto
qed

lemma place_nodes_arranged:
  assumes ids: "distinct (map ev_id events)" and nodes: "nodes_ok ns"
    and count: "length events = length ns"
    and placed: "place_nodes (map (\<lambda>e. (ev_id e, e)) events) ns (\<lambda>_. None)
                   (replicate (length ns) zero_event) = Inr (indices, ordered)"
  shows "indices = position_of ns" and "arranged events ns ordered"
    and "set (map ev_id events) = set (node_ids ns)"
proof -
  let ?at = "\<lambda>n. the (map_of (map (\<lambda>e. (ev_id e, e)) events) (node_event n))"
  from placed have all: "\<And>n. n \<in> set ns \<Longrightarrow> \<exists>e\<in>set events. ev_id e = node_event n"
      and bound: "\<forall>n\<in>set ns. node_index n < int (length ns)"
      and indices: "indices = fold (\<lambda>n m. m(node_event n \<mapsto> node_index n)) ns (\<lambda>_. None)"
      and ordered: "ordered = fold (\<lambda>n xs. xs[nat (node_index n) := ?at n]) ns
                      (replicate (length ns) zero_event)"
    using map_of_events [OF ids] by (auto simp: place_nodes_Inr_iff simp del: fun_upd_apply)
  show pos: "indices = position_of ns"
  proof -
    have "distinct (node_ids ns)" using nodes by (simp only: nodes_ok_def)
    then show ?thesis by (rule trans [OF indices trans [OF fold_indices empty_map_add]])
  qed
  have at: "?at n \<in> set events \<and> ev_id (?at n) = node_event n" if "n \<in> set ns" for n
  proof -
    from all [OF that] obtain e where "e \<in> set events" "ev_id e = node_event n" by blast
    then show ?thesis using map_of_events [OF ids, of "node_event n" e] by simp
  qed
  have sub: "set (node_ids ns) \<subseteq> set (map ev_id events)"
    using all by (force simp: node_ids_def)
  have "card (set (node_ids ns)) = card (set (map ev_id events))"
    using ids nodes count by (metis distinct_card length_map node_ids_def nodes_ok_def)
  with sub show sets: "set (map ev_id events) = set (node_ids ns)"
    by (metis List.finite_set card_subset_eq)
  have len: "length ordered = length ns" by (simp add: ordered fold_ordered_length)
  have nth: "\<exists>n\<in>set ns. node_index n = int i \<and> ordered ! i = ?at n" if i: "i < length ns" for i
  proof -
    from nodes bound i obtain n where n: "n \<in> set ns" "node_index n = int i"
      by (metis indices_onto nodes_ok_def)
    have "ordered ! nat (node_index n) = ?at n"
      unfolding ordered using nodes bound n(1) by (intro fold_ordered_nth) (auto simp: nodes_ok_def)
    with n show ?thesis by auto
  qed
  have at_pos: "position_of ns (ev_id (ordered ! i)) = Some (int i)" if "i < length ns" for i
    using nth [OF that] at position_of_node nodes by (metis nodes_ok_def)
  have dist: "distinct ordered"
    using at_pos len by (metis (no_types, lifting) distinct_conv_nth of_nat_eq_iff option.inject)
  have "set ordered \<subseteq> set events"
    using nth at len by (metis in_set_conv_nth subsetI)
  moreover have "card (set ordered) = card (set events)"
    using dist ids count len by (simp add: distinct_card distinct_map)
  ultimately have "set ordered = set events" by (simp add: card_subset_eq)
  with dist ids have "mset ordered = mset events" by (simp add: set_eq_iff_mset_eq_distinct distinct_map)
  with at_pos len show "arranged events ns ordered" by (simp add: arranged_def)
qed

lemma Order_Inr_iff:
  "Order events g = Inr out \<longleftrightarrow>
     graph_validate g = None \<and> (\<forall>e\<in>set events. event_validate e = None)
     \<and> distinct (map ev_id events) \<and> set (map ev_id events) = set (node_ids (graph_nodes g))
     \<and> (\<forall>e\<in>set (graph_edges g). \<not> contradicting (position_of (graph_nodes g)) e)
     \<and> arranged events (graph_nodes g) out"
    (is "?order \<longleftrightarrow> ?spec")
proof -
  let ?ns = "graph_nodes g" and ?byID = "map (\<lambda>e. (ev_id e, e)) events"
  let ?empty = "replicate (length (graph_nodes g)) zero_event"
  have run: "\<exists>ordered. (Order events g = Inr out \<longleftrightarrow>
        (\<forall>e\<in>set (graph_edges g). \<not> contradicting (position_of ?ns) e) \<and> out = ordered)
      \<and> arranged events ?ns ordered"
    if valid: "graph_validate g = None" and events: "\<forall>e\<in>set events. event_validate e = None"
      and ids: "distinct (map ev_id events)" and count: "length events = length ?ns"
      and placed: "place_nodes ?byID ?ns (\<lambda>_. None) ?empty = Inr (indices, ordered)"
    for indices ordered
  proof -
    have nodes: "nodes_ok ?ns" using valid by (simp add: graph_validate_None_iff)
    note at = place_nodes_arranged [OF ids nodes count placed]
    have keys: "map (\<lambda>e. index_of indices (ev_id e)) ordered = map int [0..<length ordered]"
      using at(1,2) by (auto simp: arranged_def index_of_def intro!: nth_equalityI)
    have "sort_by (\<lambda>a b. index_of indices (ev_id a) < index_of indices (ev_id b)) ordered = ordered"
      by (rule key_order.sort_by_sorted [of _ "\<lambda>e. index_of indices (ev_id e)"])
        (simp_all add: key_order_def keys sorted_map strict_sorted_imp_sorted)
    then show ?thesis
      using valid events ids count placed at
      by (intro exI [of _ ordered]) (auto simp: Order_def index_events_Inr_iff [THEN iffD2]
          find_None_iff find_Some_iff split: option.split)
  qed
  show ?thesis
  proof
    assume ?order
    then obtain indices ordered where *: "graph_validate g = None"
        "\<forall>e\<in>set events. event_validate e = None" "distinct (map ev_id events)"
        "length events = length ?ns" "place_nodes ?byID ?ns (\<lambda>_. None) ?empty = Inr (indices, ordered)"
      by (auto simp: Order_def result_simps split: option.splits if_splits)
    with run \<open>?order\<close> place_nodes_arranged(3) [of events ?ns] show ?spec
      by (auto simp: graph_validate_None_iff)
  next
    assume spec: ?spec
    then have count: "length events = length ?ns"
      by (metis distinct_card length_map nodes_ok_def graph_validate_None_iff node_ids_def)
    have "map_of ?byID (node_event n) \<noteq> None \<and> node_index n < int (length ?ns)"
      if n: "n \<in> set ?ns" for n
    proof -
      from spec n have "node_event n \<in> ev_id ` set events" by (auto simp: node_ids_def)
      then obtain e where e: "e \<in> set events" "ev_id e = node_event n" by force
      from spec have "mset out = mset events" by (simp add: arranged_def)
      then have "set out = set events" "length out = length events"
        by (metis mset_eq_setD, metis mset_eq_length)
      with e obtain i where i: "i < length events" "out ! i = e" by (metis in_set_conv_nth)
      have "position_of ?ns (node_event n) = Some (int i)"
        using spec i e \<open>length out = length events\<close> by (metis arranged_def)
      moreover have "distinct (node_ids ?ns)"
        using spec by (simp add: graph_validate_None_iff nodes_ok_def)
      ultimately have "node_index n = int i" using n by (simp add: position_of_node)
      with i e spec count map_of_events [of events "node_event n"] show ?thesis by auto
    qed
    then have "\<exists>indices ordered. place_nodes ?byID ?ns (\<lambda>_. None) ?empty = Inr (indices, ordered)"
      by (simp add: place_nodes_Inr_iff del: fun_upd_apply)
    with run spec count arranged_unique show ?order by metis
  qed
qed


section \<open>BuildNodes\<close>

definition occurred :: "execution_event \<Rightarrow> instant" where
  "occurred e = time_of (ev_occurred_at e)"

definition tieLess :: "execution_event \<Rightarrow> execution_event \<Rightarrow> bool" where
  "tieLess a b =
     (if comp_name (ev_component a) \<noteq> comp_name (ev_component b)
      then comp_name (ev_component a) < comp_name (ev_component b)
      else if comp_instance (ev_component a) \<noteq> comp_instance (ev_component b)
      then comp_instance (ev_component a) < comp_instance (ev_component b)
      else if ev_sequence a \<noteq> ev_sequence b then ev_sequence a < ev_sequence b
      else ev_id a < ev_id b)"

definition tie_key :: "execution_event \<Rightarrow> string \<times> string \<times> int \<times> string" where
  "tie_key e = (comp_name (ev_component e), comp_instance (ev_component e), ev_sequence e, ev_id e)"

interpretation tie: key_order tieLess tie_key
  by standard (auto simp: tieLess_def tie_key_def)

text \<open>
  \<open>earliest\<close>: the loop keeps the smallest time, but takes the zero time for "not set yet".
\<close>

fun earliest_from :: "instant \<Rightarrow> execution_event list \<Rightarrow> instant" where
  "earliest_from t [] = t"
| "earliest_from t (e # es) =
     earliest_from (if is_zero t \<or> occurred e < t then occurred e else t) es"

definition tie_window :: int where
  "tie_window = 5 * 1000000"

definition candidates :: "execution_event list \<Rightarrow> execution_event list" where
  "candidates eligible =
     filter (\<lambda>e. \<not> add_nanos (earliest_from zero_time eligible) tie_window < occurred e) eligible"

definition select_event :: "execution_event list \<Rightarrow> execution_event" where
  "select_event eligible = hd (sort_by tieLess (candidates eligible))"

text \<open>
  \<open>indegree\<close> is a map whose iteration order Go leaves open: an association list, and \<open>ord k\<close> is the
  order in which the round that picks index \<open>k\<close> sees its entries.
\<close>

type_synonym degrees = "(string \<times> int) list"

definition add_degree :: "string \<Rightarrow> int \<Rightarrow> degrees \<Rightarrow> degrees" where
  "add_degree i d m =
     (if i \<in> fst ` set m then map (\<lambda>(j, n). (j, if j = i then n + d else n)) m else m @ [(i, d)])"

definition remove_degree :: "string \<Rightarrow> degrees \<Rightarrow> degrees" where
  "remove_degree i m = filter (\<lambda>p. fst p \<noteq> i) m"

definition initial_degrees :: "(string \<times> execution_event) list \<Rightarrow> (string \<times> string) list \<Rightarrow> degrees" where
  "initial_degrees byID ps = fold (\<lambda>p. add_degree (snd p) 1) ps (map (\<lambda>p. (fst p, 0)) byID)"

definition event_of :: "(string \<times> execution_event) list \<Rightarrow> string \<Rightarrow> execution_event" where
  "event_of byID i = (case map_of byID i of None \<Rightarrow> zero_event | Some e \<Rightarrow> e)"

definition eligible :: "(string \<times> execution_event) list \<Rightarrow> degrees \<Rightarrow> execution_event list" where
  "eligible byID m = map (\<lambda>p. event_of byID (fst p)) (filter (\<lambda>p. snd p = 0) m)"

function kahn :: "(nat \<Rightarrow> degrees \<Rightarrow> degrees) \<Rightarrow> (string \<times> execution_event) list \<Rightarrow> (string \<times> string) list
    \<Rightarrow> nat \<Rightarrow> degrees \<Rightarrow> graph_node list \<Rightarrow> graph_error + graph_node list" where
  "kahn ord byID ps n m res =
     (if length res < n then
        (case eligible byID (ord (length res) m) of [] \<Rightarrow> Inl ErrGraphCycle
         | e # es \<Rightarrow>
           let i = ev_id (select_event (e # es))
           in kahn ord byID ps n
                (fold (\<lambda>j. add_degree j (- 1)) (adjacency ps i) (remove_degree i m))
                (res @ [\<lparr>node_event = i, node_index = int (length res)\<rparr>]))
      else Inr res)"
  by pat_completeness auto

termination
  by (relation "measure (\<lambda>(ord, byID, ps, n, m, res). n - length res)") auto

declare kahn.simps [simp del]

definition numbered :: "execution_event list \<Rightarrow> graph_node list" where
  "numbered es = map (\<lambda>(i, e). \<lparr>node_event = ev_id e, node_index = int i\<rparr>) (enumerate 0 es)"

definition BuildNodes :: "(nat \<Rightarrow> degrees \<Rightarrow> degrees) \<Rightarrow> execution_event list \<Rightarrow> graph_edge list
    \<Rightarrow> graph_error + graph_node list" where
  "BuildNodes ord events edges =
     bind_result (index_events events []) (\<lambda>byID.
       case graph_validate \<lparr>graph_schema = ContractVersion, graph_id = ''validation'',
              graph_incident = ''validation'', graph_policy = ContractVersion,
              graph_nodes = numbered events, graph_edges = edges\<rparr> of
         Some err \<Rightarrow>
           if hasHardCycle (numbered events) edges then Inl ErrGraphCycle else Inl (InvalidGraph err)
       | None \<Rightarrow>
           kahn ord byID (hard_pairs edges) (length events)
             (initial_degrees byID (hard_pairs edges)) [])"

subsection \<open>The selection of a round\<close>

lemma earliest_from_mem: "earliest_from t es \<in> insert t (occurred ` set es)"
proof (induction es arbitrary: t)
  case (Cons e es)
  show ?case using Cons.IH [of "if is_zero t \<or> occurred e < t then occurred e else t"] by auto
qed simp

lemma earliest_mem: "es \<noteq> [] \<Longrightarrow> earliest_from zero_time es \<in> occurred ` set es"
  using earliest_from_mem by (cases es) (auto simp: is_zero_def)

lemma earliest_from_le:
  "\<lbrakk>\<forall>e\<in>set es. \<not> is_zero (occurred e); \<not> is_zero t; s \<in> insert t (occurred ` set es)\<rbrakk>
     \<Longrightarrow> earliest_from t es \<le> s"
proof (induction es arbitrary: s t)
  case (Cons e es)
  let ?t = "if is_zero t \<or> occurred e < t then occurred e else t"
  have le: "earliest_from ?t es \<le> s'" if "s' \<in> insert ?t (occurred ` set es)" for s'
    using Cons.IH [of ?t s'] Cons.prems(1,2) that by auto
  from le [of ?t] have "earliest_from ?t es \<le> ?t" by simp
  moreover have "?t \<le> t" and "?t \<le> occurred e" using Cons.prems(2) by auto
  ultimately have "earliest_from ?t es \<le> t \<and> earliest_from ?t es \<le> occurred e" by (meson order_trans)
  then show ?case using Cons.prems(3) le by auto
qed simp

lemma earliest_le:
  assumes "\<forall>e\<in>set es. \<not> is_zero (occurred e)" and "e \<in> set es"
  shows "earliest_from zero_time es \<le> occurred e"
  using assms earliest_from_le [of "tl es" "occurred (hd es)" "occurred e"]
  by (cases es) (auto simp: is_zero_def)

lemma set_candidates: "e \<in> set (candidates es) \<longleftrightarrow>
    e \<in> set es \<and> occurred e \<le> add_nanos (earliest_from zero_time es) tie_window"
  by (auto simp: candidates_def not_less)

lemma candidates_nonempty: "es \<noteq> [] \<Longrightarrow> candidates es \<noteq> []"
proof -
  assume "es \<noteq> []"
  from earliest_mem [OF this] obtain e where
    "e \<in> set es" "earliest_from zero_time es = occurred e" by auto
  then have "e \<in> set (candidates es)"
    using le_add_nanos [of tie_window] by (simp add: set_candidates tie_window_def)
  then show ?thesis by auto
qed

lemma select_event_mem: "es \<noteq> [] \<Longrightarrow> select_event es \<in> set (candidates es)"
  unfolding select_event_def
  by (metis candidates_nonempty list.set_sel(1) set_sort_by sort_by_eq_Nil_iff)

lemma select_event_least: "e \<in> set (candidates es) \<Longrightarrow> tie_key (select_event es) \<le> tie_key e"
  unfolding select_event_def by (rule tie.hd_sort_le)

lemma tie_key_eq: "tie_key a = tie_key b \<Longrightarrow> ev_id a = ev_id b"
  by (simp add: tie_key_def)

subsection \<open>The policy\<close>

text \<open>
  What a round has to choose: among the events whose hard predecessors are all placed, one that
  happened within 5 ms of each of them and comes first by component, instance, sequence and id
  among those that did.
\<close>

definition ready :: "execution_event list \<Rightarrow> (string \<times> string) list \<Rightarrow> string list \<Rightarrow> execution_event set" where
  "ready events ps placed =
     {e \<in> set events. ev_id e \<notin> set placed \<and> (\<forall>u. (u, ev_id e) \<in> set ps \<longrightarrow> u \<in> set placed)}"

definition in_window :: "execution_event set \<Rightarrow> execution_event \<Rightarrow> bool" where
  "in_window S e \<longleftrightarrow> (\<forall>f\<in>S. occurred e \<le> add_nanos (occurred f) tie_window)"

definition greedy :: "execution_event list \<Rightarrow> (string \<times> string) list \<Rightarrow> string list \<Rightarrow> execution_event \<Rightarrow> bool" where
  "greedy events ps placed e \<longleftrightarrow> in_window (ready events ps placed) e
     \<and> (\<forall>f\<in>ready events ps placed. in_window (ready events ps placed) f \<longrightarrow> tie_key e \<le> tie_key f)"

definition no_zero_times :: "execution_event list \<Rightarrow> bool" where
  "no_zero_times events \<longleftrightarrow> (\<forall>e\<in>set events. \<not> is_zero (occurred e))"

lemma select_event_greedy:
  assumes set_es: "set es = ready events ps placed" and ne: "es \<noteq> []"
    and nz: "no_zero_times events"
  shows "greedy events ps placed (select_event es)"
proof -
  have nz': "\<forall>e\<in>set es. \<not> is_zero (occurred e)"
    using nz set_es by (auto simp: no_zero_times_def ready_def)
  have window: "in_window (set es) e \<longleftrightarrow> e \<in> set (candidates es)" if "e \<in> set es" for e
  proof
    assume "in_window (set es) e"
    with that earliest_mem [OF ne] show "e \<in> set (candidates es)"
      by (auto simp: set_candidates in_window_def)
  next
    assume "e \<in> set (candidates es)"
    then show "in_window (set es) e"
      using earliest_le [OF nz'] unfolding in_window_def set_candidates
      by (metis add_nanos_mono order_trans)
  qed
  have mem: "select_event es \<in> set (candidates es)" by (rule select_event_mem [OF ne])
  then have "select_event es \<in> set es" by (simp add: set_candidates)
  then show ?thesis
    using mem window select_event_least by (auto simp: greedy_def set_es [symmetric])
qed

subsection \<open>The degrees\<close>

definition iteration_order :: "(nat \<Rightarrow> degrees \<Rightarrow> degrees) \<Rightarrow> bool" where
  "iteration_order ord \<longleftrightarrow> (\<forall>k m. mset (ord k m) = mset m)"

lemma fst_add_degree: "map fst (add_degree i d m) = (if i \<in> fst ` set m then map fst m else map fst m @ [i])"
  by (auto simp: add_degree_def comp_def case_prod_beta)

lemma add_degree_present:
  assumes "i \<in> fst ` set m"
  shows "map_of (add_degree i d m) v = (if v = i then map_option (\<lambda>n. n + d) (map_of m v) else map_of m v)"
proof -
  have "map_of (map (\<lambda>(j, n). (j, if j = i then n + d else n)) m) v =
      (if v = i then map_option (\<lambda>n. n + d) (map_of m v) else map_of m v)"
    by (induction m) auto
  with assms show ?thesis by (simp add: add_degree_def)
qed

lemma fold_add_degree:
  assumes "set js \<subseteq> fst ` set m"
  shows "map fst (fold (\<lambda>j. add_degree j d) js m) = map fst m"
    and "map_of (fold (\<lambda>j. add_degree j d) js m) v
           = map_option (\<lambda>n. n + d * int (count_list js v)) (map_of m v)"
proof -
  have "map fst (fold (\<lambda>j. add_degree j d) js m) = map fst m
      \<and> map_of (fold (\<lambda>j. add_degree j d) js m) v
           = map_option (\<lambda>n. n + d * int (count_list js v)) (map_of m v)"
    using assms
  proof (induction js arbitrary: m)
    case Nil
    then show ?case by (simp add: option.map_ident)
  next
    case (Cons j js)
    have keys: "map fst (add_degree j d m) = map fst m" using Cons.prems by (simp add: fst_add_degree)
    then have "fst ` set (add_degree j d m) = fst ` set m" by (metis set_map)
    with Cons have "set js \<subseteq> fst ` set (add_degree j d m)" by simp
    from Cons.IH [OF this] keys Cons.prems show ?case
      by (cases "map_of m v") (auto simp: add_degree_present algebra_simps)
  qed
  then show "map fst (fold (\<lambda>j. add_degree j d) js m) = map fst m"
    and "map_of (fold (\<lambda>j. add_degree j d) js m) v
           = map_option (\<lambda>n. n + d * int (count_list js v)) (map_of m v)" by simp_all
qed

text \<open>The number of hard edges into \<open>v\<close> from the nodes of \<open>S\<close>.\<close>

definition edges_into :: "(string \<times> string) list \<Rightarrow> string set \<Rightarrow> string \<Rightarrow> nat" where
  "edges_into ps S v = length (filter (\<lambda>p. snd p = v \<and> fst p \<in> S) ps)"

definition degrees_ok :: "(string \<times> string) list \<Rightarrow> degrees \<Rightarrow> bool" where
  "degrees_ok ps m \<longleftrightarrow> distinct (map fst m)
     \<and> (\<forall>v\<in>fst ` set m. map_of m v = Some (int (edges_into ps (fst ` set m) v)))"

lemma edges_into_0: "edges_into ps S v = 0 \<longleftrightarrow> (\<forall>u. (u, v) \<in> set ps \<longrightarrow> u \<notin> S)"
  by (auto simp: edges_into_def filter_empty_conv)

lemma edges_into_remove:
  "i \<in> S \<Longrightarrow> edges_into ps S v = edges_into ps (S - {i}) v + count_list (adjacency ps i) v"
  by (induction ps) (auto simp: edges_into_def adjacency_def)

lemma edges_into_all: "fst ` set ps \<subseteq> S \<Longrightarrow> edges_into ps S v = count_list (map snd ps) v"
  by (induction ps) (auto simp: edges_into_def)

lemma initial_degrees_ok:
  assumes ids: "distinct (map ev_id events)"
    and ps: "\<forall>(u, v)\<in>set ps. u \<in> ev_id ` set events \<and> v \<in> ev_id ` set events"
  defines "m \<equiv> initial_degrees (map (\<lambda>e. (ev_id e, e)) events) ps"
  shows "degrees_ok ps m" and "map fst m = map ev_id events"
proof -
  let ?m0 = "map (\<lambda>e. (ev_id e, 0 :: int)) events"
  have m: "m = fold (\<lambda>j. add_degree j 1) (map snd ps) ?m0"
    by (simp add: m_def initial_degrees_def fold_map comp_def)
  have sub: "set (map snd ps) \<subseteq> fst ` set ?m0" using ps by force
  from fold_add_degree(1) [OF sub] show keys: "map fst m = map ev_id events"
    by (simp add: m comp_def)
  have "map_of ?m0 v = Some 0" if "v \<in> ev_id ` set events" for v
    using that by (induction events) auto
  with fold_add_degree(2) [OF sub, of 1]
  have val: "map_of m v = Some (int (count_list (map snd ps) v))" if "v \<in> ev_id ` set events" for v
    using that by (simp add: m)
  have set_keys: "fst ` set m = ev_id ` set events" using keys by (metis set_map)
  have "fst ` set ps \<subseteq> ev_id ` set events" using ps by force
  with val show "degrees_ok ps m"
    by (simp add: degrees_ok_def keys ids set_keys edges_into_all)
qed

lemma remove_degrees_ok:
  assumes ok: "degrees_ok ps m" and i: "i \<in> fst ` set m"
    and succ: "set (adjacency ps i) \<subseteq> fst ` set m - {i}"
  defines "m' \<equiv> fold (\<lambda>j. add_degree j (- 1)) (adjacency ps i) (remove_degree i m)"
  shows "degrees_ok ps m'" and "fst ` set m' = fst ` set m - {i}"
proof -
  let ?r = "remove_degree i m"
  have keys_r: "fst ` set ?r = fst ` set m - {i}" by (auto simp: remove_degree_def)
  have dist_r: "distinct (map fst ?r)"
    using ok by (auto simp: degrees_ok_def remove_degree_def distinct_map inj_on_def)
  have val_r: "map_of ?r v = map_of m v" if "v \<noteq> i" for v
    using that by (induction m) (auto simp: remove_degree_def)
  have sub: "set (adjacency ps i) \<subseteq> fst ` set ?r" using succ keys_r by simp
  note keys = fold_add_degree(1) [OF sub, of "- 1", folded m'_def]
  then show keys': "fst ` set m' = fst ` set m - {i}" using keys_r by (metis set_map)
  have "map_of m' v = Some (int (edges_into ps (fst ` set m - {i}) v))"
    if v: "v \<in> fst ` set m - {i}" for v
  proof -
    have "map_of m v = Some (int (edges_into ps (fst ` set m) v))"
      using ok v by (auto simp: degrees_ok_def)
    then show ?thesis
      using fold_add_degree(2) [OF sub, of "- 1" v, folded m'_def] v val_r [of v]
        edges_into_remove [OF i, of ps v] by simp
  qed
  with keys dist_r show "degrees_ok ps m'" by (simp add: degrees_ok_def keys')
qed

subsection \<open>The loop\<close>

definition chosen :: "execution_event list \<Rightarrow> (string \<times> string) list \<Rightarrow> string list \<Rightarrow> nat \<Rightarrow> execution_event \<Rightarrow> bool" where
  "chosen events ps ids i e \<longleftrightarrow> ev_id e = ids ! i \<and> e \<in> ready events ps (take i ids)
     \<and> (no_zero_times events \<longrightarrow> greedy events ps (take i ids) e)"

definition scheduled :: "execution_event list \<Rightarrow> (string \<times> string) list \<Rightarrow> graph_node list \<Rightarrow> bool" where
  "scheduled events ps ns \<longleftrightarrow> map node_index ns = map int [0..<length ns]
     \<and> (\<forall>i<length ns. \<exists>e. chosen events ps (node_ids ns) i e)"

lemma scheduled_ids:
  assumes "scheduled events ps ns"
  shows "distinct (node_ids ns)" and "set (node_ids ns) \<subseteq> ev_id ` set events"
proof -
  let ?ids = "node_ids ns"
  have *: "?ids ! i \<in> ev_id ` set events \<and> ?ids ! i \<notin> set (take i ?ids)" if "i < length ?ids" for i
  proof -
    from that have "i < length ns" by (simp add: node_ids_def)
    with assms obtain e where "chosen events ps ?ids i e" by (auto simp: scheduled_def)
    then have "e \<in> set events" "ev_id e = ?ids ! i" "ev_id e \<notin> set (take i ?ids)"
      unfolding chosen_def ready_def by blast+
    then show ?thesis by (metis image_eqI)
  qed
  then show "set ?ids \<subseteq> ev_id ` set events" by (auto simp: in_set_conv_nth)
  have "?ids ! i \<noteq> ?ids ! j" if "i < j" "j < length ?ids" for i j
    using * [OF that(2)] that by (auto simp: in_set_conv_nth)
  then show "distinct ?ids" by (metis distinct_conv_nth nat_neq_iff)
qed

lemma scheduled_before:
  assumes "scheduled events ps ns" and "(u, v) \<in> set ps" and "j < length ns"
    and "node_ids ns ! j = v"
  shows "\<exists>i<j. node_ids ns ! i = u"
proof -
  from assms(1,3) obtain e where e: "chosen events ps (node_ids ns) j e" by (auto simp: scheduled_def)
  with assms(2,4) have "u \<in> set (take j (node_ids ns))" by (auto simp: chosen_def ready_def)
  then show ?thesis by (auto simp: in_set_conv_nth)
qed

lemma scheduled_snoc:
  assumes "scheduled events ps ns" and "e \<in> ready events ps (node_ids ns)"
    and "no_zero_times events \<Longrightarrow> greedy events ps (node_ids ns) e"
  shows "scheduled events ps (ns @ [\<lparr>node_event = ev_id e, node_index = int (length ns)\<rparr>])"
proof -
  have len: "length (node_ids ns) = length ns" by (simp add: node_ids_def)
  have ids: "node_ids (ns @ [\<lparr>node_event = ev_id e, node_index = int (length ns)\<rparr>])
      = node_ids ns @ [ev_id e]" by (simp add: node_ids_def)
  have "\<exists>f. chosen events ps (node_ids ns @ [ev_id e]) i f" if "i < Suc (length ns)" for i
  proof (cases "i = length ns")
    case True
    with assms(2,3) len show ?thesis by (intro exI [of _ e]) (simp add: chosen_def nth_append)
  next
    case False
    with that have i: "i < length ns" by simp
    with assms(1) obtain f where "chosen events ps (node_ids ns) i f"
      by (auto simp: scheduled_def)
    with False that len show ?thesis by (intro exI [of _ f]) (simp add: chosen_def nth_append)
  qed
  with assms(1) show ?thesis by (simp add: scheduled_def ids)
qed

lemma scheduled_last:
  assumes sched: "scheduled events ps (ns @ [n])" and "(node_event n, v) \<in> set ps"
  shows "v \<notin> set (node_ids (ns @ [n]))"
proof
  let ?ids = "node_ids (ns @ [n])"
  assume "v \<in> set ?ids"
  then obtain j where j: "j < length ?ids" "?ids ! j = v" unfolding in_set_conv_nth by blast
  then have "j < length (ns @ [n])" by (simp add: node_ids_def)
  from scheduled_before [OF sched assms(2) this j(2)] obtain i where
    i: "i < j" "?ids ! i = node_event n" by blast
  have last: "?ids ! length ns = node_event n" by (simp add: node_ids_def nth_append)
  have "i < length ?ids" "length ns < length ?ids" "i \<noteq> length ns"
    using i(1) j(1) by (simp_all add: node_ids_def)
  from nth_eq_iff_index_eq [OF scheduled_ids(1) [OF sched] this(1,2)] this(3) last i(2)
  show False by simp
qed

definition loop_ok :: "execution_event list \<Rightarrow> (string \<times> string) list \<Rightarrow> degrees \<Rightarrow> graph_node list \<Rightarrow> bool" where
  "loop_ok events ps m res \<longleftrightarrow> degrees_ok ps m
     \<and> fst ` set m = ev_id ` set events - set (node_ids res) \<and> scheduled events ps res"

definition closed_pairs :: "execution_event list \<Rightarrow> (string \<times> string) list \<Rightarrow> bool" where
  "closed_pairs events ps \<longleftrightarrow> distinct (map ev_id events) \<and> acyclic (set ps)
     \<and> (\<forall>(u, v)\<in>set ps. u \<in> ev_id ` set events \<and> v \<in> ev_id ` set events)"

lemma event_of_events:
  assumes "distinct (map ev_id events)" and "e \<in> set events"
  shows "event_of (map (\<lambda>e. (ev_id e, e)) events) (ev_id e) = e"
  using assms map_of_events [OF assms(1), of "ev_id e" e] by (simp add: event_of_def)

lemma eligible_ready:
  assumes loop: "loop_ok events ps m res" and closed: "closed_pairs events ps"
    and mset: "mset m' = mset m"
  shows "set (eligible (map (\<lambda>e. (ev_id e, e)) events) m') = ready events ps (node_ids res)"
proof -
  let ?byID = "map (\<lambda>e. (ev_id e, e)) events"
  have ids: "distinct (map ev_id events)" using closed by (simp add: closed_pairs_def)
  have keys: "fst ` set m = ev_id ` set events - set (node_ids res)"
    using loop by (simp add: loop_ok_def)
  have ok: "degrees_ok ps m" using loop by (simp add: loop_ok_def)
  have zero: "(i, 0) \<in> set m \<longleftrightarrow> i \<in> fst ` set m \<and> (\<forall>u. (u, i) \<in> set ps \<longrightarrow> u \<in> set (node_ids res))" for i
  proof -
    have "(i, 0) \<in> set m \<longleftrightarrow> map_of m i = Some 0"
      using ok by (simp add: degrees_ok_def)
    also have "\<dots> \<longleftrightarrow> i \<in> fst ` set m \<and> edges_into ps (fst ` set m) i = 0"
      using ok by (metis (no_types, lifting) degrees_ok_def map_of_eq_None_iff of_nat_0_eq_iff
          option.distinct(1) option.inject)
    finally show ?thesis using closed by (force simp: edges_into_0 keys closed_pairs_def)
  qed
  have "set (eligible ?byID m') = event_of ?byID ` {i. (i, 0) \<in> set m}"
    using mset_eq_setD [OF mset] by (force simp: eligible_def)
  also have "\<dots> = ready events ps (node_ids res)"
  proof (intro equalityI subsetI)
    fix e assume "e \<in> event_of ?byID ` {i. (i, 0) \<in> set m}"
    then obtain i where i: "(i, 0) \<in> set m" "e = event_of ?byID i" by auto
    with zero keys obtain f where "f \<in> set events" "i = ev_id f" "i \<notin> set (node_ids res)" by auto
    with i zero event_of_events [OF ids] show "e \<in> ready events ps (node_ids res)"
      by (simp add: ready_def)
  next
    fix e assume "e \<in> ready events ps (node_ids res)"
    with zero [of "ev_id e"] keys event_of_events [OF ids, of e] show "e \<in> event_of ?byID ` {i. (i, 0) \<in> set m}"
      by (auto simp: ready_def intro!: image_eqI [of _ _ "ev_id e"])
  qed
  finally show ?thesis .
qed

lemma ready_nonempty:
  assumes closed: "closed_pairs events ps" and left: "e \<in> set events" "ev_id e \<notin> set placed"
  shows "ready events ps placed \<noteq> {}"
proof -
  have "wf (set ps)" using closed by (simp add: closed_pairs_def finite_acyclic_wf)
  moreover have "ev_id e \<in> ev_id ` set events - set placed" using left by simp
  ultimately obtain v where v: "v \<in> ev_id ` set events - set placed"
      and min: "\<And>u. (u, v) \<in> set ps \<Longrightarrow> u \<notin> ev_id ` set events - set placed"
    by (metis wfE_min)
  from v obtain f where "f \<in> set events" "v = ev_id f" "v \<notin> set placed" by auto
  with min closed have "f \<in> ready events ps placed" by (fastforce simp: ready_def closed_pairs_def)
  then show ?thesis by auto
qed

lemma kahn_scheduled:
  assumes "iteration_order ord" and "closed_pairs events ps" and "loop_ok events ps m res"
    and "length res \<le> length events"
  shows "\<exists>ns. kahn ord (map (\<lambda>e. (ev_id e, e)) events) ps (length events) m res = Inr ns
    \<and> length ns = length events \<and> scheduled events ps ns"
  using assms(3,4)
proof (induction "length events - length res" arbitrary: m res)
  case 0
  then show ?case by (simp add: kahn.simps [of ord] loop_ok_def)
next
  case (Suc k)
  let ?byID = "map (\<lambda>e. (ev_id e, e)) events"
  let ?es = "eligible ?byID (ord (length res) m)"
  let ?e = "select_event ?es"
  let ?m = "fold (\<lambda>j. add_degree j (- 1)) (adjacency ps (ev_id ?e)) (remove_degree (ev_id ?e) m)"
  let ?res = "res @ [\<lparr>node_event = ev_id ?e, node_index = int (length res)\<rparr>]"
  have room: "length res < length events" using Suc.hyps(2) by simp
  have sched: "scheduled events ps res" and keys: "fst ` set m = ev_id ` set events - set (node_ids res)"
    and degrees: "degrees_ok ps m" using Suc.prems(1) by (simp_all add: loop_ok_def)
  have es: "set ?es = ready events ps (node_ids res)"
    using eligible_ready [OF Suc.prems(1) assms(2)] assms(1) by (simp add: iteration_order_def)
  have "card (set (node_ids res)) < card (ev_id ` set events)"
    using room scheduled_ids(1) [OF sched] assms(2)
    by (metis closed_pairs_def distinct_card length_map node_ids_def set_map)
  then have "\<not> ev_id ` set events \<subseteq> set (node_ids res)"
    by (metis List.finite_set card_mono not_less)
  then obtain e where "e \<in> set events" "ev_id e \<notin> set (node_ids res)" by auto
  from ready_nonempty [OF assms(2) this] es have ne: "?es \<noteq> []" by auto
  have sel: "?e \<in> ready events ps (node_ids res)"
    using select_event_mem [OF ne] es by (simp add: set_candidates)
  have sched': "scheduled events ps ?res"
    using scheduled_snoc [OF sched sel] select_event_greedy [OF es ne] by simp
  have mem: "ev_id ?e \<in> fst ` set m" using sel by (auto simp: keys ready_def)
  have "v \<in> fst ` set m - {ev_id ?e}" if "(ev_id ?e, v) \<in> set ps" for v
  proof -
    have "v \<in> ev_id ` set events" using assms(2) that by (auto simp: closed_pairs_def)
    moreover have "v \<notin> set (node_ids ?res)"
      by (rule scheduled_last [OF sched']) (simp add: that)
    ultimately show ?thesis by (simp add: keys node_ids_def)
  qed
  then have succ: "set (adjacency ps (ev_id ?e)) \<subseteq> fst ` set m - {ev_id ?e}" by auto
  from remove_degrees_ok [OF degrees mem succ] sched'
  have "loop_ok events ps ?m ?res" by (auto simp: loop_ok_def keys node_ids_def)
  from Suc.hyps(1) [OF _ this] Suc.hyps(2) room have "\<exists>ns. kahn ord ?byID ps (length events) ?m ?res = Inr ns
      \<and> length ns = length events \<and> scheduled events ps ns" by simp
  then obtain ns where
    ns: "kahn ord ?byID ps (length events) ?m ?res = Inr ns" "length ns = length events"
      "scheduled events ps ns" by auto
  have "kahn ord ?byID ps (length events) m res = kahn ord ?byID ps (length events) ?m ?res"
    using ne room by (subst kahn.simps) (auto simp: Let_def split: list.split)
  with ns show ?case by simp
qed

subsection \<open>What BuildNodes returns\<close>

lemma node_ids_numbered [simp]: "node_ids (numbered events) = map ev_id events"
  by (rule nth_equalityI) (simp_all add: node_ids_def numbered_def nth_enumerate_eq)

lemma numbered_ok:
  assumes "distinct (map ev_id events)" and "\<forall>e\<in>set events. event_validate e = None"
  shows "nodes_ok (numbered events)"
proof -
  have "map node_index (numbered events) = map int [0..<length events]"
    by (rule nth_equalityI) (simp_all add: numbered_def nth_enumerate_eq)
  then have "distinct (map node_index (numbered events))" by (simp add: distinct_map)
  moreover have "node_event n \<noteq> [] \<and> 0 \<le> node_index n" if "n \<in> set (numbered events)" for n
  proof -
    from that obtain i e where n: "n = \<lparr>node_event = ev_id e, node_index = int i\<rparr>" "e \<in> set events"
      by (auto simp: numbered_def in_set_enumerate_eq)
    with assms(2) have "event_validate e = None" by simp
    then have "ev_id e \<noteq> []" by (auto simp: event_validate_None_iff event_required_def)
    with n show ?thesis by simp
  qed
  ultimately show ?thesis using assms(1) by (simp add: nodes_ok_def)
qed

text \<open>What \<open>BuildNodes\<close> asks of its input.\<close>

definition buildable :: "execution_event list \<Rightarrow> graph_edge list \<Rightarrow> bool" where
  "buildable events edges \<longleftrightarrow> (\<forall>e\<in>set events. event_validate e = None) \<and> distinct (map ev_id events)
     \<and> edges_ok (map ev_id events) edges \<and> acyclic (set (hard_pairs edges))"

lemma buildable_closed: "buildable events edges \<Longrightarrow> closed_pairs events (hard_pairs edges)"
  using hard_pairs_nodes [of "map ev_id events" edges] by (auto simp: buildable_def closed_pairs_def)

lemma BuildNodes_cases:
  "BuildNodes ord events edges =
     (case index_events events [] of Inl err \<Rightarrow> Inl err
      | Inr byID \<Rightarrow>
        if buildable events edges
        then kahn ord byID (hard_pairs edges) (length events)
               (initial_degrees byID (hard_pairs edges)) []
        else if hasHardCycle (numbered events) edges then Inl ErrGraphCycle
        else Inl (InvalidGraph (the (graph_validate \<lparr>graph_schema = ContractVersion,
               graph_id = ''validation'', graph_incident = ''validation'',
               graph_policy = ContractVersion, graph_nodes = numbered events, graph_edges = edges\<rparr>))))"
proof (cases "index_events events []")
  case (Inr byID)
  then have ok: "\<forall>e\<in>set events. event_validate e = None" "distinct (map ev_id events)"
    by (simp_all add: index_events_Inr_iff)
  let ?g = "\<lparr>graph_schema = ContractVersion, graph_id = ''validation'', graph_incident = ''validation'',
    graph_policy = ContractVersion, graph_nodes = numbered events, graph_edges = edges\<rparr>"
  have "graph_validate ?g = None \<longleftrightarrow> buildable events edges"
    using ok numbered_ok by (simp add: graph_validate_None_iff buildable_def)
  then show ?thesis by (auto simp: BuildNodes_def Inr split: option.split)
qed (simp add: BuildNodes_def)

lemma BuildNodes_scheduled:
  assumes "iteration_order ord"
  shows "BuildNodes ord events edges = Inr ns \<Longrightarrow>
           buildable events edges \<and> length ns = length events \<and> scheduled events (hard_pairs edges) ns"
    and "buildable events edges \<Longrightarrow> \<exists>ns. BuildNodes ord events edges = Inr ns"
proof -
  let ?byID = "map (\<lambda>e. (ev_id e, e)) events" and ?ps = "hard_pairs edges"
  have run: "\<exists>ns. BuildNodes ord events edges = Inr ns
      \<and> length ns = length events \<and> scheduled events ?ps ns" if ok: "buildable events edges"
  proof -
    have closed: "closed_pairs events ?ps" by (rule buildable_closed [OF ok])
    have ids: "distinct (map ev_id events)" using ok by (simp add: buildable_def)
    have "\<forall>(u, v)\<in>set ?ps. u \<in> ev_id ` set events \<and> v \<in> ev_id ` set events"
      using closed by (simp add: closed_pairs_def)
    note init = initial_degrees_ok [OF ids this]
    have "fst ` set (initial_degrees ?byID ?ps) = ev_id ` set events" using init(2) by (metis set_map)
    with init(1) have "loop_ok events ?ps (initial_degrees ?byID ?ps) []"
      by (simp add: loop_ok_def scheduled_def node_ids_def)
    from kahn_scheduled [OF assms closed this] ok show ?thesis
      by (simp add: BuildNodes_cases index_events_Inr_iff [THEN iffD2] buildable_def)
  qed
  then show "buildable events edges \<Longrightarrow> \<exists>ns. BuildNodes ord events edges = Inr ns" by blast
  assume *: "BuildNodes ord events edges = Inr ns"
  then have "buildable events edges" by (auto simp: BuildNodes_cases split: sum.splits if_splits)
  with run * show "buildable events edges \<and> length ns = length events \<and> scheduled events ?ps ns"
    by fastforce
qed

text \<open>With no zero time the policy leaves one choice in every round.\<close>

lemma greedy_unique:
  assumes "greedy events ps placed e" "greedy events ps placed f"
    "e \<in> ready events ps placed" "f \<in> ready events ps placed"
  shows "ev_id e = ev_id f"
  using assms by (intro tie_key_eq) (metis antisym greedy_def)

lemma scheduled_unique:
  assumes a: "scheduled events ps ns" and b: "scheduled events ps ns'"
    and len: "length ns = length ns'" and nz: "no_zero_times events"
  shows "ns = ns'"
proof -
  have "node_ids ns ! i = node_ids ns' ! i" if "i < length ns" for i
    using that
  proof (induction i rule: less_induct)
    case (less i)
    then have "take i (node_ids ns) = take i (node_ids ns')"
      using len by (intro nth_equalityI) (simp_all add: node_ids_def)
    with less.prems len a b nz show ?case
      unfolding scheduled_def chosen_def by (metis greedy_unique)
  qed
  then have "node_ids ns = node_ids ns'" by (intro nth_equalityI) (simp_all add: node_ids_def len)
  moreover have "map node_index ns = map node_index ns'" using a b len by (simp add: scheduled_def)
  ultimately show ?thesis
    using len by (intro nth_equalityI) (auto simp: node_ids_def list_eq_iff_nth_eq)
qed


subsection \<open>The graph that BuildNodes builds\<close>

lemma built_ids:
  assumes "iteration_order ord" and "BuildNodes ord events edges = Inr ns"
  shows "buildable events edges" and "distinct (map ev_id events)"
    and "set (node_ids ns) = set (map ev_id events)" and "distinct (node_ids ns)"
    and "length ns = length events" and "scheduled events (hard_pairs edges) ns"
    and "e \<in> set events \<Longrightarrow> ev_id e \<noteq> []"
proof -
  from BuildNodes_scheduled(1) [OF assms] show ok: "buildable events edges"
      and len: "length ns = length events" and sched: "scheduled events (hard_pairs edges) ns" by auto
  show dist: "distinct (map ev_id events)" using ok by (simp add: buildable_def)
  show ids: "distinct (node_ids ns)" by (rule scheduled_ids [OF sched])
  have "card (set (node_ids ns)) = card (ev_id ` set events)"
    using ids dist len by (metis distinct_card length_map node_ids_def set_map)
  with scheduled_ids(2) [OF sched] show "set (node_ids ns) = set (map ev_id events)"
    by (simp add: card_subset_eq)
  show "ev_id e \<noteq> []" if "e \<in> set events"
    using ok that by (auto simp: buildable_def event_validate_None_iff event_required_def)
qed

lemma built_index:
  assumes "iteration_order ord" and "BuildNodes ord events edges = Inr ns" and "i < length ns"
  shows "node_index (ns ! i) = int i" and "position_of ns (node_ids ns ! i) = Some (int i)"
proof -
  show idx: "node_index (ns ! i) = int i"
    using built_ids(6) [OF assms(1,2)] assms(3)
    by (metis add.left_neutral diff_zero length_map length_upt nth_map nth_upt scheduled_def)
  show "position_of ns (node_ids ns ! i) = Some (int i)"
    using position_of_node [OF built_ids(4) [OF assms(1,2)], of "ns ! i"] idx assms(3)
    by (simp add: node_ids_def)
qed

lemma built_nodes_ok:
  assumes "iteration_order ord" and "BuildNodes ord events edges = Inr ns"
  shows "nodes_ok ns"
proof -
  note built = built_ids [OF assms]
  have "distinct (map node_index ns)" using built(6) by (simp add: scheduled_def distinct_map)
  moreover have "node_event n \<noteq> [] \<and> 0 \<le> node_index n" if n: "n \<in> set ns" for n
  proof -
    from n have "node_event n \<in> set (node_ids ns)" by (simp add: node_ids_def)
    with built(3) obtain e where "e \<in> set events" "node_event n = ev_id e" by auto
    with built(7) have "node_event n \<noteq> []" by metis
    with n built_index(1) [OF assms] show ?thesis by (auto simp: in_set_conv_nth)
  qed
  ultimately show ?thesis using built(4) by (simp add: nodes_ok_def)
qed

lemma distinct_subset_mset:
  assumes "distinct xs" "set xs \<subseteq> set ys" "length xs = length ys" "distinct ys"
  shows "mset xs = mset ys"
  using assms by (metis card_subset_eq distinct_card List.finite_set set_eq_iff_mset_eq_distinct)

lemma built_arranged:
  assumes "iteration_order ord" and "BuildNodes ord events edges = Inr ns"
  shows "\<exists>out. arranged events ns out \<and> map ev_id out = node_ids ns"
proof -
  note built = built_ids [OF assms]
  let ?at = "event_of (map (\<lambda>e. (ev_id e, e)) events)"
  have at: "ev_id (?at i) = i \<and> ?at i \<in> set events" if "i \<in> set (node_ids ns)" for i
    using that built(3) event_of_events [OF built(2)] by auto
  define out where "out = map ?at (node_ids ns)"
  have len: "length out = length events" "length out = length ns"
    using built(5) by (simp_all add: out_def node_ids_def)
  have ids: "map ev_id out = node_ids ns" using at by (auto simp: out_def intro!: map_idI)
  have sub: "set out \<subseteq> set events" using at by (auto simp: out_def)
  have "distinct (map ev_id out)" using built(4) ids by simp
  then have "distinct out" by (simp add: distinct_map)
  moreover have "distinct events" using built(2) by (simp add: distinct_map)
  ultimately have "mset out = mset events" by (intro distinct_subset_mset sub len(1))
  moreover have "position_of ns (ev_id (out ! i)) = Some (int i)" if i: "i < length out" for i
    using built_index(2) [OF assms, of i] nth_map [OF i, of ev_id] ids i len(2) by simp
  ultimately show ?thesis using ids by (auto simp: arranged_def)
qed

lemma built_forward:
  assumes "iteration_order ord" and "BuildNodes ord events edges = Inr ns" and e: "e \<in> set edges"
  shows "\<not> contradicting (position_of ns) e"
proof
  note built = built_ids [OF assms(1,2)]
  assume c: "contradicting (position_of ns) e"
  then have pair: "(edge_from e, edge_to e) \<in> set (hard_pairs edges)"
    using e by (auto simp: contradicting_def hard_pairs_def hard_edges_def edge_pair_def)
  from e built(1,3) have "edge_to e \<in> set (node_ids ns)"
    by (auto simp: buildable_def edges_ok_def edge_ok_def)
  then obtain j where j: "j < length ns" "node_ids ns ! j = edge_to e"
    by (auto simp: in_set_conv_nth node_ids_def)
  with pair obtain i where i: "i < j" "node_ids ns ! i = edge_from e"
    using scheduled_before [OF built(6)] by blast
  with c j built_index(2) [OF assms(1,2), of i] built_index(2) [OF assms(1,2), of j]
  show False by (simp add: contradicting_def index_of_def)
qed

text \<open>The nodes make a graph that \<open>Order\<close> accepts, under any valid header.\<close>

lemma built_Order:
  assumes "iteration_order ord" and "BuildNodes ord events edges = Inr ns"
    and header: "gid \<noteq> []" "inc \<noteq> []"
  shows "\<exists>out. Order events \<lparr>graph_schema = ContractVersion, graph_id = gid, graph_incident = inc,
      graph_policy = ContractVersion, graph_nodes = ns, graph_edges = edges\<rparr> = Inr out
    \<and> map ev_id out = node_ids ns"
proof -
  note built = built_ids [OF assms(1,2)]
  obtain out where out: "arranged events ns out" "map ev_id out = node_ids ns"
    using built_arranged [OF assms(1,2)] by blast
  have "edges_ok (node_ids ns) edges"
    using built(1,3) by (simp add: buildable_def edges_ok_def edge_ok_def)
  with built built_forward [OF assms(1,2)] built_nodes_ok [OF assms(1,2)] out header
  show ?thesis
    by (intro exI [of _ out]) (simp add: Order_Inr_iff graph_validate_None_iff buildable_def)
qed

section \<open>Properties\<close>

text \<open>Two events of one component that happened 20 ms apart, and a hard edge between them.\<close>

definition sample_event :: "string \<Rightarrow> string \<Rightarrow> int \<Rightarrow> execution_event" where
  "sample_event i at n = zero_event\<lparr>ev_schema := ContractVersion, ev_id := i, ev_execution := ''x'',
     ev_trace := ''t'', ev_component := \<lparr>comp_name = ''c'', comp_instance = ''c-1''\<rparr>,
     ev_operation := \<lparr>op_name = ''op'', op_kind = OperationInternal\<rparr>, ev_type := EventStart,
     ev_attempt := 1, ev_logical_op := ''l'', ev_occurred_at := at, ev_sequence := n,
     ev_status := EventRunning, ev_attributes := Some []\<rparr>"

definition sample_events :: "execution_event list" where
  "sample_events = [sample_event ''b'' ''2026-01-01T00:00:00.02Z'' 1,
                    sample_event ''a'' ''2026-01-01T00:00:00Z'' 2]"

definition sample_edges :: "graph_edge list" where
  "sample_edges = [\<lparr>edge_id = ''e'', edge_from = ''a'', edge_to = ''b'', edge_type = GraphEdgeParentChild\<rparr>]"

definition sample_graph :: execution_graph where
  "sample_graph = \<lparr>graph_schema = ContractVersion, graph_id = ''g'', graph_incident = ''i'',
     graph_policy = ContractVersion,
     graph_nodes = [\<lparr>node_event = ''b'', node_index = 1\<rparr>, \<lparr>node_event = ''a'', node_index = 0\<rparr>],
     graph_edges = sample_edges\<rparr>"

lemma sample_order: "Order sample_events sample_graph = Inr (rev sample_events)"
  by code_simp

lemma sample_build: "BuildNodes (\<lambda>_ m. m) sample_events sample_edges =
    Inr [\<lparr>node_event = ''a'', node_index = 0\<rparr>, \<lparr>node_event = ''b'', node_index = 1\<rparr>]"
  by code_simp

lemma identity_iteration [simp]: "iteration_order (\<lambda>_ m. m)"
  by (simp add: iteration_order_def)

lemma reverse_iteration [simp]: "iteration_order (\<lambda>_ m. rev m)"
  by (simp add: iteration_order_def)

text \<open>C24: an execution graph passes \<open>Validate\<close> exactly when its header is right, its node ids and
  indices are non-empty, non-negative and distinct, its edges have distinct ids, known types and
  two different known ends, and the hard edges (all but the temporal ones) form no cycle: the
  depth-first search over the marks 0, 1, 2 decides acyclicity.\<close>

theorem graph_validate_correct:
  "graph_validate g = None \<longleftrightarrow>
     graph_schema g = ContractVersion \<and> graph_id g \<noteq> [] \<and> graph_incident g \<noteq> []
     \<and> graph_policy g = ContractVersion \<and> nodes_ok (graph_nodes g)
     \<and> edges_ok (node_ids (graph_nodes g)) (graph_edges g)
     \<and> acyclic (set (hard_pairs (graph_edges g)))"
  by (rule graph_validate_None_iff)

text \<open>C25: \<open>Order\<close> succeeds exactly when the graph is valid, every event is valid, the events are
  those of the nodes, once each, and no hard edge goes backwards; the answer is then the one
  arrangement of the events whose \<open>i\<close>-th element has timeline index \<open>i\<close>.\<close>

theorem Order_correct:
  "Order events g = Inr out \<longleftrightarrow>
     graph_validate g = None \<and> (\<forall>e\<in>set events. event_validate e = None)
     \<and> distinct (map ev_id events) \<and> set (map ev_id events) = set (node_ids (graph_nodes g))
     \<and> (\<forall>e\<in>set (graph_edges g). \<not> contradicting (position_of (graph_nodes g)) e)
     \<and> arranged events (graph_nodes g) out"
  by (rule Order_Inr_iff)

theorem Order_correct_witness:
  "graph_validate sample_graph = None \<and> arranged sample_events (graph_nodes sample_graph) (rev sample_events)"
  using Order_correct [of sample_events sample_graph "rev sample_events"] sample_order by blast

text \<open>C26: whatever order Go iterates over its maps in, \<open>BuildNodes\<close> returns nodes exactly when the
  events are valid, with distinct ids, the edges are between them and the hard edges are acyclic:
  Kahn's loop never runs out of eligible events on such an input.\<close>

theorem BuildNodes_total:
  assumes "iteration_order ord"
  shows "(\<exists>ns. BuildNodes ord events edges = Inr ns) \<longleftrightarrow> buildable events edges"
  using BuildNodes_scheduled [OF assms] by blast

theorem BuildNodes_total_witness: "buildable sample_events sample_edges"
  using BuildNodes_total [OF identity_iteration, of sample_events sample_edges] sample_build by blast

text \<open>C10: the nodes \<open>BuildNodes\<close> returns carry every event once, are numbered 0, 1, 2, ... in the
  order they are returned, and every hard edge goes from a smaller index to a larger one.\<close>

theorem BuildNodes_topological:
  assumes "iteration_order ord" and "BuildNodes ord events edges = Inr ns"
  shows "mset (node_ids ns) = mset (map ev_id events)
    \<and> map node_index ns = map int [0..<length events]
    \<and> (\<forall>(u, v)\<in>set (hard_pairs edges). \<exists>i j. i < j \<and> j < length ns \<and> node_ids ns ! i = u \<and> node_ids ns ! j = v)"
proof -
  note built = built_ids [OF assms]
  have "mset (node_ids ns) = mset (map ev_id events)"
    using built(2-4) by (simp only: set_eq_iff_mset_eq_distinct)
  moreover have "\<exists>i j. i < j \<and> j < length ns \<and> node_ids ns ! i = u \<and> node_ids ns ! j = v"
    if "(u, v) \<in> set (hard_pairs edges)" for u v
  proof -
    have "v \<in> set (node_ids ns)"
      using hard_pairs_nodes(2) [of "map ev_id events" edges u v] built(1,3) that
      by (simp add: buildable_def)
    then obtain j where "j < length ns" "node_ids ns ! j = v"
      by (auto simp: in_set_conv_nth node_ids_def)
    with scheduled_before [OF built(6) that] show ?thesis by blast
  qed
  ultimately show ?thesis using built(5,6) by (auto simp: scheduled_def)
qed

theorem BuildNodes_topological_witness:
  "\<exists>i j. i < j \<and> j < (2::nat) \<and> [''a'', ''b''] ! i = ''a'' \<and> [''a'', ''b''] ! j = ''b''"
  using BuildNodes_topological [OF identity_iteration sample_build]
  by (simp add: hard_pairs_def hard_edges_def edge_pair_def sample_edges_def node_ids_def
      numeral_2_eq_2)


lemma sample_no_zero: "no_zero_times sample_events"
  unfolding no_zero_times_def by code_simp


text \<open>C28: when no event carries Go's zero time, \<open>BuildNodes\<close> is a function of its arguments: its
  result, errors included, does not depend on the order in which Go iterates over the map of
  degrees.\<close>

theorem BuildNodes_deterministic:
  assumes "iteration_order ord" and "iteration_order ord'" and "no_zero_times events"
  shows "BuildNodes ord events edges = BuildNodes ord' events edges"
proof (cases "buildable events edges")
  case True
  then obtain ns ns' where "BuildNodes ord events edges = Inr ns" "BuildNodes ord' events edges = Inr ns'"
    using BuildNodes_scheduled(2) assms(1,2) by meson
  with BuildNodes_scheduled(1) assms scheduled_unique show ?thesis by metis
next
  case False
  then show ?thesis by (simp add: BuildNodes_cases split: sum.split)
qed

theorem BuildNodes_deterministic_witness:
  "BuildNodes (\<lambda>_ m. rev m) sample_events sample_edges = BuildNodes (\<lambda>_ m. m) sample_events sample_edges"
  by (rule BuildNodes_deterministic [OF reverse_iteration identity_iteration sample_no_zero])

text \<open>With Go's zero time the same call can give two timelines: \<open>earliest.IsZero()\<close> takes an event
  at 0001-01-01T00:00:00Z for "no time yet", so whether a much later event is a candidate depends on
  which of the two the map iteration yields first.\<close>

lemma BuildNodes_zero_time:
  "\<exists>events ord ord'. iteration_order ord \<and> iteration_order ord' \<and> buildable events []
     \<and> BuildNodes ord events [] \<noteq> BuildNodes ord' events []"
proof -
  let ?events = "[sample_event ''b'' ''0001-01-01T00:00:00Z'' 2, sample_event ''a'' ''2026-01-01T00:00:00Z'' 1]"
  have "BuildNodes (\<lambda>_ m. m) ?events [] =
      Inr [\<lparr>node_event = ''a'', node_index = 0\<rparr>, \<lparr>node_event = ''b'', node_index = 1\<rparr>]"
    by code_simp
  moreover have "BuildNodes (\<lambda>_ m. rev m) ?events [] =
      Inr [\<lparr>node_event = ''b'', node_index = 0\<rparr>, \<lparr>node_event = ''a'', node_index = 1\<rparr>]"
    by code_simp
  ultimately have "BuildNodes (\<lambda>_ m. m) ?events [] \<noteq> BuildNodes (\<lambda>_ m. rev m) ?events []" by simp
  moreover have "buildable ?events []"
    using BuildNodes_scheduled(1) [OF identity_iteration] \<open>BuildNodes (\<lambda>_ m. m) ?events [] = _\<close> by blast
  ultimately show ?thesis using identity_iteration reverse_iteration by blast
qed

end
