(* ===== verification/Pack.thy ===== *)
theory Pack
  imports Graph
begin

text \<open>
  The interface of a System Pack (\<open>SystemPack\<close> in internal/contracts/contracts.go and the richer
  \<open>Alignment\<close> of internal/differential/differential.go): a record of the pack's methods, as a Go
  interface value is, and the contract that the core relies on, as a locale. Both packs of the
  repository are instances (theories CheckoutPack and DevPack). An error value keeps the fixed part of its
  message; \<open>PackPanic\<close> stands for a Go panic.
\<close>

datatype pack_error = PackError string | PackPanic

type_synonym alignment = "event_alignment slice \<times> string slice \<times> string slice \<times> event_change slice"

record raw_evidence =
  raw_source :: string
  raw_content_type :: string
  raw_received_at :: string
  raw_payload :: string

record label_set =
  lab_components :: "(string \<times> string) slice"
  lab_operations :: "(string \<times> string) slice"
  lab_event_types :: "(event_type \<times> string) slice"
  lab_effects :: "(string \<times> string) slice"
  lab_interventions :: "(string \<times> string) slice"

record system_pack =
  pk_descriptor :: system_pack_ref
  pk_normalize :: "raw_evidence \<Rightarrow> pack_error + execution_event list"
  pk_detect :: "execution_event list \<Rightarrow> pack_error + oracle_result"
  pk_extract :: "incident \<Rightarrow> execution_event list \<Rightarrow> pack_error + fixture_set"
  pk_plan :: "incident \<Rightarrow> fixture_set \<Rightarrow> pack_error + replay_plan"
  pk_validate :: "replay_capsule \<Rightarrow> validation_issue list"
  pk_interventions :: "intervention_spec list"
  pk_apply :: "replay_plan \<Rightarrow> intervention \<Rightarrow> pack_error + replay_plan"
  pk_compare :: "string \<Rightarrow> replay_execution \<Rightarrow> replay_execution \<Rightarrow> pack_error + replay_diff"
  pk_evaluate :: "replay_execution \<Rightarrow> pack_error + oracle_result"
  pk_labels :: label_set
  pk_align :: "string \<Rightarrow> replay_execution \<Rightarrow> replay_execution \<Rightarrow> pack_error + alignment"

text \<open>
  What the core relies on: an intervention leaves the components, the fixtures and the order of the
  plan alone; the oracle of an execution answers with a valid result; an alignment has no nil part,
  splits the events of the baseline into matched and removed ones and matches an event of the
  comparison at most once.
\<close>

definition same_plan :: "replay_plan \<Rightarrow> replay_plan \<Rightarrow> bool" where
  "same_plan p q \<longleftrightarrow> plan_entrypoint q = plan_entrypoint p
     \<and> elems (plan_components q) = elems (plan_components p)
     \<and> elems (plan_load_order q) = elems (plan_load_order p) \<and> plan_reset q = plan_reset p"

definition alignment_splits :: "replay_execution \<Rightarrow> replay_execution \<Rightarrow> alignment \<Rightarrow> bool" where
  "alignment_splits b c a \<longleftrightarrow> (case a of (matched, added, removed, changed) \<Rightarrow>
     matched \<noteq> None \<and> added \<noteq> None \<and> removed \<noteq> None \<and> changed \<noteq> None
     \<and> mset (map al_baseline (elems matched)) + mset (elems removed) = mset (map ev_id (ex_events b))
     \<and> mset (map al_comparison (elems matched)) \<subseteq># mset (map ev_id (ex_events c)))"

locale pack_contract =
  fixes pack :: system_pack
  assumes apply_same: "pk_apply pack p i = Inr q \<Longrightarrow> same_plan p q"
    and evaluate_valid: "\<lbrakk>\<forall>e\<in>set (ex_events x). event_validate e = None \<and> \<not> blank (ev_id e); pk_evaluate pack x = Inr r\<rbrakk>
      \<Longrightarrow> oracle_result_validate r = None"
    and align_splits: "pk_align pack k b c = Inr a \<Longrightarrow> alignment_splits b c a"
begin

lemma apply_components: "pk_apply pack p i = Inr q \<Longrightarrow> elems (plan_components q) = elems (plan_components p)"
  using apply_same by (simp add: same_plan_def)

lemma align_count:
  assumes "pk_align pack k b c = Inr (Some matched, Some added, Some removed, Some changed)"
  shows "length matched + length removed = length (ex_events b)"
    and "length matched \<le> length (ex_events c)"
proof -
  from align_splits [OF assms]
  have m: "mset (map al_baseline matched) + mset removed = mset (map ev_id (ex_events b))"
      "mset (map al_comparison matched) \<subseteq># mset (map ev_id (ex_events c))"
    by (simp_all add: alignment_splits_def)
  from arg_cong [OF m(1), of size] show "length matched + length removed = length (ex_events b)" by simp
  from size_mset_mono [OF m(2)] show "length matched \<le> length (ex_events c)" by simp
qed

end

end
