(* ===== verification/Tables.thy ===== *)
theory Tables
  imports Graph "HOL-Library.AList"
begin

text \<open>
  Go maps that the code iterates over, as association lists (the iteration order is the order of the
  list, and the properties that matter hold for every order), and the sorts the code runs over the
  values of a map, whose result does not depend on that order.
\<close>

section \<open>Tables\<close>

type_synonym 'v table = "(string \<times> 'v) list"

definition table_get :: "'v table \<Rightarrow> string \<Rightarrow> 'v option" where
  "table_get t k = map_of t k"

definition table_put :: "string \<Rightarrow> 'v \<Rightarrow> 'v table \<Rightarrow> 'v table" where
  "table_put k v t = AList.update k v t"

definition table_rows :: "'v table \<Rightarrow> 'v list" where
  "table_rows t = map snd t"

definition table_ok :: "'v table \<Rightarrow> bool" where
  "table_ok t \<longleftrightarrow> distinct (map fst t)"

text \<open>What a map promises its users: the laws the stores below rest on.\<close>

locale keyed_table =
  fixes get :: "'t \<Rightarrow> 'k \<Rightarrow> 'v option" and put :: "'k \<Rightarrow> 'v \<Rightarrow> 't \<Rightarrow> 't" and empty :: 't
    and rows :: "'t \<Rightarrow> 'v list" and invar :: "'t \<Rightarrow> bool"
  assumes get_empty: "get empty k = None"
    and get_put: "get (put k v t) j = (if j = k then Some v else get t j)"
    and invar_empty: "invar empty"
    and invar_put: "invar t \<Longrightarrow> invar (put k v t)"
    and rows_iff: "invar t \<Longrightarrow> v \<in> set (rows t) \<longleftrightarrow> (\<exists>k. get t k = Some v)"
begin

lemma get_put_same: "get (put k v t) k = Some v"
  by (simp add: get_put)

lemma get_put_other: "j \<noteq> k \<Longrightarrow> get (put k v t) j = get t j"
  by (simp add: get_put)

text \<open>A property of every entry, and what keeps it.\<close>

definition all_entries :: "('k \<Rightarrow> 'v \<Rightarrow> bool) \<Rightarrow> 't \<Rightarrow> bool" where
  "all_entries P t \<longleftrightarrow> invar t \<and> (\<forall>k v. get t k = Some v \<longrightarrow> P k v)"

lemma all_entries_empty: "all_entries P empty"
  by (simp add: all_entries_def get_empty invar_empty)

lemma all_entries_put: "all_entries P t \<Longrightarrow> P k v \<Longrightarrow> all_entries P (put k v t)"
  by (simp add: all_entries_def get_put invar_put)

lemma all_entriesD: "all_entries P t \<Longrightarrow> get t k = Some v \<Longrightarrow> P k v"
  by (simp add: all_entries_def)

lemma all_entries_rows: "all_entries P t \<Longrightarrow> v \<in> set (rows t) \<Longrightarrow> \<exists>k. get t k = Some v \<and> P k v"
  by (auto simp: all_entries_def rows_iff)

end

lemma map_of_AList_update: "map_of (AList.update k v t) j = (if j = k then Some v else map_of t j)"
  by (simp add: update_conv')

interpretation tab: keyed_table table_get table_put "[]" table_rows table_ok
proof
  show "table_get [] k = None" for k by (simp add: table_get_def)
  show "table_get (table_put k v t) j = (if j = k then Some v else table_get t j)" for k v j and t :: "'a table"
    by (simp add: table_get_def table_put_def map_of_AList_update)
  show "table_ok []" by (simp add: table_ok_def)
  show "table_ok t \<Longrightarrow> table_ok (table_put k v t)" for k v and t :: "'a table"
    by (simp add: table_ok_def table_put_def distinct_update)
  show "v \<in> set (table_rows t) \<longleftrightarrow> (\<exists>k. table_get t k = Some v)" if "table_ok t" for v and t :: "'a table"
    using that by (force simp: table_ok_def table_get_def table_rows_def)
qed

lemma table_get_put [simp]: "table_get (table_put k v t) j = (if j = k then Some v else table_get t j)"
  by (rule tab.get_put)

lemma table_get_Nil [simp]: "table_get [] k = None"
  by (rule tab.get_empty)

lemma length_put_new: "table_get t k = None \<Longrightarrow> length (table_put k v t) = Suc (length t)"
proof (induction t)
  case (Cons p t)
  then show ?case by (cases p) (auto simp: table_get_def table_put_def split: if_splits)
qed (simp add: table_put_def)

text \<open>Two rows of a table whose entries know their own key are equal when their keys are.\<close>

lemma rows_key_inj:
  assumes "\<And>k v. table_get t k = Some v \<Longrightarrow> key v = k" and "table_ok t"
    and "v \<in> set (table_rows t)" "w \<in> set (table_rows t)" "key v = key w"
  shows "v = w"
  using assms by (metis option.inject tab.rows_iff)

lemma distinct_rows:
  assumes "\<And>k v. table_get t k = Some v \<Longrightarrow> key v = k" and "table_ok t"
  shows "distinct (map key (table_rows t))"
proof -
  have "map key (table_rows t) = map fst t"
    using assms by (auto simp: table_rows_def table_get_def table_ok_def)
  with assms(2) show ?thesis by (simp add: table_ok_def)
qed

section \<open>Orders given by a less function\<close>

text \<open>
  What \<open>sort.Slice\<close> asks of its \<open>less\<close>: a strict weak order. A key order is one; so is the order a
  key order gives when read from the greatest to the smallest.
\<close>

locale weak_order =
  fixes lt :: "'a \<Rightarrow> 'a \<Rightarrow> bool"
  assumes asym: "lt a b \<Longrightarrow> \<not> lt b a"
    and step: "lt a c \<Longrightarrow> lt a b \<or> lt b c"
begin

definition ordered :: "'a list \<Rightarrow> bool" where
  "ordered xs \<longleftrightarrow> sorted_wrt (\<lambda>a b. \<not> lt b a) xs"

lemma ordered_insert: "ordered xs \<Longrightarrow> ordered (insert_by lt x xs)"
proof (induction xs)
  case (Cons y ys)
  show ?case
  proof (cases "lt y x")
    case True
    have "set (insert_by lt x ys) = insert x (set ys)" by (induction ys) auto
    with True Cons asym show ?thesis by (auto simp: ordered_def)
  next
    case False
    with Cons.prems step show ?thesis by (auto simp: ordered_def)
  qed
qed (simp add: ordered_def)

lemma ordered_sort: "ordered (sort_by lt xs)"
  by (induction xs) (auto simp: ordered_insert, simp add: ordered_def)

text \<open>When any two different elements are comparable, the sorted list is the only ordered
  arrangement.\<close>

lemma ordered_unique:
  assumes "ordered xs" "ordered ys" "mset xs = mset ys"
    and "\<And>a b. \<lbrakk>a \<in> set xs; b \<in> set xs; a \<noteq> b\<rbrakk> \<Longrightarrow> lt a b \<or> lt b a"
  shows "xs = ys"
  using assms
proof (induction xs arbitrary: ys)
  case (Cons x xs)
  then obtain y zs where ys: "ys = y # zs" by (cases ys) auto
  have "x = y"
  proof (rule ccontr)
    assume ne: "x \<noteq> y"
    from Cons.prems(3) have sets: "set (x # xs) = set ys" by (rule mset_eq_setD)
    then have "y \<in> set xs" "x \<in> set zs" using ne ys by auto
    then have "\<not> lt y x" "\<not> lt x y" using Cons.prems(1,2) ys by (auto simp: ordered_def)
    with Cons.prems(4) ne \<open>y \<in> set xs\<close> show False by auto
  qed
  moreover have "xs = zs"
  proof (rule Cons.IH)
    show "mset xs = mset zs" using Cons.prems(3) ys \<open>x = y\<close> by simp
  qed (use Cons.prems ys in \<open>auto simp: ordered_def\<close>)
  ultimately show ?case by (simp add: ys)
qed simp

lemma sort_independent:
  assumes "mset xs = mset ys"
    and "\<And>a b. \<lbrakk>a \<in> set xs; b \<in> set xs; a \<noteq> b\<rbrakk> \<Longrightarrow> lt a b \<or> lt b a"
  shows "sort_by lt xs = sort_by lt ys"
  by (rule ordered_unique) (use assms in \<open>simp_all add: ordered_sort\<close>)

lemma sort_ordered: "ordered xs \<Longrightarrow> sort_by lt xs = xs"
proof (induction xs)
  case (Cons x xs)
  then have "sort_by lt xs = xs" by (simp add: ordered_def)
  with Cons.prems show ?case by (cases xs) (auto simp: ordered_def)
qed simp

end

sublocale key_order \<subseteq> weak_order lt
  by standard (auto simp: lt_key)

lemma sort_by_cong:
  assumes "\<And>a b. \<lbrakk>a \<in> set xs; b \<in> set xs\<rbrakk> \<Longrightarrow> lt a b = lt' a b"
  shows "sort_by lt xs = sort_by lt' xs"
proof -
  have ins: "insert_by lt x ys = insert_by lt' x ys" if "\<forall>y\<in>set ys. lt y x = lt' y x" for x ys
    using that by (induction ys) auto
  show ?thesis
    using assms
  proof (induction xs)
    case (Cons x xs)
    then have "sort_by lt xs = sort_by lt' xs" by simp
    then show ?case using Cons.prems by (simp add: ins)
  qed simp
qed


end
