(* ===== verification/Store.thy ===== *)
theory Store
  imports Tables
begin

text \<open>
  The in-memory repository, internal/core/store.go with the leases of internal/core/lease.go. Every
  method takes the mutex, so it is one atomic step on the record of tables below; \<open>cancelled\<close> says that
  the context passed to it is cancelled. The cursor codec (base64 of JSON) of internal/core/postgres.go
  is a pair of parameters.
\<close>

section \<open>State\<close>

datatype store_error =
    ErrNotFound
  | ErrConflict
  | ErrInvalidLifecycle
  | ErrInternal
  | ErrContract contract_error
  | ErrGraphBuild graph_error

record store =
  st_events :: "execution_event table"
  st_incidents :: "incident table"
  st_graphs :: "execution_graph table"
  st_capsules :: "replay_capsule table"
  st_runs :: "replay_run table"
  st_diffs :: "replay_diff table"
  st_leases :: "instant table"

definition NewStore :: store where
  "NewStore = \<lparr>st_events = [], st_incidents = [], st_graphs = [], st_capsules = [], st_runs = [],
     st_diffs = [], st_leases = []\<rparr>"

definition Reset :: "bool \<Rightarrow> store \<Rightarrow> (store_error + nat \<times> nat) \<times> store" where
  "Reset cancelled s =
     (if cancelled then (Inl ErrInternal, s)
      else (Inr (length (st_incidents s), length (st_runs s)),
            s\<lparr>st_events := [], st_incidents := [], st_graphs := [], st_capsules := [], st_runs := [],
              st_diffs := []\<rparr>))"

section \<open>Events\<close>

definition IngestEvent :: "bool \<Rightarrow> execution_event \<Rightarrow> store \<Rightarrow> store_error option \<times> store" where
  "IngestEvent cancelled e s =
     (if cancelled then (Some ErrInternal, s)
      else case event_validate e of Some err \<Rightarrow> (Some (ErrContract err), s)
      | None \<Rightarrow>
        if table_get (st_events s) (ev_id e) \<noteq> None then (Some ErrConflict, s)
        else (None, s\<lparr>st_events := table_put (ev_id e) e (st_events s)\<rparr>))"

definition event_less :: "execution_event \<Rightarrow> execution_event \<Rightarrow> bool" where
  "event_less a b =
     (case (parse_time (ev_occurred_at a), parse_time (ev_occurred_at b)) of
        (Some (s, _), Some (t, _)) \<Rightarrow>
          if s \<noteq> t then s < t
          else if ev_sequence a \<noteq> ev_sequence b then ev_sequence a < ev_sequence b
          else ev_id a < ev_id b
      | _ \<Rightarrow>
          if ev_sequence a \<noteq> ev_sequence b then ev_sequence a < ev_sequence b
          else ev_id a < ev_id b)"

definition stableOrder :: "execution_event list \<Rightarrow> execution_event list" where
  "stableOrder es = sort_by event_less es"

definition EventsForExecution :: "bool \<Rightarrow> string \<Rightarrow> store \<Rightarrow> store_error + execution_event list" where
  "EventsForExecution cancelled x s =
     (if cancelled then Inl ErrInternal
      else Inr (stableOrder (filter (\<lambda>e. ev_execution e = x) (table_rows (st_events s)))))"

definition EventsForRun :: "bool \<Rightarrow> replay_run \<Rightarrow> store \<Rightarrow> store_error + execution_event list" where
  "EventsForRun cancelled run s =
     (if cancelled then Inl ErrInternal
      else Inr (stableOrder (filter (\<lambda>e. ev_run e = run_id run) (table_rows (st_events s)))))"

section \<open>Incidents and graphs\<close>

definition node_lookup :: "store \<Rightarrow> incident \<Rightarrow> graph_node \<Rightarrow> store_error + execution_event" where
  "node_lookup s i n =
     (case table_get (st_events s) (node_event n) of
        None \<Rightarrow> Inl ErrInternal
      | Some e \<Rightarrow>
          if ev_execution e \<noteq> inc_execution i \<or> ev_trace e \<noteq> inc_trace i then Inl ErrInternal
          else Inr e)"

definition PutIncident :: "bool \<Rightarrow> incident \<Rightarrow> execution_graph \<Rightarrow> store \<Rightarrow> store_error option \<times> store" where
  "PutIncident cancelled i g s =
     (if cancelled then (Some ErrInternal, s)
      else if incident_validate i \<noteq> None then (Some ErrInternal, s)
      else if graph_validate g \<noteq> None \<or> graph_incident g \<noteq> inc_id i \<or> inc_graph i \<noteq> graph_id g
        then (Some ErrInternal, s)
      else if table_get (st_incidents s) (inc_id i) \<noteq> None then (Some ErrConflict, s)
      else if table_get (st_graphs s) (graph_id g) \<noteq> None then (Some ErrConflict, s)
      else case map_result (node_lookup s i) (graph_nodes g) of
          Inl err \<Rightarrow> (Some err, s)
        | Inr referenced \<Rightarrow>
          if list_ex (\<lambda>v. v \<notin> set (node_ids (graph_nodes g))) (inc_evidence i) then (Some ErrInternal, s)
          else case Order referenced g of
              Inl _ \<Rightarrow> (Some ErrInternal, s)
            | Inr _ \<Rightarrow> (None, s\<lparr>st_incidents := table_put (inc_id i) i (st_incidents s),
                                  st_graphs := table_put (graph_id g) g (st_graphs s)\<rparr>))"

record incident_query =
  iq_status :: incident_status
  iq_limit :: "int option"
  iq_cursor :: string

type_synonym cursor = "instant \<times> string"

definition decodeCursor :: "(string \<Rightarrow> cursor option) \<Rightarrow> string \<Rightarrow> store_error + cursor" where
  "decodeCursor unmarshal c =
     (case unmarshal c of None \<Rightarrow> Inl ErrConflict
      | Some (t, i) \<Rightarrow> if is_zero t \<or> i = [] then Inl ErrConflict else Inr (t, i))"

definition after_cursor :: "cursor \<Rightarrow> instant \<Rightarrow> string \<Rightarrow> bool" where
  "after_cursor c t i \<longleftrightarrow> \<not> (fst c < t \<or> t = fst c \<and> snd c \<le> i)"

text \<open>The loop over the incidents: filter by status, parse, skip what the cursor has shown.\<close>

fun select_incidents :: "incident_status \<Rightarrow> cursor option \<Rightarrow> incident list \<Rightarrow> store_error + incident list" where
  "select_incidents st c [] = Inr []"
| "select_incidents st c (i # is) =
     (if st \<noteq> UnknownIncidentStatus [] \<and> inc_status i \<noteq> st then select_incidents st c is
      else case parse_time (inc_detected_at i) of None \<Rightarrow> Inl ErrInternal
      | Some (t, _) \<Rightarrow>
        if (case c of None \<Rightarrow> False | Some p \<Rightarrow> \<not> after_cursor p t (inc_id i))
        then select_incidents st c is
        else map_sum id (Cons i) (select_incidents st c is))"

definition detected :: "incident \<Rightarrow> instant" where
  "detected i = time_of (inc_detected_at i)"

definition incident_less :: "incident \<Rightarrow> incident \<Rightarrow> bool" where
  "incident_less a b =
     (if detected a = detected b then inc_id b < inc_id a else detected b < detected a)"

definition ListIncidents :: "(cursor \<Rightarrow> string) \<Rightarrow> (string \<Rightarrow> cursor option) \<Rightarrow> bool \<Rightarrow> incident_query \<Rightarrow> store
    \<Rightarrow> store_error + incident list \<times> string" where
  "ListIncidents marshal unmarshal cancelled q s =
     (if cancelled then Inl ErrInternal
      else let limit = (case iq_limit q of None \<Rightarrow> 20 | Some n \<Rightarrow> n)
      in if limit < 1 \<or> 100 < limit then Inl ErrConflict
      else bind_result
        (if iq_cursor q = [] then Inr None else map_sum id Some (decodeCursor unmarshal (iq_cursor q)))
        (\<lambda>c. bind_result (select_incidents (iq_status q) c (table_rows (st_incidents s))) (\<lambda>items.
          let sorted = sort_by incident_less items
          in if limit < int (length sorted)
             then let last = sorted ! nat (limit - 1)
                  in Inr (take (nat limit) sorted, marshal (detected last, inc_id last))
             else Inr (sorted, []))))"

definition GetIncidentDetail :: "bool \<Rightarrow> string \<Rightarrow> store
    \<Rightarrow> store_error + incident \<times> execution_graph \<times> execution_event list" where
  "GetIncidentDetail cancelled k s =
     (if cancelled then Inl ErrInternal
      else case table_get (st_incidents s) k of None \<Rightarrow> Inl ErrNotFound
      | Some i \<Rightarrow>
        (case table_get (st_graphs s) (inc_graph i) of None \<Rightarrow> Inl ErrInternal
         | Some g \<Rightarrow>
           if graph_incident g \<noteq> inc_id i then Inl ErrInternal
           else bind_result
             (map_result (\<lambda>n. case table_get (st_events s) (node_event n) of
                None \<Rightarrow> Inl ErrInternal | Some e \<Rightarrow> Inr e) (graph_nodes g)) (\<lambda>events.
             case Order events g of Inl _ \<Rightarrow> Inl ErrInternal | Inr ordered \<Rightarrow> Inr (i, g, ordered))))"

section \<open>Capsules and diffs\<close>

definition PutCapsule :: "bool \<Rightarrow> replay_capsule \<Rightarrow> store \<Rightarrow> store_error option \<times> store" where
  "PutCapsule cancelled c s =
     (if cancelled then (Some ErrInternal, s)
      else if capsule_validate c \<noteq> None then (Some ErrInternal, s)
      else if table_get (st_capsules s) (cap_id c) \<noteq> None then (Some ErrConflict, s)
      else (None, s\<lparr>st_capsules := table_put (cap_id c) c (st_capsules s)\<rparr>))"

definition lookup_row :: "bool \<Rightarrow> 'v table \<Rightarrow> string \<Rightarrow> store_error + 'v" where
  "lookup_row cancelled t k =
     (if cancelled then Inl ErrInternal
      else case table_get t k of None \<Rightarrow> Inl ErrNotFound | Some v \<Rightarrow> Inr v)"

definition GetCapsule :: "bool \<Rightarrow> string \<Rightarrow> store \<Rightarrow> store_error + replay_capsule" where
  "GetCapsule cancelled k s = lookup_row cancelled (st_capsules s) k"

definition PutDiff :: "bool \<Rightarrow> replay_diff \<Rightarrow> store \<Rightarrow> store_error option \<times> store" where
  "PutDiff cancelled d s =
     (if cancelled then (Some ErrInternal, s)
      else if diff_validate d \<noteq> None then (Some ErrInternal, s)
      else if table_get (st_diffs s) (diff_id d) \<noteq> None then (Some ErrConflict, s)
      else (None, s\<lparr>st_diffs := table_put (diff_id d) d (st_diffs s)\<rparr>))"

definition GetDiff :: "bool \<Rightarrow> string \<Rightarrow> store \<Rightarrow> store_error + replay_diff" where
  "GetDiff cancelled k s = lookup_row cancelled (st_diffs s) k"

section \<open>Runs\<close>

text \<open>What a what-if run asks of the run it names as its baseline.\<close>

definition eligible_baseline :: "replay_run \<Rightarrow> replay_run \<Rightarrow> bool" where
  "eligible_baseline b run \<longleftrightarrow> run_id b = run_baseline run \<and> run_kind b = RunTypeBaseline
     \<and> run_status b = ReplayRunCompleted \<and> run_outcome b = ReplayOutcomeReproduced
     \<and> (case run_isolation b of None \<Rightarrow> False | Some e \<Rightarrow> iso_verdict e = VerdictPass)
     \<and> run_capsule b = run_capsule run \<and> run_capsule_hash b = run_capsule_hash run
     \<and> run_intervention b = None"

definition PutRun :: "bool \<Rightarrow> replay_run \<Rightarrow> store \<Rightarrow> store_error option \<times> store" where
  "PutRun cancelled run s =
     (if cancelled then (Some ErrInternal, s)
      else if run_validate run \<noteq> None then (Some ErrInternal, s)
      else if table_get (st_runs s) (run_id run) \<noteq> None then (Some ErrConflict, s)
      else if run_kind run = RunTypeWhatIf
        \<and> (case table_get (st_runs s) (run_baseline run) of None \<Rightarrow> True
           | Some b \<Rightarrow> \<not> eligible_baseline b run) then (Some ErrInvalidLifecycle, s)
      else (None, s\<lparr>st_runs := table_put (run_id run) run (st_runs s)\<rparr>))"

definition GetRun :: "bool \<Rightarrow> string \<Rightarrow> store \<Rightarrow> store_error + replay_run" where
  "GetRun cancelled k s = lookup_row cancelled (st_runs s) k"

definition ListRuns :: "bool \<Rightarrow> replay_run_status \<Rightarrow> store \<Rightarrow> store_error + replay_run list" where
  "ListRuns cancelled status s =
     (if cancelled then Inl ErrInternal
      else Inr (sort_by (\<lambda>a b. run_id a < run_id b)
        (filter (\<lambda>r. run_status r = status) (table_rows (st_runs s)))))"

definition same_identity :: "replay_run \<Rightarrow> replay_run \<Rightarrow> bool" where
  "same_identity a b \<longleftrightarrow> run_execution a = run_execution b \<and> run_capsule a = run_capsule b
     \<and> run_capsule_hash a = run_capsule_hash b \<and> run_kind a = run_kind b
     \<and> run_baseline a = run_baseline b \<and> run_intervention a = run_intervention b
     \<and> run_trial a = run_trial b"

definition TransitionRun :: "bool \<Rightarrow> replay_run_status \<Rightarrow> replay_run \<Rightarrow> store \<Rightarrow> store_error option \<times> store" where
  "TransitionRun cancelled from run s =
     (if cancelled then (Some ErrInternal, s)
      else if \<not> CanTransitionReplayRun from (run_status run) \<or> run_validate run \<noteq> None
        then (Some ErrInvalidLifecycle, s)
      else case table_get (st_runs s) (run_id run) of
          None \<Rightarrow> (Some ErrNotFound, s)
        | Some stored \<Rightarrow>
          if run_status stored \<noteq> from \<or> \<not> same_identity stored run then (Some ErrInvalidLifecycle, s)
          else (None, s\<lparr>st_runs := table_put (run_id run) run (st_runs s)\<rparr>))"

section \<open>Leases\<close>

text \<open>\<open>now\<close> is what \<open>time.Now\<close> answers, \<open>lease\<close> the duration in nanoseconds.\<close>

definition ClaimRun :: "bool \<Rightarrow> instant \<Rightarrow> string \<Rightarrow> int \<Rightarrow> store \<Rightarrow> (store_error + replay_run) \<times> store" where
  "ClaimRun cancelled now k lease s =
     (if cancelled then (Inl ErrInternal, s)
      else case table_get (st_runs s) k of
          None \<Rightarrow> (Inl ErrNotFound, s)
        | Some run \<Rightarrow>
          if run_status run \<noteq> ReplayRunCreated then (Inl ErrInvalidLifecycle, s)
          else let claimed = run\<lparr>run_status := ReplayRunValidating\<rparr>
            in (Inr claimed, s\<lparr>st_runs := table_put k claimed (st_runs s),
                               st_leases := table_put k (add_nanos now lease) (st_leases s)\<rparr>))"

definition RenewLease :: "bool \<Rightarrow> instant \<Rightarrow> string \<Rightarrow> int \<Rightarrow> store \<Rightarrow> store_error option \<times> store" where
  "RenewLease cancelled now k lease s =
     (if cancelled then (Some ErrInternal, s)
      else if table_get (st_runs s) k = None then (Some ErrNotFound, s)
      else (None, s\<lparr>st_leases := table_put k (add_nanos now lease) (st_leases s)\<rparr>))"

definition stranded :: "instant \<Rightarrow> store \<Rightarrow> string \<times> replay_run \<Rightarrow> bool" where
  "stranded now s p \<longleftrightarrow>
     (run_status (snd p) = ReplayRunValidating \<or> run_status (snd p) = ReplayRunRunning)
     \<and> (case table_get (st_leases s) (fst p) of None \<Rightarrow> True | Some until \<Rightarrow> until < now)"

definition ReclaimExpiredRuns :: "bool \<Rightarrow> instant \<Rightarrow> store \<Rightarrow> store_error + replay_run list" where
  "ReclaimExpiredRuns cancelled now s =
     (if cancelled then Inl ErrInternal else Inr (map snd (filter (stranded now s) (st_runs s))))"

section \<open>The graph of a run\<close>

definition parentChildEdges :: "execution_event list \<Rightarrow> graph_edge list" where
  "parentChildEdges es =
     map (\<lambda>(i, e). \<lparr>edge_id = ''edge-'' @ nat_dec i, edge_from = ev_parent e, edge_to = ev_id e,
                     edge_type = GraphEdgeParentChild\<rparr>)
       (filter (\<lambda>(i, e). ev_parent e \<noteq> []) (enumerate 0 es))"

definition BuildRunGraph :: "(nat \<Rightarrow> degrees \<Rightarrow> degrees) \<Rightarrow> string \<Rightarrow> execution_event list
    \<Rightarrow> graph_error + execution_graph" where
  "BuildRunGraph ord k es =
     map_sum id (\<lambda>ns. \<lparr>graph_schema = ContractVersion, graph_id = ''graph-run-'' @ k,
        graph_incident = k, graph_policy = ContractVersion, graph_nodes = ns,
        graph_edges = parentChildEdges es\<rparr>)
       (BuildNodes ord es (parentChildEdges es))"

definition GraphsForRun :: "(nat \<Rightarrow> degrees \<Rightarrow> degrees) \<Rightarrow> bool \<Rightarrow> replay_run \<Rightarrow> store
    \<Rightarrow> store_error + execution_graph" where
  "GraphsForRun ord cancelled run s =
     bind_result (EventsForRun cancelled run s)
       (\<lambda>es. map_sum ErrGraphBuild id (BuildRunGraph ord (run_id run) es))"


section \<open>The order of events\<close>

definition event_key :: "execution_event \<Rightarrow> instant \<times> int \<times> string" where
  "event_key e = (occurred e, ev_sequence e, ev_id e)"

interpretation event_order: key_order "\<lambda>a b. event_key a < event_key b" event_key
  by standard simp

lemma event_less_key:
  assumes "event_validate a = None" and "event_validate b = None"
  shows "event_less a b \<longleftrightarrow> event_key a < event_key b"
proof -
  have "\<exists>s z. parse_time (ev_occurred_at e) = Some (s, z) \<and> occurred e = s"
    if "event_validate e = None" for e
    using that validUTCTime_parses [of "ev_occurred_at e"]
    by (auto simp: event_validate_None_iff occurred_def time_of_def)
  from this [OF assms(1)] this [OF assms(2)] show ?thesis
    by (auto simp: event_less_def event_key_def less_prod_def split: if_splits)
qed

lemma stableOrder_valid:
  assumes "\<forall>e\<in>set es. event_validate e = None"
  shows "stableOrder es = sort_by (\<lambda>a b. event_key a < event_key b) es"
  unfolding stableOrder_def using assms by (intro sort_by_cong event_less_key) auto

section \<open>What an operation keeps\<close>

text \<open>A later store has every event, incident, graph, capsule and diff of an earlier one, and every run
  with the same identity, unchanged or strictly further in its life cycle.\<close>

definition run_later :: "replay_run \<Rightarrow> replay_run \<Rightarrow> bool" where
  "run_later r r' \<longleftrightarrow> run_id r' = run_id r \<and> same_identity r r'
     \<and> (r' = r \<or> CanTransitionReplayRun\<^sup>+\<^sup>+ (run_status r) (run_status r'))"

definition sub_table :: "'v table \<Rightarrow> 'v table \<Rightarrow> bool" where
  "sub_table t t' \<longleftrightarrow> (\<forall>k v. table_get t k = Some v \<longrightarrow> table_get t' k = Some v)"

definition extends :: "store \<Rightarrow> store \<Rightarrow> bool" where
  "extends s s' \<longleftrightarrow> sub_table (st_events s) (st_events s') \<and> sub_table (st_incidents s) (st_incidents s')
     \<and> sub_table (st_graphs s) (st_graphs s') \<and> sub_table (st_capsules s) (st_capsules s')
     \<and> sub_table (st_diffs s) (st_diffs s')
     \<and> (\<forall>k r. table_get (st_runs s) k = Some r \<longrightarrow>
          (\<exists>r'. table_get (st_runs s') k = Some r' \<and> run_later r r'))"

lemma same_identity_refl [simp]: "same_identity r r"
  by (simp add: same_identity_def)

lemma same_identity_trans: "same_identity a b \<Longrightarrow> same_identity b c \<Longrightarrow> same_identity a c"
  by (simp add: same_identity_def)

lemma run_later_refl [simp]: "run_later r r"
  by (simp add: run_later_def)

lemma run_later_trans: "run_later a b \<Longrightarrow> run_later b c \<Longrightarrow> run_later a c"
  using same_identity_trans unfolding run_later_def by (metis tranclp_trans)

lemma transitions_rank: "CanTransitionReplayRun\<^sup>+\<^sup>+ s t \<Longrightarrow> status_rank s < status_rank t"
  by (induction rule: tranclp_induct) (auto dest: transition_rank)

lemma transitions_from_terminal: "terminal_status s \<Longrightarrow> \<not> CanTransitionReplayRun\<^sup>+\<^sup>+ s t"
  by (metis no_transition_from_terminal tranclpD)

lemma run_later_terminal: "run_later r r' \<Longrightarrow> terminal_status (run_status r) \<Longrightarrow> r' = r"
  by (auto simp: run_later_def transitions_from_terminal)

lemma sub_table_refl [simp]: "sub_table t t"
  by (simp add: sub_table_def)

lemma sub_table_put: "table_get t k = None \<Longrightarrow> sub_table t (table_put k v t)"
  by (auto simp: sub_table_def)

lemma sub_table_trans: "sub_table a b \<Longrightarrow> sub_table b c \<Longrightarrow> sub_table a c"
  by (simp add: sub_table_def)

lemma extends_refl [simp]: "extends s s"
  by (auto simp: extends_def)

lemma extends_trans: "extends a b \<Longrightarrow> extends b c \<Longrightarrow> extends a c"
  unfolding extends_def by (meson sub_table_trans run_later_trans)

section \<open>The steps of the store\<close>

datatype store_op =
    OpIngest bool execution_event
  | OpPutIncident bool incident execution_graph
  | OpPutCapsule bool replay_capsule
  | OpPutRun bool replay_run
  | OpTransition bool replay_run_status replay_run
  | OpClaim bool instant string int
  | OpRenew bool instant string int
  | OpPutDiff bool replay_diff
  | OpReset bool

fun apply_op :: "store_op \<Rightarrow> store \<Rightarrow> store" where
  "apply_op (OpIngest c e) s = snd (IngestEvent c e s)"
| "apply_op (OpPutIncident c i g) s = snd (PutIncident c i g s)"
| "apply_op (OpPutCapsule c p) s = snd (PutCapsule c p s)"
| "apply_op (OpPutRun c r) s = snd (PutRun c r s)"
| "apply_op (OpTransition c st r) s = snd (TransitionRun c st r s)"
| "apply_op (OpClaim c now k l) s = snd (ClaimRun c now k l s)"
| "apply_op (OpRenew c now k l) s = snd (RenewLease c now k l s)"
| "apply_op (OpPutDiff c d) s = snd (PutDiff c d s)"
| "apply_op (OpReset c) s = snd (Reset c s)"

definition is_reset :: "store_op \<Rightarrow> bool" where
  "is_reset op \<longleftrightarrow> op = OpReset False"

section \<open>The invariant\<close>

definition incident_backed :: "store \<Rightarrow> incident \<Rightarrow> bool" where
  "incident_backed s i \<longleftrightarrow> (\<exists>g events out. table_get (st_graphs s) (inc_graph i) = Some g
     \<and> graph_incident g = inc_id i \<and> map_result (node_lookup s i) (graph_nodes g) = Inr events
     \<and> set (inc_evidence i) \<subseteq> set (node_ids (graph_nodes g)) \<and> Order events g = Inr out)"

definition run_backed :: "store \<Rightarrow> replay_run \<Rightarrow> bool" where
  "run_backed s r \<longleftrightarrow> (run_kind r = RunTypeWhatIf \<longrightarrow>
     (\<exists>b. table_get (st_runs s) (run_baseline r) = Some b \<and> eligible_baseline b r))"

definition event_row :: "string \<Rightarrow> execution_event \<Rightarrow> bool" where
  "event_row k e \<longleftrightarrow> ev_id e = k \<and> event_validate e = None"

definition incident_row :: "store \<Rightarrow> string \<Rightarrow> incident \<Rightarrow> bool" where
  "incident_row s k i \<longleftrightarrow> inc_id i = k \<and> incident_validate i = None \<and> incident_backed s i"

definition graph_row :: "string \<Rightarrow> execution_graph \<Rightarrow> bool" where
  "graph_row k g \<longleftrightarrow> graph_id g = k \<and> graph_validate g = None"

definition capsule_row :: "string \<Rightarrow> replay_capsule \<Rightarrow> bool" where
  "capsule_row k c \<longleftrightarrow> cap_id c = k \<and> capsule_validate c = None"

definition run_row :: "store \<Rightarrow> string \<Rightarrow> replay_run \<Rightarrow> bool" where
  "run_row s k r \<longleftrightarrow> run_id r = k \<and> run_validate r = None \<and> run_backed s r"

definition diff_row :: "string \<Rightarrow> replay_diff \<Rightarrow> bool" where
  "diff_row k d \<longleftrightarrow> diff_id d = k \<and> diff_validate d = None"

definition store_ok :: "store \<Rightarrow> bool" where
  "store_ok s \<longleftrightarrow> tab.all_entries event_row (st_events s)
     \<and> tab.all_entries (incident_row s) (st_incidents s) \<and> tab.all_entries graph_row (st_graphs s)
     \<and> tab.all_entries capsule_row (st_capsules s) \<and> tab.all_entries (run_row s) (st_runs s)
     \<and> tab.all_entries diff_row (st_diffs s)"

lemmas row_defs = event_row_def incident_row_def graph_row_def capsule_row_def run_row_def diff_row_def

text \<open>What each operation does when it changes the store.\<close>

lemma IngestEvent_cases:
  "(\<exists>err. IngestEvent c e s = (Some err, s))
   \<or> (IngestEvent c e s = (None, s\<lparr>st_events := table_put (ev_id e) e (st_events s)\<rparr>)
      \<and> \<not> c \<and> event_validate e = None \<and> table_get (st_events s) (ev_id e) = None)"
  by (cases "event_validate e") (auto simp: IngestEvent_def)

lemma PutIncident_cases:
  "(\<exists>err. PutIncident c i g s = (Some err, s))
   \<or> (PutIncident c i g s = (None, s\<lparr>st_incidents := table_put (inc_id i) i (st_incidents s),
        st_graphs := table_put (graph_id g) g (st_graphs s)\<rparr>)
      \<and> incident_validate i = None \<and> graph_validate g = None \<and> graph_incident g = inc_id i
      \<and> inc_graph i = graph_id g \<and> table_get (st_incidents s) (inc_id i) = None
      \<and> table_get (st_graphs s) (graph_id g) = None
      \<and> set (inc_evidence i) \<subseteq> set (node_ids (graph_nodes g))
      \<and> (\<exists>events out. map_result (node_lookup s i) (graph_nodes g) = Inr events
            \<and> Order events g = Inr out))"
proof (cases "map_result (node_lookup s i) (graph_nodes g)")
  case (Inl e)
  then show ?thesis by (simp add: PutIncident_def)
next
  case (Inr events)
  then show ?thesis
    by (cases "Order events g") (simp_all add: PutIncident_def list_ex_iff subset_iff)
qed

lemma PutCapsule_cases:
  "(\<exists>err. PutCapsule c p s = (Some err, s))
   \<or> (PutCapsule c p s = (None, s\<lparr>st_capsules := table_put (cap_id p) p (st_capsules s)\<rparr>)
      \<and> capsule_validate p = None \<and> table_get (st_capsules s) (cap_id p) = None)"
  by (simp add: PutCapsule_def)

lemma PutDiff_cases:
  "(\<exists>err. PutDiff c d s = (Some err, s))
   \<or> (PutDiff c d s = (None, s\<lparr>st_diffs := table_put (diff_id d) d (st_diffs s)\<rparr>)
      \<and> diff_validate d = None \<and> table_get (st_diffs s) (diff_id d) = None)"
  by (simp add: PutDiff_def)

lemma PutRun_cases:
  "(\<exists>err. PutRun c r s = (Some err, s))
   \<or> (PutRun c r s = (None, s\<lparr>st_runs := table_put (run_id r) r (st_runs s)\<rparr>) \<and> \<not> c
      \<and> run_validate r = None \<and> table_get (st_runs s) (run_id r) = None \<and> run_backed s r)"
  by (cases "table_get (st_runs s) (run_baseline r)") (simp_all add: PutRun_def run_backed_def)

lemma TransitionRun_cases:
  "(\<exists>err. TransitionRun c from r s = (Some err, s))
   \<or> (\<exists>stored. TransitionRun c from r s = (None, s\<lparr>st_runs := table_put (run_id r) r (st_runs s)\<rparr>) \<and> \<not> c
      \<and> CanTransitionReplayRun from (run_status r) \<and> run_validate r = None
      \<and> table_get (st_runs s) (run_id r) = Some stored \<and> run_status stored = from \<and> same_identity stored r)"
  by (cases "table_get (st_runs s) (run_id r)") (simp_all add: TransitionRun_def)

lemma ClaimRun_cases:
  "(\<exists>err. ClaimRun c now k l s = (Inl err, s))
   \<or> (\<exists>r. ClaimRun c now k l s = (Inr (r\<lparr>run_status := ReplayRunValidating\<rparr>),
        s\<lparr>st_runs := table_put k (r\<lparr>run_status := ReplayRunValidating\<rparr>) (st_runs s),
          st_leases := table_put k (add_nanos now l) (st_leases s)\<rparr>) \<and> \<not> c
      \<and> table_get (st_runs s) k = Some r \<and> run_status r = ReplayRunCreated)"
  by (cases "table_get (st_runs s) k") (simp_all add: ClaimRun_def Let_def)

lemma RenewLease_cases:
  "(\<exists>err. RenewLease c now k l s = (Some err, s))
   \<or> RenewLease c now k l s = (None, s\<lparr>st_leases := table_put k (add_nanos now l) (st_leases s)\<rparr>)"
  by (simp add: RenewLease_def)

lemma store_ok_new: "store_ok NewStore"
  by (simp add: store_ok_def NewStore_def tab.all_entries_empty)

lemma incident_backed_extends: "extends s s' \<Longrightarrow> incident_backed s i \<Longrightarrow> incident_backed s' i"
proof -
  assume ext: "extends s s'" and "incident_backed s i"
  then obtain g events out where g: "table_get (st_graphs s) (inc_graph i) = Some g"
      "graph_incident g = inc_id i" "map_result (node_lookup s i) (graph_nodes g) = Inr events"
      "set (inc_evidence i) \<subseteq> set (node_ids (graph_nodes g))" "Order events g = Inr out"
    by (auto simp: incident_backed_def)
  have "node_lookup s i n = Inr e \<Longrightarrow> node_lookup s' i n = Inr e" for n e
    using ext by (auto simp: node_lookup_def extends_def sub_table_def split: option.splits if_splits)
  moreover have "map (node_lookup s i) (graph_nodes g) = map Inr events"
    using g(3) by (simp add: map_result_Inr_iff)
  ultimately have "map (node_lookup s' i) (graph_nodes g) = map Inr events"
    by (simp add: list_eq_iff_nth_eq)
  moreover have "table_get (st_graphs s') (inc_graph i) = Some g"
    using ext g(1) by (simp add: extends_def sub_table_def)
  ultimately show ?thesis using g by (auto simp: incident_backed_def map_result_Inr_iff)
qed

lemma run_backed_extends: "extends s s' \<Longrightarrow> run_backed s r \<Longrightarrow> run_backed s' r"
proof -
  assume ext: "extends s s'" and backed: "run_backed s r"
  have "\<exists>b. table_get (st_runs s') (run_baseline r) = Some b \<and> eligible_baseline b r"
    if kind: "run_kind r = RunTypeWhatIf"
  proof -
    from backed kind obtain b where b: "table_get (st_runs s) (run_baseline r) = Some b" "eligible_baseline b r"
      by (auto simp: run_backed_def)
    with ext obtain b' where b': "table_get (st_runs s') (run_baseline r) = Some b'" "run_later b b'"
      by (auto simp: extends_def)
    have "terminal_status (run_status b)" using b(2) by (simp add: eligible_baseline_def terminal_status_def)
    with b'(2) have "b' = b" by (rule run_later_terminal)
    with b(2) b'(1) show ?thesis by auto
  qed
  then show ?thesis by (simp add: run_backed_def)
qed

lemma run_backed_same: "same_identity a b \<Longrightarrow> run_backed s a \<Longrightarrow> run_backed s b"
  by (auto simp: run_backed_def same_identity_def eligible_baseline_def)

lemma claimed_valid:
  assumes "run_validate r = None" and "run_status r = ReplayRunCreated"
  shows "run_validate (r\<lparr>run_status := ReplayRunValidating\<rparr>) = None"
  using assms
  by (auto simp: run_validate_None_iff run_header_check_def run_kind_check_def run_intervention_check_def
      run_evidence_check_def run_times_check_def run_result_check_def run_error_check_def
      terminal_status_def validRunStatus_def)

text \<open>The frame: the tables an operation does not touch.\<close>

lemma all_entries_mono:
  "tab.all_entries P t \<Longrightarrow> (\<And>k v. P k v \<Longrightarrow> Q k v) \<Longrightarrow> tab.all_entries Q t"
  by (simp add: tab.all_entries_def)

lemma store_ok_extends:
  assumes "store_ok s" and ext: "extends s s'"
  shows "tab.all_entries (incident_row s') (st_incidents s)"
    and "tab.all_entries (run_row s') (st_runs s)"
  using assms(1) incident_backed_extends [OF ext] run_backed_extends [OF ext]
  by (auto simp: store_ok_def row_defs elim!: all_entries_mono)

lemma store_ok_get_run: "store_ok s \<Longrightarrow> table_get (st_runs s) k = Some r \<Longrightarrow> run_row s k r"
  unfolding store_ok_def by (metis tab.all_entriesD)

lemma put_run_extends:
  assumes "case table_get (st_runs s) k of None \<Rightarrow> True | Some r0 \<Rightarrow> run_later r0 r"
  shows "extends s (s\<lparr>st_runs := table_put k r (st_runs s), st_leases := ls\<rparr>)"
  using assms by (auto simp: extends_def split: option.splits)

lemma put_run_ok:
  assumes ok: "store_ok s" and later: "case table_get (st_runs s) (run_id r) of None \<Rightarrow> True | Some r0 \<Rightarrow> run_later r0 r"
    and row: "run_validate r = None" "run_backed s r"
  shows "store_ok (s\<lparr>st_runs := table_put (run_id r) r (st_runs s), st_leases := ls\<rparr>)"
proof -
  let ?s = "s\<lparr>st_runs := table_put (run_id r) r (st_runs s), st_leases := ls\<rparr>"
  have ext: "extends s ?s" by (rule put_run_extends [OF later])
  have "run_row ?s (run_id r) r" using row run_backed_extends [OF ext] by (simp add: run_row_def)
  with store_ok_extends [OF ok ext] ok show ?thesis
    by (simp add: store_ok_def tab.all_entries_put)
qed

lemma ClaimRun_step:
  assumes ok: "store_ok s"
  shows "extends s (snd (ClaimRun c now k l s)) \<and> store_ok (snd (ClaimRun c now k l s))"
  using ClaimRun_cases [of c now k l s]
proof (elim disjE exE conjE)
  fix r :: replay_run
  let ?r = "r\<lparr>run_status := ReplayRunValidating\<rparr>"
  assume run: "ClaimRun c now k l s = (Inr ?r, s\<lparr>st_runs := table_put k ?r (st_runs s),
      st_leases := table_put k (add_nanos now l) (st_leases s)\<rparr>)"
    and r: "table_get (st_runs s) k = Some r" "run_status r = ReplayRunCreated"
  from store_ok_get_run [OF ok r(1)] have row: "run_id r = k" "run_validate r = None" "run_backed s r"
    by (simp_all add: run_row_def)
  have same: "same_identity r ?r" by (simp add: same_identity_def)
  then have later: "run_later r ?r" using r(2) by (auto simp: run_later_def)
  have ext: "extends s (snd (ClaimRun c now k l s))"
    unfolding run snd_conv by (rule put_run_extends) (simp add: r(1) later)
  have "store_ok (s\<lparr>st_runs := table_put (run_id ?r) ?r (st_runs s),
      st_leases := table_put k (add_nanos now l) (st_leases s)\<rparr>)"
    by (rule put_run_ok [OF ok])
      (use r row later claimed_valid run_backed_same [OF same] in simp_all)
  with ext run row(1) show ?thesis by simp
qed (simp add: ok)

lemma PutRun_step:
  assumes ok: "store_ok s"
  shows "extends s (snd (PutRun c r s)) \<and> store_ok (snd (PutRun c r s))"
  using PutRun_cases [of c r s]
proof (elim disjE exE conjE)
  assume run: "PutRun c r s = (None, s\<lparr>st_runs := table_put (run_id r) r (st_runs s)\<rparr>)"
    and new: "run_validate r = None" "table_get (st_runs s) (run_id r) = None" "run_backed s r"
  show ?thesis
    unfolding run snd_conv
    using put_run_extends [where s = s and k = "run_id r" and r = r and ls = "st_leases s"] put_run_ok [OF ok, where r = r and ls = "st_leases s"] new
    by simp
qed (simp add: ok)

lemma TransitionRun_step:
  assumes ok: "store_ok s"
  shows "extends s (snd (TransitionRun c from r s)) \<and> store_ok (snd (TransitionRun c from r s))"
  using TransitionRun_cases [of c "from" r s]
proof (elim disjE exE conjE)
  fix stored
  assume run: "TransitionRun c from r s = (None, s\<lparr>st_runs := table_put (run_id r) r (st_runs s)\<rparr>)"
    and legal: "CanTransitionReplayRun from (run_status r)" "run_validate r = None"
      "table_get (st_runs s) (run_id r) = Some stored" "run_status stored = from" "same_identity stored r"
  from store_ok_get_run [OF ok legal(3)] have row: "run_id stored = run_id r" "run_backed s stored"
    by (simp_all add: run_row_def)
  have later: "run_later stored r" using legal row(1) by (auto simp: run_later_def)
  show ?thesis
    unfolding run snd_conv
    using put_run_extends [where s = s and k = "run_id r" and r = r and ls = "st_leases s"] put_run_ok [OF ok, where r = r and ls = "st_leases s"]
      later legal run_backed_same [OF legal(5) row(2)] by simp
qed (simp add: ok)

lemma IngestEvent_step:
  assumes ok: "store_ok s"
  shows "extends s (snd (IngestEvent c e s)) \<and> store_ok (snd (IngestEvent c e s))"
  using IngestEvent_cases [of c e s]
proof (elim disjE exE conjE)
  assume run: "IngestEvent c e s = (None, s\<lparr>st_events := table_put (ev_id e) e (st_events s)\<rparr>)"
    and new: "event_validate e = None" "table_get (st_events s) (ev_id e) = None"
  let ?s = "s\<lparr>st_events := table_put (ev_id e) e (st_events s)\<rparr>"
  have ext: "extends s ?s" using new(2) by (auto simp: extends_def sub_table_put)
  moreover have "tab.all_entries event_row (st_events ?s)"
    using ok new(1) by (simp add: store_ok_def event_row_def tab.all_entries_put)
  ultimately show ?thesis
    unfolding run snd_conv using ok store_ok_extends [OF ok ext] by (simp add: store_ok_def)
qed (simp add: ok)

lemma PutIncident_step:
  assumes ok: "store_ok s"
  shows "extends s (snd (PutIncident c i g s)) \<and> store_ok (snd (PutIncident c i g s))"
  using PutIncident_cases [of c i g s]
proof (elim disjE exE conjE)
  let ?s = "s\<lparr>st_incidents := table_put (inc_id i) i (st_incidents s),
              st_graphs := table_put (graph_id g) g (st_graphs s)\<rparr>"
  fix events out
  assume run: "PutIncident c i g s = (None, ?s)"
    and new: "incident_validate i = None" "graph_validate g = None" "graph_incident g = inc_id i"
      "inc_graph i = graph_id g" "table_get (st_incidents s) (inc_id i) = None"
      "table_get (st_graphs s) (graph_id g) = None"
      "set (inc_evidence i) \<subseteq> set (node_ids (graph_nodes g))"
      "map_result (node_lookup s i) (graph_nodes g) = Inr events" "Order events g = Inr out"
  have ext: "extends s ?s" using new(5,6) by (auto simp: extends_def sub_table_put)
  have "node_lookup ?s i = node_lookup s i" by (simp add: node_lookup_def fun_eq_iff)
  with new have "incident_row ?s (inc_id i) i" by (auto simp: incident_row_def incident_backed_def)
  then have "tab.all_entries (incident_row ?s) (st_incidents ?s)"
    using store_ok_extends(1) [OF ok ext] by (simp add: tab.all_entries_put)
  moreover have "tab.all_entries graph_row (st_graphs ?s)"
    using ok new(2) by (simp add: store_ok_def graph_row_def tab.all_entries_put)
  moreover have "tab.all_entries (run_row ?s) (st_runs ?s)" using store_ok_extends(2) [OF ok ext] by simp
  ultimately show ?thesis
    unfolding run snd_conv using ok ext by (simp add: store_ok_def)
qed (simp add: ok)

lemma PutCapsule_step:
  assumes ok: "store_ok s"
  shows "extends s (snd (PutCapsule c p s)) \<and> store_ok (snd (PutCapsule c p s))"
  using PutCapsule_cases [of c p s]
proof (elim disjE exE conjE)
  let ?s = "s\<lparr>st_capsules := table_put (cap_id p) p (st_capsules s)\<rparr>"
  assume run: "PutCapsule c p s = (None, ?s)"
    and new: "capsule_validate p = None" "table_get (st_capsules s) (cap_id p) = None"
  have ext: "extends s ?s" using new(2) by (auto simp: extends_def sub_table_put)
  moreover have "tab.all_entries capsule_row (st_capsules ?s)"
    using ok new(1) by (simp add: store_ok_def capsule_row_def tab.all_entries_put)
  ultimately show ?thesis
    unfolding run snd_conv using ok store_ok_extends [OF ok ext] by (simp add: store_ok_def)
qed (simp add: ok)

lemma PutDiff_step:
  assumes ok: "store_ok s"
  shows "extends s (snd (PutDiff c d s)) \<and> store_ok (snd (PutDiff c d s))"
  using PutDiff_cases [of c d s]
proof (elim disjE exE conjE)
  let ?s = "s\<lparr>st_diffs := table_put (diff_id d) d (st_diffs s)\<rparr>"
  assume run: "PutDiff c d s = (None, ?s)"
    and new: "diff_validate d = None" "table_get (st_diffs s) (diff_id d) = None"
  have ext: "extends s ?s" using new(2) by (auto simp: extends_def sub_table_put)
  moreover have "tab.all_entries diff_row (st_diffs ?s)"
    using ok new(1) by (simp add: store_ok_def diff_row_def tab.all_entries_put)
  ultimately show ?thesis
    unfolding run snd_conv using ok store_ok_extends [OF ok ext] by (simp add: store_ok_def)
qed (simp add: ok)

lemma RenewLease_step:
  assumes ok: "store_ok s"
  shows "extends s (snd (RenewLease c now k l s)) \<and> store_ok (snd (RenewLease c now k l s))"
proof -
  have "extends s (s\<lparr>st_leases := ls\<rparr>)" for ls by (auto simp: extends_def)
  with RenewLease_cases [of c now k l s] store_ok_extends [OF ok] ok show ?thesis
    by (elim disjE exE) (simp_all add: store_ok_def)
qed

lemma Reset_step: "store_ok s \<Longrightarrow> store_ok (snd (Reset c s))"
  by (cases c) (simp_all add: Reset_def store_ok_def tab.all_entries_empty)

lemmas step_facts = IngestEvent_step PutIncident_step PutCapsule_step PutRun_step TransitionRun_step
  ClaimRun_step RenewLease_step PutDiff_step

lemma apply_op_extends: "store_ok s \<Longrightarrow> \<not> is_reset op \<Longrightarrow> extends s (apply_op op s)"
  using step_facts [of s] by (cases op) (auto simp: is_reset_def Reset_def)

lemma apply_op_ok: "store_ok s \<Longrightarrow> store_ok (apply_op op s)"
  using step_facts [of s] Reset_step [of s] by (cases op) auto

section \<open>Reachable stores\<close>

inductive reachable :: "store \<Rightarrow> bool" where
  start: "reachable NewStore"
| step: "reachable s \<Longrightarrow> reachable (apply_op op s)"

lemma reachable_ok: "reachable s \<Longrightarrow> store_ok s"
  by (induction rule: reachable.induct) (simp_all add: store_ok_new apply_op_ok)

text \<open>What some operations do to a store, one after the other.\<close>

definition apply_ops :: "store_op list \<Rightarrow> store \<Rightarrow> store" where
  "apply_ops ops s = fold apply_op ops s"

lemma apply_ops_ok: "store_ok s \<Longrightarrow> store_ok (apply_ops ops s)"
  by (induction ops arbitrary: s) (simp_all add: apply_ops_def apply_op_ok)

lemma reachable_apply_ops: "reachable s \<Longrightarrow> reachable (apply_ops ops s)"
  by (induction ops arbitrary: s) (simp_all add: apply_ops_def reachable.step)

lemma apply_ops_extends:
  "store_ok s \<Longrightarrow> list_all (\<lambda>op. \<not> is_reset op) ops \<Longrightarrow> extends s (apply_ops ops s)"
proof (induction ops arbitrary: s)
  case (Cons op ops)
  then show ?case
    using apply_op_extends [of s op] apply_op_ok [of s op] extends_trans
    by (fastforce simp: apply_ops_def)
qed (simp add: apply_ops_def)

end
