(* ===== verification/Differential.thy ===== *)
theory Differential
  imports Pack Store
begin

text \<open>
  internal/differential/differential.go: the analyser that builds a replay diff from two completed runs.
  The store it reads is three functions (\<open>GetRun\<close>, \<open>EventsForRun\<close>, \<open>GraphsForRun\<close>), the pack is a
  record of theory Pack. A nil pointer that the code dereferences is the error \<open>NilPointer\<close>.
\<close>

datatype diff_error =
    Prerequisites string
  | DiffStore store_error
  | DiffOrder graph_error
  | DiffPack pack_error
  | InvalidDiff contract_error
  | NilPointer

section \<open>The first divergence\<close>

text \<open>\<open>indexByEventID\<close>: a later event with the same id overwrites the index of an earlier one.\<close>

definition index_by_id :: "execution_event list \<Rightarrow> string \<Rightarrow> nat option" where
  "index_by_id es = map_of (rev (zip (map ev_id es) [0..<length es]))"

type_synonym candidate = "event_change \<times> nat \<times> nat"

definition change_candidates :: "execution_event list \<Rightarrow> execution_event list \<Rightarrow> event_change list
    \<Rightarrow> candidate list" where
  "change_candidates bs cs changes =
     concat (map (\<lambda>ch. case (index_by_id bs (ch_baseline ch), index_by_id cs (ch_comparison ch)) of
         (Some i, Some j) \<Rightarrow> [(ch, i, j)] | _ \<Rightarrow> []) changes)"

definition candidate_less :: "candidate \<Rightarrow> candidate \<Rightarrow> bool" where
  "candidate_less a b =
     (case (a, b) of ((ch, i, j), (ch', i', j')) \<Rightarrow>
        if i \<noteq> i' then i < i' else if j \<noteq> j' then j < j' else ch_field ch < ch_field ch')"

definition FirstDivergenceFrom :: "execution_event list \<Rightarrow> execution_event list \<Rightarrow> event_change list
    \<Rightarrow> first_divergence option" where
  "FirstDivergenceFrom bs cs changes =
     (case sort_by candidate_less (change_candidates bs cs changes) of
        [] \<Rightarrow> None
      | (ch, i, j) # _ \<Rightarrow>
          Some \<lparr>dv_baseline = ch_baseline ch, dv_comparison = ch_comparison ch, dv_rule = ch_field ch,
            dv_baseline_value = ch_baseline_value ch, dv_comparison_value = ch_comparison_value ch,
            dv_baseline_index = int i, dv_comparison_index = int j\<rparr>)"

section \<open>Texts\<close>

text \<open>\<open>strings.TrimSpace\<close>: the white-space rune at the head of a string, in bytes (0 for none).\<close>

definition space_len :: "string \<Rightarrow> nat" where
  "space_len s =
     (if s \<noteq> [] \<and> blank (take 1 s) then 1
      else if 2 \<le> length s \<and> blank (take 2 s) then 2
      else if 3 \<le> length s \<and> blank (take 3 s) then 3 else 0)"

fun trim_left :: "nat \<Rightarrow> string \<Rightarrow> string" where
  "trim_left 0 s = s"
| "trim_left (Suc n) s = (if space_len s = 0 then s else trim_left n (drop (space_len s) s))"

definition space_end :: "string \<Rightarrow> nat" where
  "space_end s =
     (if \<exists>k\<in>{1, 2, 3}. k \<le> length s \<and> space_len (drop (length s - k) s) = k
      then (if blank (drop (length s - 1) s) then 1
            else if blank (drop (length s - 2) s) then 2 else 3)
      else 0)"

fun trim_right :: "nat \<Rightarrow> string \<Rightarrow> string" where
  "trim_right 0 s = s"
| "trim_right (Suc n) s =
     (if s = [] \<or> space_end s = 0 then s else trim_right n (take (length s - space_end s) s))"

definition trim_space :: "string \<Rightarrow> string" where
  "trim_space s = trim_right (length s) (trim_left (length s) s)"

definition Limitations :: "string \<Rightarrow> string list" where
  "Limitations version =
     (let v = trim_space version
      in if v = [] then [''Applies to differential analyzer fixtures.'']
         else [''Applies to '' @ v @ '' fixtures.''])"

definition counts_text :: "string \<Rightarrow> effect_summary \<Rightarrow> effect_summary \<Rightarrow> event_alignment list
    \<Rightarrow> string list \<Rightarrow> string list \<Rightarrow> event_change list \<Rightarrow> string" where
  "counts_text intro b c matched added removed changed =
     intro @ nat_dec (length matched) @ '' matched, '' @ nat_dec (length added) @ '' added, ''
     @ nat_dec (length removed) @ '' removed, '' @ nat_dec (length changed) @ '' changed. Effect delta ''
     @ int_dec_signed (payment_attempts c - payment_attempts b) @ '' payment attempts, ''
     @ int_dec_signed (ledger_commits c - ledger_commits b) @ '' ledger commits.''"

definition evidenceSummary :: "effect_summary \<Rightarrow> effect_summary \<Rightarrow> event_alignment list
    \<Rightarrow> string list \<Rightarrow> string list \<Rightarrow> event_change list \<Rightarrow> string" where
  "evidenceSummary = counts_text ''What-if reconstruction changed the event stream: ''"

section \<open>Build\<close>

definition verifyPrerequisites :: "replay_run \<Rightarrow> replay_run \<Rightarrow> diff_error option" where
  "verifyPrerequisites b c =
     (if run_status b \<noteq> ReplayRunCompleted then Some (Prerequisites ''baseline must be COMPLETED'')
      else if run_outcome b \<noteq> ReplayOutcomeReproduced
        then Some (Prerequisites ''baseline outcome must be REPRODUCED'')
      else if run_status c \<noteq> ReplayRunCompleted then Some (Prerequisites ''comparison must be COMPLETED'')
      else if run_kind c \<noteq> RunTypeWhatIf then Some (Prerequisites ''comparison must be a WHAT_IF run'')
      else if run_baseline c \<noteq> run_id b
        then Some (Prerequisites ''comparison baseline_run_id must match the baseline run'')
      else if run_capsule_hash c \<noteq> run_capsule_hash b
        then Some (Prerequisites ''compared runs must share the same capsule hash'')
      else if run_intervention c = None
        then Some (Prerequisites ''comparison must record exactly one intervention'')
      else None)"

record diff_source =
  src_run :: "string \<Rightarrow> store_error + replay_run"
  src_events :: "replay_run \<Rightarrow> store_error + execution_event list"
  src_graph :: "replay_run \<Rightarrow> store_error + execution_graph"

definition loadOrderedEvents :: "diff_source \<Rightarrow> replay_run
    \<Rightarrow> diff_error + execution_event list \<times> execution_graph" where
  "loadOrderedEvents src run =
     bind_result (map_sum DiffStore id (src_events src run)) (\<lambda>raw.
     bind_result (map_sum DiffStore id (src_graph src run)) (\<lambda>g.
     bind_result (map_sum DiffOrder id (Order raw g)) (\<lambda>ordered. Inr (ordered, g))))"

definition effects_or_zero :: "replay_run \<Rightarrow> effect_summary" where
  "effects_or_zero run =
     (case run_effects run of None \<Rightarrow> \<lparr>payment_attempts = 0, ledger_commits = 0\<rparr> | Some e \<Rightarrow> e)"

definition effects_delta :: "effect_summary \<Rightarrow> effect_summary \<Rightarrow> effect_delta" where
  "effects_delta b c = \<lparr>delta_attempts = payment_attempts c - payment_attempts b,
     delta_commits = ledger_commits c - ledger_commits b\<rparr>"

text \<open>
  The divergence: generic, else what the pack's \<open>Compare\<close> says, none for an inconclusive run. An error of
  \<open>Compare\<close> is dropped by the code, a panic is not.
\<close>

definition divergence_of :: "system_pack \<Rightarrow> string \<Rightarrow> replay_execution \<Rightarrow> replay_execution
    \<Rightarrow> event_change list \<Rightarrow> diff_error + first_divergence option" where
  "divergence_of pack k b c changes =
     (if run_outcome (ex_run c) = ReplayOutcomeInconclusive then Inr None
      else case FirstDivergenceFrom (ex_events b) (ex_events c) changes of Some d \<Rightarrow> Inr (Some d)
      | None \<Rightarrow> (case pk_compare pack k b c of
            Inl PackPanic \<Rightarrow> Inl (DiffPack PackPanic)
          | Inl (PackError m) \<Rightarrow> Inr None
          | Inr full \<Rightarrow> Inr (diff_divergence full)))"

text \<open>The diff of two executions, once aligned.\<close>

definition assemble_diff :: "system_pack \<Rightarrow> string \<Rightarrow> replay_execution \<Rightarrow> replay_execution \<Rightarrow> alignment
    \<Rightarrow> diff_error + replay_diff" where
  "assemble_diff pack k b c a =
     (case a of (matched, added, removed, changed) \<Rightarrow>
      (case (run_intervention (ex_run c), run_oracle (ex_run b), run_oracle (ex_run c)) of
         (Some i, Some ob, Some oc) \<Rightarrow>
           bind_result (divergence_of pack k b c (elems changed)) (\<lambda>v.
           let eb = effects_or_zero (ex_run b); ec = effects_or_zero (ex_run c);
                d = \<lparr>diff_schema = ContractVersion, diff_id = k, diff_baseline = run_id (ex_run b),
                  diff_comparison = run_id (ex_run c), diff_alignment = ContractVersion,
                  diff_intervention = i, diff_baseline_oracle = ob, diff_comparison_oracle = oc,
                  diff_matched = matched, diff_added = added, diff_removed = removed,
                  diff_changed = changed,
                  diff_divergence = v,
                  diff_baseline_effects = eb, diff_comparison_effects = ec,
                  diff_delta = effects_delta eb ec,
                  diff_evidence = evidenceSummary eb ec (elems matched) (elems added) (elems removed) (elems changed),
                  diff_limitations = Some (Limitations [])\<rparr>
            in case diff_validate d of Some e \<Rightarrow> Inl (InvalidDiff e) | None \<Rightarrow> Inr d)
       | _ \<Rightarrow> Inl NilPointer))"

definition Build :: "diff_source \<Rightarrow> string \<Rightarrow> string \<Rightarrow> string \<Rightarrow> system_pack \<Rightarrow> diff_error + replay_diff" where
  "Build src k bid cid pack =
     (if k = [] \<or> bid = [] \<or> cid = [] \<or> bid = cid
      then Inl (Prerequisites ''diff ids must be distinct and non-empty'')
      else
        bind_result (map_sum DiffStore id (src_run src bid)) (\<lambda>b.
        bind_result (map_sum DiffStore id (src_run src cid)) (\<lambda>c.
        if run_kind b \<noteq> RunTypeBaseline then Inl (Prerequisites ''baseline must be a BASELINE run'')
        else case verifyPrerequisites b c of Some e \<Rightarrow> Inl e
        | None \<Rightarrow>
          bind_result (loadOrderedEvents src b) (\<lambda>(bes, bg).
          bind_result (loadOrderedEvents src c) (\<lambda>(ces, cg).
            let bx = \<lparr>ex_run = b, ex_events = bes, ex_graph = bg\<rparr>;
                cx = \<lparr>ex_run = c, ex_events = ces, ex_graph = cg\<rparr>
            in bind_result (map_sum DiffPack id (pk_align pack k bx cx))
                 (assemble_diff pack k bx cx))))))"

end
