(* ===== verification/CheckoutPack.thy ===== *)
theory CheckoutPack
  imports Differential
begin

text \<open>
  The System Pack of the golden scenario, internal/systempack/checkout: the duplicate-effect oracle,
  the fixtures and the plan, the latency intervention, capsule checks, event alignment and diffs.
  \<open>sha256_hex\<close> (crypto/sha256 with hexadecimal printing) and the JSON decoder of \<open>Normalize\<close> are
  parameters.
\<close>

section \<open>Oracle (oracle.go)\<close>

definition oracleRef :: failure_oracle_ref where
  "oracleRef = \<lparr>oracle_id = ''duplicate_ledger_effect'', oracle_version = ''1.0.0''\<rparr>"

definition eventsForLogicalOperation :: "execution_event list \<Rightarrow> string \<Rightarrow> execution_event list" where
  "eventsForLogicalOperation es k = filter (\<lambda>e. ev_logical_op e = k) es"

definition sequence_less :: "execution_event \<Rightarrow> execution_event \<Rightarrow> bool" where
  "sequence_less a b =
     (if ev_sequence a \<noteq> ev_sequence b then ev_sequence a < ev_sequence b else ev_id a < ev_id b)"

definition sortEvents :: "execution_event list \<Rightarrow> execution_event list" where
  "sortEvents es = sort_by sequence_less es"

text \<open>The variables of the loop in \<open>evaluate\<close>.\<close>

record oracle_scan =
  sc_timeout :: bool
  sc_retry :: bool
  sc_max_attempt :: int
  sc_timeout_id :: string
  sc_retry_id :: string
  sc_attempts :: "int list"
  sc_committed :: "execution_event list"

definition scan_start :: oracle_scan where
  "scan_start = \<lparr>sc_timeout = False, sc_retry = False, sc_max_attempt = 0, sc_timeout_id = [],
     sc_retry_id = [], sc_attempts = [], sc_committed = []\<rparr>"

definition effect_committed :: "execution_event \<Rightarrow> bool" where
  "effect_committed e = (lookup_key (ev_attributes e) ''effect_committed'' = Some (VBool True))"

definition scan_event :: "execution_event \<Rightarrow> oracle_scan \<Rightarrow> oracle_scan" where
  "scan_event e sc0 =
     (let sc = (if sc_max_attempt sc0 < ev_attempt e then sc0\<lparr>sc_max_attempt := ev_attempt e\<rparr> else sc0)
      in case ev_type e of
        EventTimeout \<Rightarrow> sc\<lparr>sc_timeout := True,
          sc_timeout_id := (if sc_timeout_id sc = [] then ev_id e else sc_timeout_id sc)\<rparr>
      | EventRetry \<Rightarrow> sc\<lparr>sc_retry := True,
          sc_retry_id := (if sc_retry_id sc = [] then ev_id e else sc_retry_id sc)\<rparr>
      | EventStart \<Rightarrow>
          (if op_kind (ev_operation e) = OperationDependency
           then sc\<lparr>sc_attempts := List.insert (ev_attempt e) (sc_attempts sc)\<rparr> else sc)
      | EventEffect \<Rightarrow>
          (if effect_committed e then sc\<lparr>sc_committed := sc_committed sc @ [e]\<rparr> else sc)
      | _ \<Rightarrow> sc)"

definition scan_matched :: "oracle_scan \<Rightarrow> bool" where
  "scan_matched sc \<longleftrightarrow>
     sc_timeout sc \<and> sc_retry sc \<and> 2 \<le> sc_max_attempt sc \<and> 2 \<le> length (sc_committed sc)"

definition explainMismatch :: "oracle_scan \<Rightarrow> string" where
  "explainMismatch sc =
     (if \<not> sc_timeout sc then ''no checkout timeout event was observed''
      else if \<not> sc_retry sc then ''no retry event was observed''
      else if sc_max_attempt sc < 2 then ''no attempt >= 2 was observed''
      else if length (sc_committed sc) < 2 then ''fewer than two committed ledger effects were observed''
      else ''oracle evidence incomplete'')"

definition scan_result :: "string \<Rightarrow> execution_event list \<Rightarrow> oracle_result" where
  "scan_result k es =
     (let group = eventsForLogicalOperation es k; sc = fold scan_event group scan_start;
          committed = sortEvents (sc_committed sc);
          effects = \<lparr>payment_attempts = int (length (sc_attempts sc)),
                     ledger_commits = int (length committed)\<rparr>
      in if scan_matched sc
         then \<lparr>or_oracle = oracleRef, or_matched = True, or_effects = effects,
           or_evidence = Some ([sc_timeout_id sc, sc_retry_id sc] @ map ev_id committed),
           or_explanation = ''One logical checkout ('' @ k @ '') produced '' @ nat_dec (length committed)
             @ '' committed ledger effects after a timeout-driven retry.''\<rparr>
         else \<lparr>or_oracle = oracleRef, or_matched = False, or_effects = effects,
           or_evidence = Some (map ev_id (sortEvents group)),
           or_explanation = k @ '': '' @ explainMismatch sc\<rparr>)"

text \<open>The logical operations in the order of their first event.\<close>

definition distinct_ids :: "execution_event list \<Rightarrow> string list" where
  "distinct_ids es = rev (fold (\<lambda>e. List.insert (ev_logical_op e)) es [])"

lemma set_distinct_ids [simp]: "set (distinct_ids es) = ev_logical_op ` set es"
proof -
  have "set (fold (\<lambda>e. List.insert (ev_logical_op e)) es acc) = ev_logical_op ` set es \<union> set acc" for acc
    by (induction es arbitrary: acc) auto
  from this [of "[]"] show ?thesis by (simp add: distinct_ids_def)
qed

lemma distinct_distinct_ids [simp]: "distinct (distinct_ids es)"
proof -
  have "distinct acc \<Longrightarrow> distinct (fold (\<lambda>e. List.insert (ev_logical_op e)) es acc)" for acc
    by (induction es arbitrary: acc) simp_all
  from this [of "[]"] show ?thesis by (simp add: distinct_ids_def)
qed

text \<open>
  \<open>evaluate\<close> and \<open>selectLogicalOperationID\<close> call each other: the second evaluates the group of each
  operation, which has one operation only. An empty slice makes the second panic (\<open>ids[0]\<close>).
\<close>

function evaluate :: "execution_event list \<Rightarrow> pack_error + oracle_result"
  and selectLogicalOperationID :: "execution_event list \<Rightarrow> string option" where
  "evaluate es =
     (if es = [] then Inl (PackError ''checkout: no evidence to evaluate'')
      else case selectLogicalOperationID es of None \<Rightarrow> Inl PackPanic
      | Some k \<Rightarrow> Inr (scan_result k es))"
| "selectLogicalOperationID es =
     (if length (distinct_ids es) = 1 then Some (hd (distinct_ids es))
      else let ids = sort_strings (distinct_ids es)
      in case find (\<lambda>k. case evaluate (eventsForLogicalOperation es k) of
            Inl _ \<Rightarrow> False | Inr r \<Rightarrow> or_matched r) ids of
          Some k \<Rightarrow> Some k
        | None \<Rightarrow> (case ids of [] \<Rightarrow> None | k # _ \<Rightarrow> Some k))"
  by pat_completeness auto

lemma group_ids:
  "k \<in> set (distinct_ids es) \<Longrightarrow> length (distinct_ids (eventsForLogicalOperation es k)) = 1"
proof -
  assume "k \<in> set (distinct_ids es)"
  then have "set (distinct_ids (eventsForLogicalOperation es k)) = {k}"
    by (auto simp: eventsForLogicalOperation_def)
  moreover have "length (distinct_ids (eventsForLogicalOperation es k))
      = card (set (distinct_ids (eventsForLogicalOperation es k)))"
    by (simp only: distinct_card distinct_distinct_ids)
  ultimately show ?thesis by simp
qed

termination evaluate
proof (relation "measure (\<lambda>x. case x of Inl es \<Rightarrow> 2 * length (distinct_ids es) + 1
      | Inr es \<Rightarrow> 2 * length (distinct_ids es))", goal_cases)
  case (3 es ids k)
  then have k: "k \<in> set (distinct_ids es)" by (simp add: sort_strings_def)
  then have "distinct_ids es \<noteq> []" by (metis empty_iff empty_set)
  with 3(1) have "2 \<le> length (distinct_ids es)" by (cases "distinct_ids es"; cases "tl (distinct_ids es)") auto
  with group_ids [OF k] show ?case by simp
qed simp_all

declare evaluate.simps [simp del] selectLogicalOperationID.simps [simp del]

definition quickMatches :: "execution_event list \<Rightarrow> bool" where
  "quickMatches es = (case evaluate es of Inl _ \<Rightarrow> False | Inr r \<Rightarrow> or_matched r)"

section \<open>Interventions (intervention.go)\<close>

definition paymentLatencySpec :: intervention_spec where
  "paymentLatencySpec = \<lparr>ispec_type = InterventionPaymentLatency,
     ispec_value_type = InterventionValueInteger, ispec_unit = InterventionUnitMilliseconds,
     ispec_min = 0, ispec_max = 5000\<rparr>"

definition ApplyIntervention :: "replay_plan \<Rightarrow> intervention \<Rightarrow> pack_error + replay_plan" where
  "ApplyIntervention plan i =
     (if iv_type i \<noteq> ispec_type paymentLatencySpec
      then Inl (PackError ''checkout: unsupported intervention type'')
      else if iv_unit i \<noteq> ispec_unit paymentLatencySpec
      then Inl (PackError ''checkout: unsupported intervention unit'')
      else if iv_to i < ispec_min paymentLatencySpec \<or> ispec_max paymentLatencySpec < iv_to i
      then Inl (PackError ''checkout: intervention value out of range'')
      else if iv_from i = iv_to i
      then Inl (PackError ''checkout: intervention from and to must differ'')
      else Inr (plan\<lparr>plan_components := append_nil (plan_components plan),
                     plan_load_order := append_nil (plan_load_order plan)\<rparr>))"

section \<open>Capsule checks (validate.go)\<close>

definition pathIndex :: "string \<Rightarrow> nat \<Rightarrow> string \<Rightarrow> string" where
  "pathIndex base i suffix = base @ ''/'' @ nat_dec i @ suffix"

definition fixture_issues :: "nat \<times> dependency_fixture \<Rightarrow> validation_issue list" where
  "fixture_issues p =
     (let i = fst p; f = snd p
      in if df_dependency f \<noteq> DependencyPaymentSimulator then []
         else (if df_latency f \<noteq> 350
               then [\<lparr>issue_code = SchemaInvalid, issue_path = pathIndex ''/dependency_fixtures'' i ''/latency_ms'',
                 issue_message = ''baseline payment dependency fixture must encode the golden 350ms latency''\<rparr>]
               else [])
            @ (if df_limit f \<noteq> 2
               then [\<lparr>issue_code = SchemaInvalid, issue_path = pathIndex ''/dependency_fixtures'' i ''/invocation_limit'',
                 issue_message = ''baseline payment dependency fixture must allow exactly 2 invocations (max attempts)''\<rparr>]
               else []))"

definition ValidateCapsule :: "replay_capsule \<Rightarrow> validation_issue list" where
  "ValidateCapsule c =
     (if list_ex (\<lambda>f. sf_id f = ''state-ledger-empty'') (cap_state_fixtures c) then []
      else [\<lparr>issue_code = FixtureMissing, issue_path = ''/state_fixtures'',
             issue_message = ''checkout_duplicate_effect requires the state-ledger-empty fixture''\<rparr>])
     @ (if cap_dependency_fixtures c = []
        then [\<lparr>issue_code = FixtureMissing, issue_path = ''/dependency_fixtures'',
               issue_message = ''checkout_duplicate_effect requires a payment_simulator dependency fixture''\<rparr>]
        else [])
     @ concat (map fixture_issues (enumerate 0 (cap_dependency_fixtures c)))"

section \<open>Fixtures and plan (fixtures.go)\<close>

text \<open>\<open>asInt\<close>, with \<open>int\<close> of 64 bits.\<close>

fun asInt :: "go_value \<Rightarrow> int option" where
  "asInt (VInt KInt n) = Some n"
| "asInt (VInt KInt32 n) = Some n"
| "asInt (VInt KInt64 n) = Some n"
| "asInt (VFloat f) =
     (if float_integral f \<and> - (2 ^ 63) \<le> float_int f \<and> float_int f < 2 ^ 63 then Some (float_int f)
      else None)"
| "asInt (VNumber s) = parse_int64 s"
| "asInt _ = None"

fun observedConfiguredLatencyMs :: "execution_event list \<Rightarrow> int" where
  "observedConfiguredLatencyMs [] = 350"
| "observedConfiguredLatencyMs (e # es) =
     (if ev_type e \<noteq> EventStart \<or> op_kind (ev_operation e) \<noteq> OperationDependency
      then observedConfiguredLatencyMs es
      else case lookup_key (ev_attributes e) ''configured_latency_ms'' of
          None \<Rightarrow> observedConfiguredLatencyMs es
        | Some v \<Rightarrow> (case asInt v of Some ms \<Rightarrow> ms | None \<Rightarrow> observedConfiguredLatencyMs es))"

definition observedPaymentAttemptCount :: "execution_event list \<Rightarrow> int" where
  "observedPaymentAttemptCount es =
     (case evaluate es of Inl _ \<Rightarrow> 2
      | Inr r \<Rightarrow> if 0 < payment_attempts (or_effects r) then payment_attempts (or_effects r) else 2)"

text \<open>The bytes of test/fixtures/golden/ledger_empty_state.json are a parameter, like the hash.\<close>

definition ExtractFixtures :: "(string \<Rightarrow> string) \<Rightarrow> string \<Rightarrow> execution_event list \<Rightarrow> pack_error + fixture_set" where
  "ExtractFixtures sha256_hex content es =
     (let latency = observedConfiguredLatencyMs es;
          attempts = observedPaymentAttemptCount es;
          limit = (if attempts < 1 then 1 else attempts)
      in case selectLogicalOperationID es of None \<Rightarrow> Inl PackPanic
      | Some k \<Rightarrow> Inr \<lparr>
          fs_state = [\<lparr>sf_id = ''state-ledger-empty'', sf_kind = StateFixturePostgresRowset,
            sf_ref = ''fixture://golden/ledger-empty-v1'', sf_digest = sha256_hex content,
            sf_sanitization = SanitizationPass, sf_reset = FixtureTruncateAndLoad\<rparr>],
          fs_dependency = [\<lparr>df_id = ''dependency-payment-'' @ int_dec latency @ ''ms'',
            df_dependency = DependencyPaymentSimulator,
            df_request = Some [(''logical_operation_id'', VStr k)],
            df_response = Some [(''status'', VStr ''APPROVED'')],
            df_latency = latency, df_failure_mode = FailureModeNone, df_limit = limit\<rparr>]\<rparr>)"

definition fixture_order :: "fixture_set \<Rightarrow> string list" where
  "fixture_order fs = map sf_id (fs_state fs) @ map df_id (fs_dependency fs)"

definition BuildReplayPlan :: "fixture_set \<Rightarrow> pack_error + replay_plan" where
  "BuildReplayPlan fs = Inr \<lparr>plan_entrypoint = ''gateway.checkout'',
     plan_components = Some [''gateway'', ''checkout'', ''payment'', ''ledger''],
     plan_load_order = Some (fixture_order fs), plan_reset = ReplayResetGoldenV1\<rparr>"

section \<open>Normalization (normalize.go)\<close>

text \<open>\<open>split\<close> is \<open>json.Unmarshal\<close> into raw messages, \<open>decode\<close> is \<open>contracts.DecodeStrict\<close>.\<close>

definition Normalize :: "(string \<Rightarrow> string list option) \<Rightarrow> (string \<Rightarrow> execution_event option)
    \<Rightarrow> raw_evidence \<Rightarrow> pack_error + execution_event list" where
  "Normalize split decode raw =
     (if raw_content_type raw \<noteq> ''application/json''
      then Inl (PackError ''checkout: unsupported content_type'')
      else case split (raw_payload raw) of
          None \<Rightarrow> Inl (PackError ''checkout: payload is not a JSON array of events'')
        | Some msgs \<Rightarrow>
            map_result (\<lambda>m. case decode m of
                None \<Rightarrow> Inl (PackError ''checkout: event does not match the ExecutionEvent contract'')
              | Some e \<Rightarrow> if event_validate e \<noteq> None then Inl (PackError ''checkout: event is invalid'')
                          else Inr e) msgs)"

section \<open>Alignment and diffs (compare.go)\<close>

type_synonym align_key = "string \<times> string \<times> event_type \<times> string \<times> int"

definition keyOf :: "execution_event \<Rightarrow> align_key" where
  "keyOf e = (comp_name (ev_component e), op_name (ev_operation e), ev_type e, ev_logical_op e, ev_attempt e)"

text \<open>The loop over the baseline: the candidate of the comparison each event takes, if any is left.\<close>

fun pair_up :: "execution_event list \<Rightarrow> (align_key \<Rightarrow> nat) \<Rightarrow> execution_event list
    \<Rightarrow> (execution_event \<times> execution_event option) list" where
  "pair_up cs consumed [] = []"
| "pair_up cs consumed (b # bs) =
     (let candidates = filter (\<lambda>c. keyOf c = keyOf b) cs; idx = consumed (keyOf b)
      in if length candidates \<le> idx then (b, None) # pair_up cs consumed bs
         else (b, Some (candidates ! idx)) # pair_up cs (consumed(keyOf b := idx + 1)) bs)"

definition pairs_matched :: "(execution_event \<times> execution_event option) list \<Rightarrow> (execution_event \<times> execution_event) list" where
  "pairs_matched ps = concat (map (\<lambda>(b, r). case r of None \<Rightarrow> [] | Some c \<Rightarrow> [(b, c)]) ps)"

definition pairs_removed :: "(execution_event \<times> execution_event option) list \<Rightarrow> execution_event list" where
  "pairs_removed ps = map fst (filter (\<lambda>p. snd p = None) ps)"

definition alignment_of :: "execution_event \<times> execution_event \<Rightarrow> event_alignment" where
  "alignment_of p = \<lparr>al_baseline = ev_id (fst p), al_comparison = ev_id (snd p)\<rparr>"

definition status_change :: "execution_event \<times> execution_event \<Rightarrow> event_change" where
  "status_change p = \<lparr>ch_baseline = ev_id (fst p), ch_comparison = ev_id (snd p), ch_field = ''status'',
     ch_baseline_value = VStr (event_status_str (ev_status (fst p))),
     ch_comparison_value = VStr (event_status_str (ev_status (snd p)))\<rparr>"

definition added_ids :: "execution_event list \<Rightarrow> (execution_event \<times> execution_event) list \<Rightarrow> string list" where
  "added_ids cs ms = map ev_id (filter (\<lambda>c. ev_id c \<notin> ev_id ` snd ` set ms) cs)"

definition align_events :: "execution_event list \<Rightarrow> execution_event list
    \<Rightarrow> event_alignment list \<times> string list \<times> string list \<times> event_change list" where
  "align_events bs cs =
     (let ps = pair_up cs (\<lambda>_. 0) bs; ms = pairs_matched ps
      in (map alignment_of ms, added_ids cs ms, map ev_id (pairs_removed ps),
          map status_change (filter (\<lambda>p. ev_status (fst p) \<noteq> ev_status (snd p)) ms)))"

definition Align :: "replay_execution \<Rightarrow> replay_execution \<Rightarrow> pack_error + alignment" where
  "Align b c =
     (case align_events (ex_events b) (ex_events c) of (matched, added, removed, changed) \<Rightarrow>
        Inr (Some matched, Some added, Some removed, Some changed))"

definition timeout_divergence :: "execution_event list \<Rightarrow> execution_event list \<Rightarrow> string list
    \<Rightarrow> first_divergence option" where
  "timeout_divergence bs cs removed =
     (case find (\<lambda>(i, e). ev_type e = EventTimeout \<and> ev_id e \<in> set removed) (enumerate 0 bs) of
        None \<Rightarrow> None
      | Some (i, e) \<Rightarrow>
          (let hit = find (\<lambda>(j, c). comp_name (ev_component c) = ''payment'' \<and> ev_type c = EventComplete)
                       (enumerate 0 cs);
               at = (case hit of None \<Rightarrow> (0, []) | Some (j, c) \<Rightarrow> (j, ev_id c))
           in Some \<lparr>dv_baseline = ev_id e, dv_comparison = snd at,
                dv_rule = ''PAYMENT_COMPLETES_BEFORE_TIMEOUT'', dv_baseline_value = VStr ''TIMEOUT'',
                dv_comparison_value = VStr ''SUCCESS'', dv_baseline_index = int i,
                dv_comparison_index = int (fst at)\<rparr>))"

definition firstMeaningfulDivergence :: "execution_event list \<Rightarrow> execution_event list \<Rightarrow> event_change list
    \<Rightarrow> string list \<Rightarrow> first_divergence option" where
  "firstMeaningfulDivergence bs cs changed removed =
     (case FirstDivergenceFrom bs cs changed of Some d \<Rightarrow> Some d
      | None \<Rightarrow> timeout_divergence bs cs removed)"

text \<open>The zero \<open>contracts.Intervention\<close>, for a comparison run that records none.\<close>

definition zero_intervention :: intervention where
  "zero_intervention = \<lparr>iv_type = UnknownIntervention [], iv_from = 0, iv_to = 0, iv_unit = UnknownUnit []\<rparr>"

definition Compare :: "string \<Rightarrow> replay_execution \<Rightarrow> replay_execution \<Rightarrow> pack_error + replay_diff" where
  "Compare k b c =
     (case align_events (ex_events b) (ex_events c) of (matched, added, removed, changed) \<Rightarrow>
      bind_result (evaluate (ex_events b)) (\<lambda>ob.
      bind_result (evaluate (ex_events c)) (\<lambda>oc.
        let eb = or_effects ob; ec = or_effects oc;
            d = \<lparr>diff_schema = ContractVersion, diff_id = k, diff_baseline = run_id (ex_run b),
              diff_comparison = run_id (ex_run c), diff_alignment = ContractVersion,
              diff_intervention = (case run_intervention (ex_run c) of None \<Rightarrow> zero_intervention | Some i \<Rightarrow> i),
              diff_baseline_oracle = ob, diff_comparison_oracle = oc, diff_matched = Some matched,
              diff_added = Some added, diff_removed = Some removed, diff_changed = Some changed,
              diff_divergence = firstMeaningfulDivergence (ex_events b) (ex_events c) changed removed,
              diff_baseline_effects = eb, diff_comparison_effects = ec, diff_delta = effects_delta eb ec,
              diff_evidence = counts_text ''checkout_duplicate_effect: '' eb ec matched added removed changed,
              diff_limitations = Some (Limitations ''checkout_duplicate_effect pack v1.0.0'')\<rparr>
        in if diff_validate d \<noteq> None then Inl (PackError ''checkout: assembled replay diff is invalid'')
           else Inr d)))"

section \<open>The pack (pack.go)\<close>

definition Descriptor :: system_pack_ref where
  "Descriptor = \<lparr>pack_id = ''checkout_duplicate_effect'', pack_version = ''1.0.0'',
     pack_interface = ContractVersion\<rparr>"

definition Labels :: label_set where
  "Labels = \<lparr>
     lab_components = Some [(''gateway'', ''Gateway''), (''checkout'', ''Checkout''),
       (''payment'', ''Payment Simulator''), (''ledger'', ''Ledger'')],
     lab_operations = Some [(''checkout'', ''Checkout Request''), (''checkout.process'', ''Checkout Processing''),
       (''authorize'', ''Payment Authorization''), (''ledger.commit'', ''Ledger Commit'')],
     lab_event_types = Some [(EventStart, ''Started''), (EventComplete, ''Completed''), (EventError, ''Errored''),
       (EventTimeout, ''Timed Out''), (EventRetry, ''Retried''), (EventEffect, ''Effect Recorded''),
       (EventStateObservation, ''State Observed'')],
     lab_effects = Some [(''ledger.commit'', ''Ledger Effect'')],
     lab_interventions = Some [(''PAYMENT_LATENCY'', ''Payment Latency'')]\<rparr>"

definition checkout_pack :: "(string \<Rightarrow> string) \<Rightarrow> string \<Rightarrow> (string \<Rightarrow> string list option)
    \<Rightarrow> (string \<Rightarrow> execution_event option) \<Rightarrow> system_pack" where
  "checkout_pack sha256_hex content split decode = \<lparr>pk_descriptor = Descriptor,
     pk_normalize = Normalize split decode, pk_detect = evaluate,
     pk_extract = (\<lambda>_. ExtractFixtures sha256_hex content), pk_plan = (\<lambda>_. BuildReplayPlan),
     pk_validate = ValidateCapsule, pk_interventions = [paymentLatencySpec],
     pk_apply = ApplyIntervention, pk_compare = Compare, pk_evaluate = (\<lambda>x. evaluate (ex_events x)),
     pk_labels = Labels, pk_align = (\<lambda>_. Align)\<rparr>"

section \<open>What the oracle says\<close>

definition committed_effect :: "execution_event \<Rightarrow> bool" where
  "committed_effect e \<longleftrightarrow> ev_type e = EventEffect \<and> effect_committed e"

definition dependency_start :: "execution_event \<Rightarrow> bool" where
  "dependency_start e \<longleftrightarrow> ev_type e = EventStart \<and> op_kind (ev_operation e) = OperationDependency"

text \<open>The rule of the scenario: one logical operation with a timeout, a retry, a second attempt and two
  committed ledger effects.\<close>

definition duplicate_effect :: "execution_event list \<Rightarrow> string \<Rightarrow> bool" where
  "duplicate_effect es k \<longleftrightarrow>
     (let g = eventsForLogicalOperation es k
      in (\<exists>e\<in>set g. ev_type e = EventTimeout) \<and> (\<exists>e\<in>set g. ev_type e = EventRetry)
         \<and> (\<exists>e\<in>set g. 2 \<le> ev_attempt e) \<and> 2 \<le> length (filter committed_effect g))"

lemma scan_committed: "sc_committed (fold scan_event es sc) = sc_committed sc @ filter committed_effect es"
  by (induction es arbitrary: sc)
    (auto simp: scan_event_def Let_def committed_effect_def split: event_type.split)

lemma scan_timeout: "sc_timeout (fold scan_event es sc) \<longleftrightarrow> sc_timeout sc \<or> (\<exists>e\<in>set es. ev_type e = EventTimeout)"
  by (induction es arbitrary: sc) (auto simp: scan_event_def Let_def split: event_type.split)

lemma scan_retry: "sc_retry (fold scan_event es sc) \<longleftrightarrow> sc_retry sc \<or> (\<exists>e\<in>set es. ev_type e = EventRetry)"
  by (induction es arbitrary: sc) (auto simp: scan_event_def Let_def split: event_type.split)

lemma scan_max: "m \<le> sc_max_attempt (fold scan_event es sc) \<longleftrightarrow> m \<le> sc_max_attempt sc \<or> (\<exists>e\<in>set es. m \<le> ev_attempt e)"
proof (induction es arbitrary: sc)
  case (Cons e es)
  have "sc_max_attempt (scan_event e sc) = max (sc_max_attempt sc) (ev_attempt e)"
    by (auto simp: scan_event_def Let_def split: event_type.split)
  with Cons show ?case by (auto simp: le_max_iff_disj)
qed simp

lemma scan_attempts:
  "set (sc_attempts (fold scan_event es sc)) = set (sc_attempts sc) \<union> ev_attempt ` {e \<in> set es. dependency_start e}"
proof (induction es arbitrary: sc)
  case (Cons e es)
  have "set (sc_attempts (scan_event e sc)) = set (sc_attempts sc) \<union> (if dependency_start e then {ev_attempt e} else {})"
    by (auto simp: scan_event_def Let_def dependency_start_def split: event_type.split)
  with Cons show ?case by auto
qed simp

lemma scan_attempts_distinct: "distinct (sc_attempts sc) \<Longrightarrow> distinct (sc_attempts (fold scan_event es sc))"
proof (induction es arbitrary: sc)
  case (Cons e es)
  then have "distinct (sc_attempts (scan_event e sc))"
    by (auto simp: scan_event_def Let_def split: event_type.split)
  with Cons.IH show ?case by simp
qed simp

lemmas scan_facts = scan_committed scan_timeout scan_retry scan_max scan_attempts

lemma scan_matched_iff:
  "scan_matched (fold scan_event (eventsForLogicalOperation es k) scan_start) \<longleftrightarrow> duplicate_effect es k"
  by (auto simp: scan_matched_def scan_facts duplicate_effect_def Let_def scan_start_def)

lemma scan_result_matched [simp]: "or_matched (scan_result k es) = duplicate_effect es k"
  by (simp add: scan_result_def Let_def scan_matched_iff)

lemma scan_result_effects:
  "or_effects (scan_result k es) =
     \<lparr>payment_attempts = int (card (ev_attempt ` {e \<in> set (eventsForLogicalOperation es k). dependency_start e})),
      ledger_commits = int (length (filter committed_effect (eventsForLogicalOperation es k)))\<rparr>"
proof -
  let ?g = "eventsForLogicalOperation es k"
  have "length (sc_attempts (fold scan_event ?g scan_start)) = card (set (sc_attempts (fold scan_event ?g scan_start)))"
    using scan_attempts_distinct [of scan_start ?g] by (simp add: distinct_card scan_start_def)
  then show ?thesis
    by (simp add: scan_result_def Let_def scan_attempts scan_committed sortEvents_def) (simp add: scan_start_def)
qed

lemma duplicate_effect_group [simp]:
  "duplicate_effect (eventsForLogicalOperation es k) k = duplicate_effect es k"
  by (simp add: duplicate_effect_def eventsForLogicalOperation_def)

lemma duplicate_effect_id: "duplicate_effect es k \<Longrightarrow> k \<in> ev_logical_op ` set es"
  by (auto simp: duplicate_effect_def eventsForLogicalOperation_def Let_def)

lemma evaluate_group:
  assumes k: "k \<in> ev_logical_op ` set es"
  shows "evaluate (eventsForLogicalOperation es k) = Inr (scan_result k (eventsForLogicalOperation es k))"
proof -
  let ?g = "eventsForLogicalOperation es k"
  have ids: "set (distinct_ids ?g) = {k}" using k by (auto simp: eventsForLogicalOperation_def)
  have len: "length (distinct_ids ?g) = 1" using k by (intro group_ids) simp
  with ids have hd: "hd (distinct_ids ?g) = k" by (cases "distinct_ids ?g") auto
  have "?g \<noteq> []" using k by (auto simp: eventsForLogicalOperation_def filter_empty_conv)
  with len hd show ?thesis by (simp add: evaluate.simps selectLogicalOperationID.simps)
qed

text \<open>The operation that is evaluated: the least one that shows the duplicate effect, if there is one,
  else the least one.\<close>

definition selected_operation :: "execution_event list \<Rightarrow> string \<Rightarrow> bool" where
  "selected_operation es k \<longleftrightarrow> k \<in> ev_logical_op ` set es
     \<and> (if \<exists>j. duplicate_effect es j then duplicate_effect es k \<and> (\<forall>j. duplicate_effect es j \<longrightarrow> k \<le> j)
        else \<forall>j\<in>ev_logical_op ` set es. k \<le> j)"

lemma find_least:
  assumes "sorted xs" and "find P xs = Some x" and "y \<in> set xs" "P y"
  shows "x \<le> (y :: 'a::linorder)"
  using assms by (induction xs) (auto split: if_splits)

lemma select_selected:
  assumes "es \<noteq> []"
  shows "\<exists>k. selectLogicalOperationID es = Some k \<and> selected_operation es k"
proof (cases "length (distinct_ids es) = 1")
  case True
  then obtain k where k: "distinct_ids es = [k]" by (auto simp: length_Suc_conv)
  then have "ev_logical_op ` set es = {k}" by (metis set_distinct_ids list.simps(15) empty_set)
  moreover have "selectLogicalOperationID es = Some k" by (simp add: selectLogicalOperationID.simps k)
  ultimately show ?thesis
    using duplicate_effect_id [of es] by (auto simp: selected_operation_def)
next
  case False
  let ?ids = "sort_strings (distinct_ids es)"
  let ?P = "\<lambda>k. case evaluate (eventsForLogicalOperation es k) of Inl _ \<Rightarrow> False | Inr r \<Rightarrow> or_matched r"
  have sorted: "sorted ?ids" by (rule sorted_sort_strings)
  have set: "set ?ids = ev_logical_op ` set es" by simp
  have P: "?P k = duplicate_effect es k" if "k \<in> set ?ids" for k
    using evaluate_group [of k es] that set by simp
  have sel: "selectLogicalOperationID es = (case find ?P ?ids of Some k \<Rightarrow> Some k
      | None \<Rightarrow> (case ?ids of [] \<Rightarrow> None | k # _ \<Rightarrow> Some k))"
    using False by (subst selectLogicalOperationID.simps) (simp add: Let_def)
  show ?thesis
  proof (cases "find ?P ?ids")
    case None
    then have none: "\<not> duplicate_effect es j" for j
      using P duplicate_effect_id [of es j] set by (auto simp: find_None_iff)
    obtain k ks where ids: "?ids = k # ks" using assms set by (cases ?ids) auto
    with sorted set have "\<forall>j\<in>ev_logical_op ` set es. k \<le> j" by (metis order_refl set_ConsD sorted_simps(2))
    moreover have "k \<in> ev_logical_op ` set es" using ids set by auto
    moreover have "selectLogicalOperationID es = Some k" using sel None ids by simp
    ultimately show ?thesis using none by (auto simp: selected_operation_def)
  next
    case (Some k)
    then obtain i where "i < length ?ids" "k = ?ids ! i" "?P (?ids ! i)" unfolding find_Some_iff by blast
    then have k: "k \<in> set ?ids" "?P k" using nth_mem [of i ?ids] by metis+
    then have "duplicate_effect es k" using P by blast
    moreover have "k \<le> j" if "duplicate_effect es j" for j
      using find_least [OF sorted Some, of j] P that duplicate_effect_id [OF that] set by blast
    ultimately show ?thesis using Some sel k set by (auto simp: selected_operation_def)
  qed
qed

lemma evaluate_selected:
  assumes "es \<noteq> []"
  obtains k where "selected_operation es k" "evaluate es = Inr (scan_result k es)"
proof -
  obtain k where "selectLogicalOperationID es = Some k" "selected_operation es k"
    using select_selected [OF assms] by blast
  with assms that [of k] show thesis by (simp add: evaluate.simps)
qed

section \<open>Valid oracle results\<close>

text \<open>A byte of a white-space rune is never a printable ASCII character.\<close>

definition printable :: "char \<Rightarrow> bool" where
  "printable c \<longleftrightarrow> 33 \<le> byte c \<and> byte c \<le> 127"

lemma blank_rune:
  assumes "blank (a # s)"
  obtains "\<not> printable a" "blank s"
  | b t where "s = b # t" "\<not> printable a" "\<not> printable b" "blank t"
  | b c u where "s = b # c # u" "\<not> printable a" "\<not> printable b" "\<not> printable c" "blank u"
proof (cases "byte a \<in> {9, 10, 11, 12, 13, 32}")
  case True
  then have "\<not> printable a" by (auto simp: printable_def)
  moreover have "blank s" using assms True by simp
  ultimately show ?thesis by (rule that(1))
next
  case False
  then obtain b t where s: "s = b # t" using assms by (cases s) auto
  show ?thesis
  proof (cases "byte a = 194 \<and> (byte b = 133 \<or> byte b = 160)")
    case True
    then have "\<not> printable a" "\<not> printable b" by (auto simp: printable_def)
    moreover have "blank t" using assms False True s by simp
    ultimately show ?thesis using s that(2) by blast
  next
    case two: False
    then obtain c u where t: "t = c # u" using assms False s by (cases t) auto
    let ?P = "(byte a = 225 \<and> byte b = 154 \<and> byte c = 128)
      \<or> (byte a = 226 \<and> byte b = 128
          \<and> ((128 \<le> byte c \<and> byte c \<le> 138) \<or> byte c = 168 \<or> byte c = 169 \<or> byte c = 175))
      \<or> (byte a = 226 \<and> byte b = 129 \<and> byte c = 159) \<or> (byte a = 227 \<and> byte b = 128 \<and> byte c = 128)"
    have eq: "blank (a # b # c # u) \<longleftrightarrow> ?P \<and> blank u"
      using False two by (subst blank.simps) (simp only: list.case if_False if_bool_eq_conj simp_thms, blast)
    with assms s t have P: "?P" and u: "blank u" by blast+
    have "\<not> printable a" using P unfolding printable_def by presburger
    moreover have "\<not> printable b" using P unfolding printable_def by presburger
    moreover have "\<not> printable c" using P unfolding printable_def by presburger
    ultimately show ?thesis using s t u that(3) by blast
  qed
qed

lemma blank_bytes: "blank s \<Longrightarrow> c \<in> set s \<Longrightarrow> \<not> printable c"
proof (induction "length s" arbitrary: s rule: less_induct)
  case less
  show ?case
  proof (cases s)
    case (Cons a r)
    from less.prems(1) Cons have "blank (a # r)" by simp
    then show ?thesis
    proof (cases rule: blank_rune)
      case 1
      with less Cons show ?thesis by auto
    next
      case (2 b t)
      with less.hyps [of t] less.prems(2) Cons show ?thesis by auto
    next
      case (3 b d u)
      with less.hyps [of u] less.prems(2) Cons show ?thesis by auto
    qed
  qed (use less.prems in simp)
qed

lemma printable_not_blank: "c \<in> set s \<Longrightarrow> printable c \<Longrightarrow> \<not> blank s"
  using blank_bytes by blast

lemma sc_ids:
  "sc_timeout_id (fold scan_event es sc) \<in> insert (sc_timeout_id sc) (ev_id ` set es)"
  "sc_retry_id (fold scan_event es sc) \<in> insert (sc_retry_id sc) (ev_id ` set es)"
proof -
  have t: "sc_timeout_id (scan_event e sc) \<in> {sc_timeout_id sc, ev_id e}"
    "sc_retry_id (scan_event e sc) \<in> {sc_retry_id sc, ev_id e}" for e sc
    by (auto simp: scan_event_def Let_def split: event_type.split)
  show "sc_timeout_id (fold scan_event es sc) \<in> insert (sc_timeout_id sc) (ev_id ` set es)"
  proof (induction es arbitrary: sc)
    case (Cons e es)
    from Cons [of "scan_event e sc"] t(1) [of e sc] show ?case by auto
  qed simp
  show "sc_retry_id (fold scan_event es sc) \<in> insert (sc_retry_id sc) (ev_id ` set es)"
  proof (induction es arbitrary: sc)
    case (Cons e es)
    from Cons [of "scan_event e sc"] t(2) [of e sc] show ?case by auto
  qed simp
qed

text \<open>Once a timeout or a retry is seen its id is not empty, when the ids of the events are not.\<close>

lemma sc_ids_set:
  assumes "\<forall>e\<in>set es. ev_id e \<noteq> []"
  shows "sc_timeout (fold scan_event es sc) \<Longrightarrow> (sc_timeout sc \<Longrightarrow> sc_timeout_id sc \<noteq> [])
           \<Longrightarrow> sc_timeout_id (fold scan_event es sc) \<noteq> []"
    and "sc_retry (fold scan_event es sc) \<Longrightarrow> (sc_retry sc \<Longrightarrow> sc_retry_id sc \<noteq> [])
           \<Longrightarrow> sc_retry_id (fold scan_event es sc) \<noteq> []"
proof -
  have t: "sc_timeout (scan_event e sc) \<Longrightarrow> (sc_timeout sc \<Longrightarrow> sc_timeout_id sc \<noteq> []) \<Longrightarrow> ev_id e \<noteq> []
      \<Longrightarrow> sc_timeout_id (scan_event e sc) \<noteq> []" for e sc
    by (auto simp: scan_event_def Let_def split: event_type.splits if_splits)
  have r: "sc_retry (scan_event e sc) \<Longrightarrow> (sc_retry sc \<Longrightarrow> sc_retry_id sc \<noteq> []) \<Longrightarrow> ev_id e \<noteq> []
      \<Longrightarrow> sc_retry_id (scan_event e sc) \<noteq> []" for e sc
    by (auto simp: scan_event_def Let_def split: event_type.splits if_splits)
  show "sc_timeout (fold scan_event es sc) \<Longrightarrow> (sc_timeout sc \<Longrightarrow> sc_timeout_id sc \<noteq> [])
           \<Longrightarrow> sc_timeout_id (fold scan_event es sc) \<noteq> []"
    using assms
  proof (induction es arbitrary: sc)
    case (Cons e es)
    then show ?case using t [of e sc] by simp
  qed simp
  show "sc_retry (fold scan_event es sc) \<Longrightarrow> (sc_retry sc \<Longrightarrow> sc_retry_id sc \<noteq> [])
           \<Longrightarrow> sc_retry_id (fold scan_event es sc) \<noteq> []"
    using assms
  proof (induction es arbitrary: sc)
    case (Cons e es)
    then show ?case using r [of e sc] by simp
  qed simp
qed

lemma scan_result_valid:
  assumes ids: "\<forall>e\<in>set es. \<not> blank (ev_id e)"
  shows "oracle_result_validate (scan_result k es) = None"
proof -
  let ?g = "eventsForLogicalOperation es k"
  let ?sc = "fold scan_event ?g scan_start"
  have g: "\<forall>e\<in>set ?g. \<not> blank (ev_id e)" using ids by (simp add: eventsForLogicalOperation_def)
  then have ne: "\<forall>e\<in>set ?g. ev_id e \<noteq> []" by (metis blank.simps(1))
  have text1: "\<not> blank (''One logical checkout ('' @ s)" for s
    by (rule printable_not_blank [of "CHR ''O''"]) (simp_all add: printable_def byte_def)
  have text2: "\<not> blank (k @ '': '' @ s)" for s
    by (rule printable_not_blank [of "CHR '':''"]) (simp_all add: printable_def byte_def)
  have ref: "oracle_id oracleRef \<noteq> []" "oracle_version oracleRef \<noteq> []" by (simp_all add: oracleRef_def)
  have matched: "\<not> blank (sc_timeout_id ?sc) \<and> \<not> blank (sc_retry_id ?sc)" if "scan_matched ?sc"
  proof -
    from that have "sc_timeout ?sc" "sc_retry ?sc" by (simp_all add: scan_matched_def)
    then have "sc_timeout_id ?sc \<noteq> []" "sc_retry_id ?sc \<noteq> []"
      using sc_ids_set [OF ne, of scan_start] by (simp_all add: scan_start_def)
    with sc_ids [of ?g scan_start] g show ?thesis by (auto simp: scan_start_def)
  qed
  have committed: "\<forall>e\<in>set (sc_committed ?sc). \<not> blank (ev_id e)"
    using g by (simp add: scan_committed scan_start_def)
  show ?thesis
    using matched committed g ref text1 text2
    by (simp add: scan_result_def Let_def oracle_result_validate_None_iff effects_validate_None_iff sortEvents_def)
qed

lemma evaluate_valid:
  assumes "\<forall>e\<in>set es. event_validate e = None \<and> \<not> blank (ev_id e)" and "evaluate es = Inr r"
  shows "oracle_result_validate r = None"
proof -
  have "es \<noteq> []" using assms(2) by (auto simp: evaluate.simps)
  then obtain k where "evaluate es = Inr (scan_result k es)" by (rule evaluate_selected)
  with assms scan_result_valid [of es k] show ?thesis by simp
qed

section \<open>What the alignment says\<close>

lemma pair_up_baseline [simp]: "map fst (pair_up cs consumed bs) = bs"
  by (induction cs consumed bs rule: pair_up.induct) (simp_all add: Let_def del: fun_upd_apply)

lemma pairs_matched_Cons [simp]:
  "pairs_matched ((b, Some c) # ps) = (b, c) # pairs_matched ps"
  "pairs_matched ((b, None) # ps) = pairs_matched ps" "pairs_matched [] = []"
  by (simp_all add: pairs_matched_def)

lemma pairs_removed_Cons [simp]:
  "pairs_removed ((b, Some c) # ps) = pairs_removed ps"
  "pairs_removed ((b, None) # ps) = b # pairs_removed ps" "pairs_removed [] = []"
  by (simp_all add: pairs_removed_def)

lemma pairs_split: "mset (map fst (pairs_matched ps)) + mset (pairs_removed ps) = mset (map fst ps)"
proof (induction ps)
  case (Cons p ps)
  then show ?case by (cases p; cases "snd p") simp_all
qed simp

text \<open>For every key the matched events of the comparison are a run of its candidates.\<close>

lemma pair_up_run:
  "map snd (filter (\<lambda>p. keyOf (fst p) = k) (pairs_matched (pair_up cs consumed bs)))
     = take (length (filter (\<lambda>b. keyOf b = k) bs)) (drop (consumed k) (filter (\<lambda>c. keyOf c = k) cs))"
proof (induction cs consumed bs rule: pair_up.induct)
  case (2 cs consumed b bs)
  let ?cand = "filter (\<lambda>c. keyOf c = keyOf b) cs"
  show ?case
  proof (cases "length ?cand \<le> consumed (keyOf b)")
    case True
    with 2(1) [OF refl refl True] show ?thesis by (auto simp: Let_def)
  next
    case False
    then have split: "drop (consumed (keyOf b)) ?cand
        = ?cand ! consumed (keyOf b) # drop (Suc (consumed (keyOf b))) ?cand"
      by (simp add: Cons_nth_drop_Suc)
    define c' where "c' = consumed(keyOf b := consumed (keyOf b) + 1)"
    have run: "map snd (filter (\<lambda>p. keyOf (fst p) = k) (pairs_matched (pair_up cs c' bs)))
        = take (length (filter (\<lambda>b. keyOf b = k) bs)) (drop (c' k) (filter (\<lambda>c. keyOf c = k) cs))"
      unfolding c'_def by (rule 2(2) [OF refl refl False])
    have c': "c' k = (if k = keyOf b then Suc (consumed (keyOf b)) else consumed k)" by (simp add: c'_def)
    have step: "pair_up cs consumed (b # bs) = (b, Some (?cand ! consumed (keyOf b))) # pair_up cs c' bs"
      using False by (simp add: Let_def c'_def del: fun_upd_apply)
    show ?thesis
    proof (cases "keyOf b = k")
      case True
      with split run c' show ?thesis unfolding step by (simp del: pair_up.simps)
    next
      case False
      with run c' show ?thesis unfolding step by (simp del: pair_up.simps)
    qed
  qed
qed simp

lemma pair_up_keys: "(b, c) \<in> set (pairs_matched (pair_up cs consumed bs)) \<Longrightarrow> keyOf b = keyOf c \<and> c \<in> set cs"
proof (induction cs consumed bs rule: pair_up.induct)
  case (2 cs consumed d bs)
  let ?cand = "filter (\<lambda>c. keyOf c = keyOf d) cs"
  show ?case
  proof (cases "length ?cand \<le> consumed (keyOf d)")
    case True
    with 2 show ?thesis by (simp add: Let_def)
  next
    case False
    then have "?cand ! consumed (keyOf d) \<in> set ?cand" by (intro nth_mem) simp
    then have "keyOf (?cand ! consumed (keyOf d)) = keyOf d" "?cand ! consumed (keyOf d) \<in> set cs"
      by (simp_all only: set_filter mem_Collect_eq)
    with 2(2) [OF refl refl False] 2(3) False show ?thesis by (auto simp: Let_def simp del: fun_upd_apply)
  qed
qed simp

lemma matched_comparison_sub: "mset (map snd (pairs_matched (pair_up cs (\<lambda>_. 0) bs))) \<subseteq># mset cs"
proof (rule mset_subset_eqI)
  fix c
  let ?ms = "pairs_matched (pair_up cs (\<lambda>_. 0) bs)" and ?k = "keyOf c"
  have "filter (\<lambda>d. keyOf d = ?k) (map snd ?ms) = map snd (filter (\<lambda>p. keyOf (fst p) = ?k) ?ms)"
    using pair_up_keys [of _ _ cs "\<lambda>_. 0" bs] by (auto simp: filter_map comp_def intro!: arg_cong [where f = "map snd"] filter_cong)
  also have "\<dots> = take (length (filter (\<lambda>b. keyOf b = ?k) bs)) (filter (\<lambda>d. keyOf d = ?k) cs)"
    using pair_up_run [of ?k cs "\<lambda>_. 0" bs] by simp
  finally have *: "filter (\<lambda>d. keyOf d = ?k) (map snd ?ms)
      = take (length (filter (\<lambda>b. keyOf b = ?k) bs)) (filter (\<lambda>d. keyOf d = ?k) cs)" .
  have "count (mset (map snd ?ms)) c = count (mset (filter (\<lambda>d. keyOf d = ?k) (map snd ?ms))) c"
    by (simp add: mset_filter)
  also have "\<dots> \<le> count (mset (filter (\<lambda>d. keyOf d = ?k) cs)) c"
    unfolding * by (intro mset_subset_eq_count) (metis append_take_drop_id mset_append mset_subset_eq_add_left)
  also have "\<dots> = count (mset cs) c" by (simp add: mset_filter)
  finally show "count (mset (map snd ?ms)) c \<le> count (mset cs) c" .
qed

lemma Align_splits: "Align b c = Inr a \<Longrightarrow> alignment_splits b c a"
proof -
  assume a: "Align b c = Inr a"
  let ?ps = "pair_up (ex_events c) (\<lambda>_. 0) (ex_events b)"
  have "mset (map al_baseline (map alignment_of (pairs_matched ?ps))) + mset (map ev_id (pairs_removed ?ps))
      = image_mset ev_id (mset (map fst (pairs_matched ?ps)) + mset (pairs_removed ?ps))"
    by (simp add: alignment_of_def comp_def multiset.map_comp)
  also have "\<dots> = mset (map ev_id (ex_events b))" by (simp only: pairs_split) (simp only: pair_up_baseline mset_map [symmetric])
  finally have base: "mset (map al_baseline (map alignment_of (pairs_matched ?ps)))
      + mset (map ev_id (pairs_removed ?ps)) = mset (map ev_id (ex_events b))" .
  have "mset (map al_comparison (map alignment_of (pairs_matched ?ps)))
      = image_mset ev_id (mset (map snd (pairs_matched ?ps)))"
    by (simp add: alignment_of_def comp_def multiset.map_comp)
  also have "\<dots> \<subseteq># image_mset ev_id (mset (ex_events c))"
    by (rule image_mset_subseteq_mono [OF matched_comparison_sub])
  finally have comp: "mset (map al_comparison (map alignment_of (pairs_matched ?ps)))
      \<subseteq># mset (map ev_id (ex_events c))" by (simp only: mset_map)
  from a have "a = (Some (map alignment_of (pairs_matched ?ps)), Some (added_ids (ex_events c) (pairs_matched ?ps)),
      Some (map ev_id (pairs_removed ?ps)),
      Some (map status_change (filter (\<lambda>p. ev_status (fst p) \<noteq> ev_status (snd p)) (pairs_matched ?ps))))"
    by (simp add: Align_def align_events_def Let_def)
  with base comp show ?thesis by (simp only: alignment_splits_def prod.case elems_simps option.distinct simp_thms)
qed

interpretation checkout: pack_contract "checkout_pack sha256_hex content split decode"
  for sha256_hex content split decode
proof
  fix p i q assume "pk_apply (checkout_pack sha256_hex content split decode) p i = Inr q"
  then show "same_plan p q"
    by (auto simp: checkout_pack_def ApplyIntervention_def same_plan_def split: if_splits)
next
  fix x r assume "\<forall>e\<in>set (ex_events x). event_validate e = None \<and> \<not> blank (ev_id e)"
    and "pk_evaluate (checkout_pack sha256_hex content split decode) x = Inr r"
  then show "oracle_result_validate r = None" by (auto simp: checkout_pack_def intro: evaluate_valid)
next
  fix k b c a assume "pk_align (checkout_pack sha256_hex content split decode) k b c = Inr a"
  then show "alignment_splits b c a" by (simp add: checkout_pack_def Align_splits)
qed

end
