(* ===== verification/CheckoutProps.thy ===== *)
theory CheckoutProps
  imports CheckoutPack
begin

text \<open>
  What the checkout pack promises: the rule of its oracle, and the alignment of two executions, key by key.
\<close>

section \<open>The pairs of an alignment, key by key\<close>

definition of_key :: "align_key \<Rightarrow> execution_event list \<Rightarrow> execution_event list" where
  "of_key k es = filter (\<lambda>e. keyOf e = k) es"

lemma pair_up_of_key:
  "filter (\<lambda>p. keyOf (fst p) = k) (pairs_matched (pair_up cs consumed bs)) = zip (of_key k bs) (drop (consumed k) (of_key k cs))
   \<and> of_key k (pairs_removed (pair_up cs consumed bs)) = drop (length (of_key k cs) - consumed k) (of_key k bs)"
proof (induction cs consumed bs rule: pair_up.induct)
  case (1 cs consumed)
  show ?case by (simp add: of_key_def)
next
  case (2 cs consumed b bs)
  let ?cand = "filter (\<lambda>c. keyOf c = keyOf b) cs"
  show ?case
  proof (cases "length ?cand \<le> consumed (keyOf b)")
    case True
    then have step: "pair_up cs consumed (b # bs) = (b, None) # pair_up cs consumed bs" by (simp add: Let_def)
    from 2(1) [OF refl refl True] True show ?thesis
      unfolding step by (cases "keyOf b = k") (simp_all add: of_key_def)
  next
    case False
    then have split: "drop (consumed (keyOf b)) ?cand
        = ?cand ! consumed (keyOf b) # drop (Suc (consumed (keyOf b))) ?cand"
      by (simp add: Cons_nth_drop_Suc)
    from False have len: "length ?cand - consumed (keyOf b) = Suc (length ?cand - Suc (consumed (keyOf b)))" by simp
    define c' where "c' = consumed(keyOf b := consumed (keyOf b) + 1)"
    have IH: "filter (\<lambda>p. keyOf (fst p) = k) (pairs_matched (pair_up cs c' bs)) = zip (of_key k bs) (drop (c' k) (of_key k cs))
        \<and> of_key k (pairs_removed (pair_up cs c' bs)) = drop (length (of_key k cs) - c' k) (of_key k bs)"
      unfolding c'_def by (rule 2(2) [OF refl refl False])
    have c': "c' k = (if k = keyOf b then Suc (consumed (keyOf b)) else consumed k)" by (simp add: c'_def)
    have step: "pair_up cs consumed (b # bs) = (b, Some (?cand ! consumed (keyOf b))) # pair_up cs c' bs"
      using False by (simp add: Let_def c'_def del: fun_upd_apply)
    show ?thesis
    proof (cases "keyOf b = k")
      case True
      with split len IH c' show ?thesis unfolding step by (simp del: pair_up.simps add: of_key_def)
    next
      case False
      with IH c' show ?thesis unfolding step by (simp del: pair_up.simps add: of_key_def)
    qed
  qed
qed

lemma added_of_key:
  assumes ids: "distinct (map ev_id cs)"
  shows "of_key k (filter (\<lambda>c. ev_id c \<notin> ev_id ` snd ` set (pairs_matched (pair_up cs (\<lambda>_. 0) bs))) cs)
           = drop (length (of_key k bs)) (of_key k cs)"
proof -
  let ?ms = "pairs_matched (pair_up cs (\<lambda>_. 0) bs)" and ?n = "length (of_key k bs)" and ?ck = "of_key k cs"
  let ?out = "\<lambda>c. ev_id c \<notin> ev_id ` snd ` set ?ms"
  have zip: "filter (\<lambda>p. keyOf (fst p) = k) ?ms = zip (of_key k bs) ?ck"
    using pair_up_of_key [of k cs "\<lambda>_. 0" bs] by simp
  have sub: "set ?ck \<subseteq> set cs" by (auto simp: of_key_def)
  have dist: "distinct ?ck" using ids by (simp add: of_key_def distinct_map)
  have inj: "inj_on ev_id (set cs)" using ids by (simp add: distinct_map)
  have out: "?out c \<longleftrightarrow> c \<notin> snd ` set (zip (of_key k bs) ?ck)" if c: "c \<in> set ?ck" for c
  proof -
    have key: "keyOf c = k" using c by (simp add: of_key_def)
    have "ev_id c \<in> ev_id ` snd ` set ?ms \<longleftrightarrow> c \<in> snd ` set ?ms"
      using inj sub c pair_up_keys [of _ _ cs "\<lambda>_. 0" bs] by (force dest: inj_onD)
    also have "\<dots> \<longleftrightarrow> c \<in> snd ` set (filter (\<lambda>p. keyOf (fst p) = k) ?ms)"
      using key pair_up_keys [of _ _ cs "\<lambda>_. 0" bs] by force
    finally show ?thesis by (simp only: zip not_not)
  qed
  have zs: "snd ` set (zip (of_key k bs) ?ck) = set (take ?n ?ck)"
    by (simp only: set_map [symmetric] map_snd_zip_take) (simp add: min_def)
  have "of_key k (filter ?out cs) = filter ?out ?ck" by (simp add: of_key_def conj_commute)
  also have "\<dots> = filter (\<lambda>c. c \<notin> set (take ?n ?ck)) ?ck"
    by (rule filter_cong [OF refl]) (simp only: out zs)
  also have "\<dots> = filter (\<lambda>c. c \<notin> set (take ?n ?ck)) (take ?n ?ck @ drop ?n ?ck)" by simp
  also have "\<dots> = drop ?n ?ck"
  proof -
    have "filter (\<lambda>c. c \<notin> set (take ?n ?ck)) (take ?n ?ck) = []" by (simp add: filter_empty_conv)
    moreover have "filter (\<lambda>c. c \<notin> set (take ?n ?ck)) (drop ?n ?ck) = drop ?n ?ck"
      using set_take_disj_set_drop_if_distinct [OF dist order_refl, of ?n] by (auto simp: filter_id_conv)
    ultimately show ?thesis by (simp only: filter_append append_Nil)
  qed
  finally show ?thesis .
qed

lemma Align_eq:
  "Align b c = (let ps = pair_up (ex_events c) (\<lambda>_. 0) (ex_events b); ms = pairs_matched ps
     in Inr (Some (map alignment_of ms), Some (added_ids (ex_events c) ms), Some (map ev_id (pairs_removed ps)),
          Some (map status_change (filter (\<lambda>p. ev_status (fst p) \<noteq> ev_status (snd p)) ms))))"
  by (simp add: Align_def align_events_def Let_def)

lemma zip_same: "(a, b) \<in> set (zip xs xs) \<Longrightarrow> a = b"
  by (induction xs) auto

lemma pair_up_same: "pair_up es (\<lambda>_. 0) es = map (\<lambda>e. (e, Some e)) es"
proof -
  let ?ps = "pair_up es (\<lambda>_. 0) es"
  have "pairs_removed ?ps = []"
  proof (rule ccontr)
    assume "pairs_removed ?ps \<noteq> []"
    then obtain e where "e \<in> set (pairs_removed ?ps)" by (cases "pairs_removed ?ps") auto
    then have "e \<in> set (of_key (keyOf e) (pairs_removed ?ps))" by (simp add: of_key_def)
    with pair_up_of_key [of "keyOf e" es "\<lambda>_. 0" es] show False by simp
  qed
  then have some: "\<forall>p\<in>set ?ps. snd p \<noteq> None" by (auto simp: pairs_removed_def filter_empty_conv)
  have same: "snd p = Some (fst p)" if p: "p \<in> set ?ps" for p
  proof -
    obtain e d where ed: "p = (e, Some d)" using some p by (cases p) force
    then have "(e, d) \<in> set (pairs_matched ?ps)" using p by (force simp: pairs_matched_def)
    then have "(e, d) \<in> set (filter (\<lambda>p. keyOf (fst p) = keyOf e) (pairs_matched ?ps))" by simp
    with pair_up_of_key [of "keyOf e" es "\<lambda>_. 0" es] have "e = d" by (auto dest: zip_same)
    with ed show ?thesis by simp
  qed
  have "?ps = map (\<lambda>e. (e, Some e)) (map fst ?ps)"
    unfolding map_map comp_def by (rule map_idI [symmetric]) (metis prod.collapse same)
  then show ?thesis by (simp only: pair_up_baseline)
qed

section \<open>Properties\<close>

definition step_event :: "string \<Rightarrow> event_type \<Rightarrow> int \<Rightarrow> int \<Rightarrow> execution_event" where
  "step_event i ty a n = (sample_event i ''2026-01-01T00:00:00Z'' n)\<lparr>ev_type := ty, ev_attempt := a,
     ev_attributes := Some [(''effect_committed'', VBool True)]\<rparr>"

definition golden_events :: "execution_event list" where
  "golden_events = [step_event ''t'' EventTimeout 1 1, step_event ''r'' EventRetry 2 2,
     step_event ''m'' EventEffect 2 4, step_event ''l'' EventEffect 1 3]"

lemma scan_result_evidence:
  assumes ids: "\<forall>e\<in>set es. ev_id e \<noteq> []"
  shows "set (elems (or_evidence (scan_result k es))) \<subseteq> ev_id ` set (eventsForLogicalOperation es k)"
proof -
  let ?g = "eventsForLogicalOperation es k"
  let ?sc = "fold scan_event ?g scan_start"
  have g: "\<forall>e\<in>set ?g. ev_id e \<noteq> []" using ids by (simp add: eventsForLogicalOperation_def)
  have "sc_timeout_id ?sc \<in> ev_id ` set ?g \<and> sc_retry_id ?sc \<in> ev_id ` set ?g" if "scan_matched ?sc"
    using that sc_ids [of ?g scan_start] sc_ids_set [OF g, of scan_start]
    by (auto simp: scan_matched_def scan_start_def)
  then show ?thesis by (auto simp: scan_result_def Let_def sortEvents_def scan_committed scan_start_def)
qed

text \<open>C13: the oracle always answers on evidence. It evaluates the least logical operation that shows the
  duplicate effect (a timeout, a retry, an attempt of at least 2 and two committed effects), or the least
  operation when none does; it matches exactly when some operation shows the effect, it counts the distinct
  attempts of started dependency calls and the committed effects of that operation, and its evidence are
  events of that operation.\<close>

theorem oracle_rule:
  assumes "es \<noteq> []"
  shows "\<exists>k r. evaluate es = Inr r \<and> selected_operation es k \<and> or_oracle r = oracleRef
     \<and> or_matched r = (\<exists>j. duplicate_effect es j)
     \<and> or_effects r = \<lparr>payment_attempts = int (card (ev_attempt ` {e \<in> set (eventsForLogicalOperation es k). dependency_start e})),
          ledger_commits = int (length (filter committed_effect (eventsForLogicalOperation es k)))\<rparr>
     \<and> ((\<forall>e\<in>set es. ev_id e \<noteq> []) \<longrightarrow>
          set (elems (or_evidence r)) \<subseteq> ev_id ` set (eventsForLogicalOperation es k))"
proof -
  obtain k where k: "selected_operation es k" "evaluate es = Inr (scan_result k es)"
    using evaluate_selected [OF assms] .
  have "duplicate_effect es k = (\<exists>j. duplicate_effect es j)"
    using k(1) by (auto simp: selected_operation_def split: if_splits)
  moreover have "or_oracle (scan_result k es) = oracleRef" by (simp add: scan_result_def Let_def)
  ultimately show ?thesis using k scan_result_effects [of k es] scan_result_evidence [of es k] by auto
qed

lemma golden_verdict: "evaluate golden_events = Inr \<lparr>or_oracle = oracleRef, or_matched = True,
    or_effects = \<lparr>payment_attempts = 0, ledger_commits = 2\<rparr>, or_evidence = Some [''t'', ''r'', ''l'', ''m''],
    or_explanation = ''One logical checkout (l) produced 2 committed ledger effects after a timeout-driven retry.''\<rparr>"
  by code_simp

theorem oracle_rule_witness:
  "\<exists>k. selected_operation golden_events k
     \<and> (\<exists>r. evaluate golden_events = Inr r \<and> or_matched r \<and> ledger_commits (or_effects r) = 2)"
proof -
  have "golden_events \<noteq> []" by (simp add: golden_events_def)
  from oracle_rule [OF this] show ?thesis using golden_verdict by auto
qed

lemma duplicate_effect_mset:
  assumes "mset es = mset fs"
  shows "duplicate_effect es k = duplicate_effect fs k"
proof -
  have "mset (eventsForLogicalOperation es k) = mset (eventsForLogicalOperation fs k)"
    unfolding eventsForLogicalOperation_def using assms by (simp add: mset_filter)
  then have "set (eventsForLogicalOperation es k) = set (eventsForLogicalOperation fs k)"
    and "length (filter committed_effect (eventsForLogicalOperation es k))
       = length (filter committed_effect (eventsForLogicalOperation fs k))"
    by (metis set_mset_mset, metis mset_filter size_mset)
  then show ?thesis by (simp add: duplicate_effect_def Let_def)
qed

lemma selected_unique: "selected_operation es j \<Longrightarrow> selected_operation es k \<Longrightarrow> j = k"
  by (auto simp: selected_operation_def split: if_splits intro: antisym)

lemma selected_mset:
  assumes "mset es = mset fs"
  shows "selected_operation es k = selected_operation fs k"
  using mset_eq_setD [OF assms] by (simp add: selected_operation_def duplicate_effect_mset [OF assms])

text \<open>C32: the verdict and the counts of the oracle do not depend on the order in which the events are
  given: two arrangements of the same events are judged alike.\<close>

theorem oracle_order_free:
  assumes "mset es = mset fs"
  shows "map_sum id (\<lambda>r. (or_matched r, or_effects r)) (evaluate es)
       = map_sum id (\<lambda>r. (or_matched r, or_effects r)) (evaluate fs)"
proof (cases "es = []")
  case True
  with assms show ?thesis by simp
next
  case False
  with assms have fs: "fs \<noteq> []" by auto
  obtain k where k: "selected_operation es k" "evaluate es = Inr (scan_result k es)"
    using evaluate_selected [OF False] .
  obtain j where j: "selected_operation fs j" "evaluate fs = Inr (scan_result j fs)"
    using evaluate_selected [OF fs] .
  have [simp]: "j = k" using selected_unique j(1) k(1) selected_mset [OF assms] by blast
  have m: "mset (eventsForLogicalOperation es k) = mset (eventsForLogicalOperation fs k)"
    unfolding eventsForLogicalOperation_def using assms by (simp add: mset_filter)
  then have "length (filter committed_effect (eventsForLogicalOperation es k))
      = length (filter committed_effect (eventsForLogicalOperation fs k))"
    by (metis mset_filter size_mset)
  with k j mset_eq_setD [OF m] show ?thesis
    by (simp add: scan_result_effects duplicate_effect_mset [OF assms])
qed

theorem oracle_order_free_witness:
  "map_sum id (\<lambda>r. (or_matched r, or_effects r)) (evaluate (rev golden_events))
     = (Inr (True, \<lparr>payment_attempts = 0, ledger_commits = 2\<rparr>) :: pack_error + bool \<times> effect_summary)"
  using oracle_order_free [of "rev golden_events" golden_events] golden_verdict by simp

text \<open>C33: on valid events whose ids are not blank the oracle answers with a result that passes the contract
  check, whatever the events are.\<close>

theorem oracle_result_valid:
  assumes "es \<noteq> []" and "\<forall>e\<in>set es. event_validate e = None \<and> \<not> blank (ev_id e)"
  shows "\<exists>r. evaluate es = Inr r \<and> oracle_result_validate r = None"
proof -
  obtain k where "evaluate es = Inr (scan_result k es)" using evaluate_selected [OF assms(1)] by blast
  with evaluate_valid [OF assms(2)] show ?thesis by blast
qed

lemma golden_valid: "\<forall>e\<in>set golden_events. event_validate e = None \<and> \<not> blank (ev_id e)"
  by code_simp

theorem oracle_result_valid_witness:
  "\<exists>r. evaluate golden_events = Inr r \<and> oracle_result_validate r = None"
  by (rule oracle_result_valid [OF _ golden_valid]) (simp add: golden_events_def)

text \<open>An event whose id is a space passes the event check, and the result of the oracle on it is
  rejected by its own contract: \<open>ExecutionEvent.Validate\<close> asks for a non-empty id, \<open>nonemptyStrings\<close> for one
  that is not blank.\<close>

lemma blank_id_breaks_oracle:
  "\<exists>e r. event_validate e = None \<and> evaluate [e] = Inr r \<and> oracle_result_validate r \<noteq> None"
proof -
  define e where "e = sample_event '' '' ''2026-01-01T00:00:00Z'' 1"
  have "event_validate e = None" unfolding e_def by code_simp
  moreover have "case evaluate [e] of Inl _ \<Rightarrow> False | Inr r \<Rightarrow> oracle_result_validate r \<noteq> None"
    unfolding e_def by code_simp
  moreover obtain r where "evaluate [e] = Inr r" using evaluate_selected [of "[e]"] by auto
  ultimately show ?thesis by auto
qed

text \<open>C34: the alignment pairs the events of two executions key by key: for every semantic key (component,
  operation, type, logical operation, attempt) the i-th event of the baseline is matched with the i-th event
  of the comparison, the surplus of the baseline is removed, and the surplus of the comparison is added
  (when the comparison has distinct ids); a matched pair with two statuses is a change.\<close>

theorem alignment_by_key:
  "\<exists>ps added removed.
     Align b c = Inr (Some (map alignment_of ps), Some (map ev_id added), Some (map ev_id removed),
       Some (map status_change (filter (\<lambda>p. ev_status (fst p) \<noteq> ev_status (snd p)) ps)))
     \<and> (\<forall>k. filter (\<lambda>p. keyOf (fst p) = k) ps = zip (of_key k (ex_events b)) (of_key k (ex_events c))
          \<and> of_key k removed = drop (length (of_key k (ex_events c))) (of_key k (ex_events b))
          \<and> (distinct (map ev_id (ex_events c)) \<longrightarrow>
               of_key k added = drop (length (of_key k (ex_events b))) (of_key k (ex_events c))))"
proof -
  let ?ps = "pair_up (ex_events c) (\<lambda>_. 0) (ex_events b)"
  let ?ms = "pairs_matched ?ps"
  let ?added = "filter (\<lambda>e. ev_id e \<notin> ev_id ` snd ` set ?ms) (ex_events c)"
  have "Align b c = Inr (Some (map alignment_of ?ms), Some (map ev_id ?added), Some (map ev_id (pairs_removed ?ps)),
       Some (map status_change (filter (\<lambda>p. ev_status (fst p) \<noteq> ev_status (snd p)) ?ms)))"
    by (simp add: Align_eq Let_def added_ids_def)
  moreover have "filter (\<lambda>p. keyOf (fst p) = k) ?ms = zip (of_key k (ex_events b)) (of_key k (ex_events c))
      \<and> of_key k (pairs_removed ?ps) = drop (length (of_key k (ex_events c))) (of_key k (ex_events b))
      \<and> (distinct (map ev_id (ex_events c)) \<longrightarrow>
           of_key k ?added = drop (length (of_key k (ex_events b))) (of_key k (ex_events c)))" for k
    using pair_up_of_key [of k "ex_events c" "\<lambda>_. 0" "ex_events b"] added_of_key by simp
  ultimately show ?thesis by blast
qed

theorem alignment_by_key_witness:
  "\<forall>x. distinct (map ev_id golden_events)
     \<and> (\<exists>a added. Align x (x\<lparr>ex_events := golden_events\<rparr>) = Inr a \<and> fst (snd a) = Some (map ev_id added)
         \<and> (\<forall>k. of_key k added = drop (length (of_key k (ex_events x))) (of_key k golden_events)))"
proof (intro allI conjI)
  fix x
  show ids: "distinct (map ev_id golden_events)" by (simp add: golden_events_def step_event_def sample_event_def)
  from alignment_by_key [of x "x\<lparr>ex_events := golden_events\<rparr>"] obtain ps added and removed :: "execution_event list" where
    "Align x (x\<lparr>ex_events := golden_events\<rparr>)
       = Inr (Some (map alignment_of ps), Some (map ev_id added), Some (map ev_id removed),
           Some (map status_change (filter (\<lambda>p. ev_status (fst p) \<noteq> ev_status (snd p)) ps)))"
    and "\<forall>k. of_key k added = drop (length (of_key k (ex_events x))) (of_key k golden_events)"
    using ids by (simp del: distinct_map split_paired_All) blast
  then show "\<exists>a added. Align x (x\<lparr>ex_events := golden_events\<rparr>) = Inr a \<and> fst (snd a) = Some (map ev_id added)
      \<and> (\<forall>k. of_key k added = drop (length (of_key k (ex_events x))) (of_key k golden_events))"
    by (simp only:) (intro exI conjI, rule refl, simp, assumption)
qed

text \<open>Two executions with the same events align perfectly: every event is matched with itself, nothing
  is added, removed or changed.\<close>

lemma alignment_reflexive:
  assumes "ex_events c = ex_events b"
  shows "Align b c = Inr (Some (map (\<lambda>e. \<lparr>al_baseline = ev_id e, al_comparison = ev_id e\<rparr>) (ex_events b)),
     Some [], Some [], Some [])"
proof -
  have matched: "pairs_matched (map (\<lambda>e. (e, Some e)) es) = map (\<lambda>e. (e, e)) es" for es
    by (induction es) simp_all
  have removed: "pairs_removed (map (\<lambda>e. (e, Some e)) es) = []" for es
    by (induction es) simp_all
  show ?thesis
    by (simp add: Align_eq Let_def assms pair_up_same matched removed added_ids_def alignment_of_def comp_def
        filter_empty_conv image_image)
qed

end
