(* ===== verification/DevPack.thy ===== *)
theory DevPack
  imports Differential
begin

text \<open>
  The dev pack, internal/packregistry/devpack.go, and the registry that resolves a pack from its token,
  internal/packregistry/registry.go. The loop of \<open>alignEvents\<close> ranges over a Go map: \<open>ord\<close> is the order in
  which it visits the keys (any rearrangement of them).
\<close>

section \<open>Oracle, fixtures and plan\<close>

definition dev_oracle :: "bool \<Rightarrow> int \<Rightarrow> int \<Rightarrow> string \<Rightarrow> oracle_result" where
  "dev_oracle matched attempts commits explanation =
     \<lparr>or_oracle = \<lparr>oracle_id = ''duplicate_ledger_effect'', oracle_version = ''1.0.0''\<rparr>, or_matched = matched,
       or_effects = \<lparr>payment_attempts = attempts, ledger_commits = commits\<rparr>,
       or_evidence = Some [''evt-timeout'', ''evt-retry'', ''evt-ledger-1'', ''evt-ledger-2''],
       or_explanation = explanation\<rparr>"

definition dev_Descriptor :: system_pack_ref where
  "dev_Descriptor = \<lparr>pack_id = ''checkout_duplicate_effect_dev'', pack_version = ''0.0.0-dev'',
     pack_interface = ContractVersion\<rparr>"

definition dev_Normalize :: "raw_evidence \<Rightarrow> pack_error + execution_event list" where
  "dev_Normalize raw = Inl (PackError ''dev pack: Normalize is not provided; capture translation is the real pack's responsibility'')"

definition dev_DetectIncident :: "execution_event list \<Rightarrow> pack_error + oracle_result" where
  "dev_DetectIncident es = Inr (dev_oracle True 2 2 ''dev pack: duplicate-effect oracle matched'')"

definition dev_ExtractFixtures :: "incident \<Rightarrow> execution_event list \<Rightarrow> pack_error + fixture_set" where
  "dev_ExtractFixtures i es = Inr \<lparr>
     fs_state = [\<lparr>sf_id = ''state-ledger-empty'', sf_kind = StateFixturePostgresRowset,
       sf_ref = ''fixture://golden/ledger-empty-v1'', sf_digest = replicate 64 (CHR ''b''),
       sf_sanitization = SanitizationPass, sf_reset = FixtureTruncateAndLoad\<rparr>],
     fs_dependency = [\<lparr>df_id = ''dependency-payment-350ms'', df_dependency = DependencyPaymentSimulator,
       df_request = Some [(''logical_operation_id'', VStr ''checkout-8271'')],
       df_response = Some [(''status'', VStr ''APPROVED'')], df_latency = 350,
       df_failure_mode = FailureModeNone, df_limit = 2\<rparr>]\<rparr>"

definition dev_BuildReplayPlan :: "incident \<Rightarrow> fixture_set \<Rightarrow> pack_error + replay_plan" where
  "dev_BuildReplayPlan i fs = Inr \<lparr>plan_entrypoint = ''gateway.checkout'',
     plan_components = Some [''gateway'', ''checkout'', ''payment'', ''ledger''],
     plan_load_order = Some (map sf_id (fs_state fs) @ map df_id (fs_dependency fs)),
     plan_reset = ReplayResetGoldenV1\<rparr>"

definition dev_interventions :: "intervention_spec list" where
  "dev_interventions = [\<lparr>ispec_type = InterventionPaymentLatency, ispec_value_type = InterventionValueInteger,
     ispec_unit = InterventionUnitMilliseconds, ispec_min = 0, ispec_max = 5000\<rparr>]"

definition dev_EvaluateOutcome :: "replay_execution \<Rightarrow> pack_error + oracle_result" where
  "dev_EvaluateOutcome x =
     (if run_kind (ex_run x) = RunTypeWhatIf
      then Inr (dev_oracle False 1 1 ''dev pack: what-if completed before timeout; no retry or duplicate effect'')
      else Inr (dev_oracle True 2 2 ''dev pack: baseline reproduced the timeout-driven duplicate ledger effect''))"

section \<open>Alignment\<close>

text \<open>The parts of the key are joined with a zero byte.\<close>

definition semanticKey :: "execution_event \<Rightarrow> string" where
  "semanticKey e = comp_name (ev_component e) @ char_of (0 :: nat) # op_name (ev_operation e) @ char_of (0 :: nat) #
     event_type_str (ev_type e) @ char_of (0 :: nat) # ev_logical_op e @ char_of (0 :: nat) # int_dec (ev_attempt e)"

definition keys_of :: "execution_event list \<Rightarrow> string list" where
  "keys_of es = remdups (map semanticKey es)"

text \<open>\<open>indexByKey\<close>: the ids of the events with a key, in order.\<close>

definition indexByKey :: "execution_event list \<Rightarrow> string \<Rightarrow> string list" where
  "indexByKey es k = map ev_id (filter (\<lambda>e. semanticKey e = k) es)"

text \<open>\<open>byEventID\<close>: a later event replaces an earlier one with the same id; a missing id is the zero event.\<close>

definition byEventID :: "execution_event list \<Rightarrow> string \<Rightarrow> execution_event" where
  "byEventID es i = (case find (\<lambda>e. ev_id e = i) (rev es) of None \<Rightarrow> zero_event | Some e \<Rightarrow> e)"

definition field_change :: "execution_event \<Rightarrow> execution_event \<Rightarrow> string \<Rightarrow> go_value \<Rightarrow> go_value \<Rightarrow> event_change" where
  "field_change b c f v w = \<lparr>ch_baseline = ev_id b, ch_comparison = ev_id c, ch_field = f,
     ch_baseline_value = v, ch_comparison_value = w\<rparr>"

text \<open>A nil map of attributes is written \<open>VNil\<close>.\<close>

definition object_value :: "go_object \<Rightarrow> go_value" where
  "object_value m = (case m of None \<Rightarrow> VNil | Some kvs \<Rightarrow> VObj kvs)"

definition firstMeaningfulChange :: "execution_event \<Rightarrow> execution_event \<Rightarrow> event_change option" where
  "firstMeaningfulChange b c =
     (if ev_type b \<noteq> ev_type c
      then Some (field_change b c ''event_type'' (VStr (event_type_str (ev_type b))) (VStr (event_type_str (ev_type c))))
      else if ev_status b \<noteq> ev_status c
      then Some (field_change b c ''status'' (VStr (event_status_str (ev_status b))) (VStr (event_status_str (ev_status c))))
      else if ev_duration b \<noteq> ev_duration c
      then Some (field_change b c ''duration_ms'' (VIntPtr (ev_duration b)) (VIntPtr (ev_duration c)))
      else if \<not> deep_equal_object (ev_attributes b) (ev_attributes c)
      then Some (field_change b c ''attributes'' (object_value (ev_attributes b)) (object_value (ev_attributes c)))
      else None)"

definition shared_pairs :: "execution_event list \<Rightarrow> execution_event list \<Rightarrow> string \<Rightarrow> event_alignment list" where
  "shared_pairs bs cs k =
     map (\<lambda>(i, j). \<lparr>al_baseline = i, al_comparison = j\<rparr>) (zip (indexByKey bs k) (indexByKey cs k))"

definition surplus :: "execution_event list \<Rightarrow> execution_event list \<Rightarrow> string \<Rightarrow> string list" where
  "surplus bs cs k = drop (min (length (indexByKey bs k)) (length (indexByKey cs k))) (indexByKey bs k)"

definition change_less :: "event_change \<Rightarrow> event_change \<Rightarrow> bool" where
  "change_less a b =
     (if ch_baseline a \<noteq> ch_baseline b then ch_baseline a < ch_baseline b else ch_field a < ch_field b)"

definition dev_pairs :: "(string list \<Rightarrow> string list) \<Rightarrow> execution_event list \<Rightarrow> execution_event list \<Rightarrow> event_alignment list" where
  "dev_pairs ord bs cs = concat (map (shared_pairs bs cs) (ord (keys_of bs)))"

definition dev_changes :: "execution_event list \<Rightarrow> execution_event list \<Rightarrow> event_alignment list \<Rightarrow> event_change list" where
  "dev_changes bs cs ms = List.map_filter
     (\<lambda>m. firstMeaningfulChange (byEventID bs (al_baseline m)) (byEventID cs (al_comparison m))) ms"

text \<open>The loop visits the keys of the baseline only.\<close>

definition alignEvents :: "(string list \<Rightarrow> string list) \<Rightarrow> execution_event list \<Rightarrow> execution_event list
    \<Rightarrow> event_alignment list \<times> string list \<times> string list \<times> event_change list" where
  "alignEvents ord bs cs =
     (let ks = ord (keys_of bs); ms = dev_pairs ord bs cs
      in (sort_by (\<lambda>a b. al_baseline a < al_baseline b) ms,
          sort_strings (concat (map (surplus cs bs) ks)),
          sort_strings (concat (map (surplus bs cs) ks)),
          sort_by change_less (dev_changes bs cs ms)))"

definition dev_Align :: "(string list \<Rightarrow> string list) \<Rightarrow> replay_execution \<Rightarrow> replay_execution \<Rightarrow> pack_error + alignment" where
  "dev_Align ord b c =
     (case alignEvents ord (ex_events b) (ex_events c) of (matched, added, removed, changes) \<Rightarrow>
        Inr (Some matched, Some added, Some removed, Some changes))"

definition effects_for :: "replay_run \<Rightarrow> effect_summary \<Rightarrow> effect_summary" where
  "effects_for run fallback = (case run_effects run of Some e \<Rightarrow> e | None \<Rightarrow> fallback)"

definition oracle_for :: "replay_run \<Rightarrow> oracle_result \<Rightarrow> oracle_result" where
  "oracle_for run fallback = (case run_oracle run of Some r \<Rightarrow> r | None \<Rightarrow> fallback)"

definition dev_Compare :: "(string list \<Rightarrow> string list) \<Rightarrow> string \<Rightarrow> replay_execution \<Rightarrow> replay_execution
    \<Rightarrow> pack_error + replay_diff" where
  "dev_Compare ord k b c =
     (case run_intervention (ex_run c) of
        None \<Rightarrow> Inl (PackError ''dev pack: comparison run requires exactly one intervention to build a diff'')
      | Some i \<Rightarrow>
        (case alignEvents ord (ex_events b) (ex_events c) of (matched, added, removed, changes) \<Rightarrow>
          let eb = effects_for (ex_run b) \<lparr>payment_attempts = 2, ledger_commits = 2\<rparr>;
              ec = effects_for (ex_run c) \<lparr>payment_attempts = 1, ledger_commits = 1\<rparr>;
              ob = oracle_for (ex_run b) (dev_oracle True 2 2 ''dev pack: baseline reproduced the duplicate effect'');
              oc = oracle_for (ex_run c) (dev_oracle False 1 1 ''dev pack: what-if completed before timeout, no duplicate effect'')
          in Inr \<lparr>diff_schema = ContractVersion, diff_id = k, diff_baseline = run_id (ex_run b),
               diff_comparison = run_id (ex_run c), diff_alignment = ContractVersion, diff_intervention = i,
               diff_baseline_oracle = ob\<lparr>or_effects := eb\<rparr>, diff_comparison_oracle = oc\<lparr>or_effects := ec\<rparr>,
               diff_matched = Some matched, diff_added = Some added, diff_removed = Some removed,
               diff_changed = Some changes, diff_divergence = None, diff_baseline_effects = eb,
               diff_comparison_effects = ec, diff_delta = effects_delta eb ec,
               diff_evidence = ''Dev pack aligned '' @ nat_dec (length matched) @ '' matched, ''
                 @ nat_dec (length added) @ '' added, '' @ nat_dec (length removed) @ '' removed, ''
                 @ nat_dec (length changes) @ '' changed.'',
               diff_limitations = Some [''Dev pack only; not production evidence.'']\<rparr>))"

definition dev_pack :: "(string list \<Rightarrow> string list) \<Rightarrow> system_pack" where
  "dev_pack ord = \<lparr>pk_descriptor = dev_Descriptor, pk_normalize = dev_Normalize,
     pk_detect = dev_DetectIncident, pk_extract = dev_ExtractFixtures, pk_plan = dev_BuildReplayPlan,
     pk_validate = (\<lambda>_. []), pk_interventions = dev_interventions, pk_apply = (\<lambda>p _. Inr p),
     pk_compare = dev_Compare ord, pk_evaluate = dev_EvaluateOutcome,
     pk_labels = \<lparr>lab_components = None, lab_operations = None, lab_event_types = None,
       lab_effects = None, lab_interventions = None\<rparr>,
     pk_align = (\<lambda>_. dev_Align ord)\<rparr>"

section \<open>What the alignment says\<close>

lemma mset_by_key:
  "distinct ks \<Longrightarrow> mset (concat (map (\<lambda>k. filter (\<lambda>x. f x = k) xs) ks)) = mset (filter (\<lambda>x. f x \<in> set ks) xs)"
proof (induction ks)
  case (Cons k ks)
  have "mset (filter (\<lambda>x. f x \<in> set (k # ks)) xs)
      = mset (filter (\<lambda>x. f x = k) xs) + mset (filter (\<lambda>x. f x \<in> set ks) xs)"
    using Cons.prems by (induction xs) auto
  with Cons show ?case by simp
qed simp

lemma mset_index:
  assumes "distinct ks"
  shows "mset (concat (map (indexByKey es) ks)) = mset (map ev_id (filter (\<lambda>e. semanticKey e \<in> set ks) es))"
proof -
  have "concat (map (indexByKey es) ks) = map ev_id (concat (map (\<lambda>k. filter (\<lambda>e. semanticKey e = k) es) ks))"
    by (simp add: indexByKey_def [abs_def] map_concat comp_def)
  then show ?thesis using arg_cong [OF mset_by_key [OF assms, of semanticKey es], of "image_mset ev_id"] by simp
qed

lemma pairs_baseline [simp]:
  "map al_baseline (shared_pairs bs cs k) = take (length (indexByKey cs k)) (indexByKey bs k)"
  by (simp add: shared_pairs_def comp_def split_beta map_fst_zip_take min_def flip: map_map)
    (simp add: comp_def split_beta map_fst_zip_take [unfolded comp_def] min_def)

lemma pairs_comparison [simp]:
  "map al_comparison (shared_pairs bs cs k) = take (length (indexByKey bs k)) (indexByKey cs k)"
  by (simp add: shared_pairs_def comp_def split_beta map_snd_zip_take [unfolded comp_def] min_def)

lemma surplus_eq: "surplus bs cs k = drop (length (indexByKey cs k)) (indexByKey bs k)"
  by (simp add: surplus_def min_def)

lemma map_concat_comp: "map f (concat (map g ks)) = concat (map (\<lambda>k. map f (g k)) ks)"
  by (simp add: map_concat comp_def)

lemma mset_concat_split:
  "mset (concat (map (\<lambda>k. take (n k) (f k)) ks)) + mset (concat (map (\<lambda>k. drop (n k) (f k)) ks)) = mset (concat (map f ks))"
proof (induction ks)
  case (Cons k ks)
  have "mset (f k) = mset (take (n k) (f k)) + mset (drop (n k) (f k))"
    by (metis append_take_drop_id mset_append)
  then show ?case by (simp add: Cons.IH [symmetric] ac_simps)
qed simp

lemma keys_of_all: "e \<in> set es \<Longrightarrow> semanticKey e \<in> set (keys_of es)"
  by (simp add: keys_of_def)

lemma iteration_keys:
  assumes "mset ks = mset (keys_of es)"
  shows "distinct ks" "set ks = set (keys_of es)"
  using mset_eq_imp_distinct_iff [OF assms] mset_eq_setD [OF assms] by (simp_all add: keys_of_def)

text \<open>The order in which the keys are visited does not matter for what is collected.\<close>

lemma dev_pairs_splits:
  assumes ord: "mset (ord (keys_of bs)) = mset (keys_of bs)"
  shows "mset (map al_baseline (dev_pairs ord bs cs)) + mset (concat (map (surplus bs cs) (ord (keys_of bs))))
           = mset (map ev_id bs)"
    and "mset (map al_comparison (dev_pairs ord bs cs)) \<subseteq># mset (map ev_id cs)"
proof -
  let ?ks = "ord (keys_of bs)"
  have all: "filter (\<lambda>e. semanticKey e \<in> set ?ks) bs = bs"
    using iteration_keys [OF ord] keys_of_all by (simp add: filter_id_conv)
  show "mset (map al_baseline (dev_pairs ord bs cs)) + mset (concat (map (surplus bs cs) ?ks)) = mset (map ev_id bs)"
    unfolding dev_pairs_def map_concat_comp surplus_eq pairs_baseline mset_concat_split
    using mset_index [OF iteration_keys(1) [OF ord], of bs] by (simp only: all)
  have "mset (map al_comparison (dev_pairs ord bs cs)) \<subseteq># mset (concat (map (indexByKey cs) ?ks))"
    unfolding dev_pairs_def map_concat_comp pairs_comparison
    using mset_concat_split [of "\<lambda>k. length (indexByKey bs k)" "indexByKey cs" ?ks] by (metis mset_subset_eq_add_left)
  also have "\<dots> \<subseteq># mset (map ev_id cs)"
    using mset_index [OF iteration_keys(1) [OF ord], of cs] by (simp add: image_mset_subseteq_mono multiset_filter_subset)
  finally show "mset (map al_comparison (dev_pairs ord bs cs)) \<subseteq># mset (map ev_id cs)" .
qed

lemma dev_oracle_valid: "0 \<le> a \<Longrightarrow> 0 \<le> n \<Longrightarrow> \<not> blank s \<Longrightarrow> oracle_result_validate (dev_oracle m a n s) = None"
  by (simp add: dev_oracle_def oracle_result_validate_None_iff effects_validate_None_iff byte_def)

lemma dev_evaluate_valid:
  assumes "dev_EvaluateOutcome x = Inr r"
  shows "oracle_result_validate r = None"
proof -
  have v: "oracle_result_validate (dev_oracle m a n (CHR ''d'' # s)) = None" if "0 \<le> a" "0 \<le> n" for m a n s
    by (rule dev_oracle_valid [OF that not_blank_Cons]) (simp_all add: byte_def)
  consider "r = dev_oracle False 1 1 ''dev pack: what-if completed before timeout; no retry or duplicate effect''"
    | "r = dev_oracle True 2 2 ''dev pack: baseline reproduced the timeout-driven duplicate ledger effect''"
    using assms by (auto simp: dev_EvaluateOutcome_def split: if_splits)
  then show ?thesis by cases (simp_all add: v)
qed

lemma dev_pack_contract:
  assumes ord: "\<And>es. mset (ord (keys_of es)) = mset (keys_of es)"
  shows "pack_contract (dev_pack ord)"
proof
  show "same_plan p q" if "pk_apply (dev_pack ord) p i = Inr q" for p i q
    using that by (simp add: dev_pack_def same_plan_def)
  show "oracle_result_validate r = None"
    if "\<forall>e\<in>set (ex_events x). event_validate e = None \<and> \<not> blank (ev_id e)" "pk_evaluate (dev_pack ord) x = Inr r" for x r
    using that(2) dev_evaluate_valid by (simp add: dev_pack_def)
  show "alignment_splits b c a" if "pk_align (dev_pack ord) k b c = Inr a" for k b c a
  proof -
    let ?bs = "ex_events b" and ?cs = "ex_events c"
    have "a = (Some (sort_by (\<lambda>a b. al_baseline a < al_baseline b) (dev_pairs ord ?bs ?cs)),
        Some (sort_strings (concat (map (surplus ?cs ?bs) (ord (keys_of ?bs))))),
        Some (sort_strings (concat (map (surplus ?bs ?cs) (ord (keys_of ?bs))))),
        Some (sort_by change_less (dev_changes ?bs ?cs (dev_pairs ord ?bs ?cs))))"
      using that by (simp add: dev_pack_def dev_Align_def alignEvents_def Let_def)
    with dev_pairs_splits [of ord ?bs ?cs, OF ord] show ?thesis
      by (simp add: alignment_splits_def sort_strings_def)
  qed
qed

interpretation dev: pack_contract "dev_pack (\<lambda>ks. ks)"
  by (rule dev_pack_contract) simp

section \<open>The registry\<close>

text \<open>A factory answers with a pack or with nil; a nil factory is \<open>None\<close>.\<close>

type_synonym factory = "unit \<Rightarrow> system_pack option"

type_synonym registry = "factory table"

definition Register :: "string \<Rightarrow> factory option \<Rightarrow> registry \<Rightarrow> registry" where
  "Register name f r =
     (if name = [] then r else case f of None \<Rightarrow> r | Some g \<Rightarrow> table_put name g r)"

definition Resolve :: "registry \<Rightarrow> string \<Rightarrow> system_pack option" where
  "Resolve r name = (case table_get r name of None \<Rightarrow> None | Some f \<Rightarrow> f ())"

definition Names :: "registry \<Rightarrow> string list" where
  "Names r = sort_strings (map fst r)"

end
