(* ===== verification/DevPackProps.thy ===== *)
theory DevPackProps
  imports DevPack
begin

text \<open>
  What the dev pack and the registry promise: an alignment that does not depend on map iteration order, with
  its blind spot, and registrations where the last one wins.
\<close>

section \<open>Properties\<close>

lemma byEventID_id: "i \<in> ev_id ` set es \<Longrightarrow> ev_id (byEventID es i) = i"
proof -
  assume "i \<in> ev_id ` set es"
  then have "find (\<lambda>e. ev_id e = i) (rev es) \<noteq> None" by (auto simp: find_None_iff)
  then obtain e where "find (\<lambda>e. ev_id e = i) (rev es) = Some e" by blast
  moreover from this have "ev_id e = i" by (auto simp: find_Some_iff)
  ultimately show ?thesis by (simp add: byEventID_def)
qed

lemma meaningful_ids:
  "firstMeaningfulChange b c = Some ch \<Longrightarrow> ch_baseline ch = ev_id b \<and> ch_comparison ch = ev_id c"
  by (auto simp: firstMeaningfulChange_def field_change_def split: if_splits)

lemma mset_map_filter_cong: "mset xs = mset ys \<Longrightarrow> mset (List.map_filter f xs) = mset (List.map_filter f ys)"
  by (simp add: map_filter_def mset_filter)

interpretation by_baseline: key_order "\<lambda>a b. al_baseline a < al_baseline b" al_baseline
  by unfold_locales simp

interpretation by_change: key_order change_less "\<lambda>c. (ch_baseline c, ch_field c)"
  by unfold_locales (auto simp: change_less_def less_prod_def)

lemma mset_visit: "mset ks = mset js \<Longrightarrow> mset (concat (map f ks)) = mset (concat (map f js))"
proof -
  assume "mset ks = mset js"
  then have "image_mset (\<lambda>k. mset (f k)) (mset ks) = image_mset (\<lambda>k. mset (f k)) (mset js)" by simp
  then have "sum_list (map (\<lambda>k. mset (f k)) ks) = sum_list (map (\<lambda>k. mset (f k)) js)"
    by (simp flip: sum_mset_sum_list)
  then show ?thesis by (simp add: mset_concat comp_def)
qed

lemma pairs_injective:
  assumes ids: "distinct (map ev_id bs)" and ord: "mset (ord (keys_of bs)) = mset (keys_of bs)"
  shows "distinct (map al_baseline (dev_pairs ord bs cs))"
    and "al_baseline ` set (dev_pairs ord bs cs) \<subseteq> ev_id ` set bs"
proof -
  let ?ms = "map al_baseline (dev_pairs ord bs cs)" and ?rest = "concat (map (surplus bs cs) (ord (keys_of bs)))"
  have all: "mset (?ms @ ?rest) = mset (map ev_id bs)"
    using dev_pairs_splits(1) [where ord = ord and bs = bs and cs = cs, OF ord] by simp
  then have "distinct (?ms @ ?rest)" using mset_eq_imp_distinct_iff ids by blast
  then show "distinct ?ms" by simp
  from mset_eq_setD [OF all] show "al_baseline ` set (dev_pairs ord bs cs) \<subseteq> ev_id ` set bs" by auto
qed

lemma changes_injective:
  assumes "distinct (map al_baseline ms)" and "al_baseline ` set ms \<subseteq> ev_id ` set bs"
  shows "inj_on (\<lambda>ch. (ch_baseline ch, ch_field ch)) (set (dev_changes bs cs ms))"
proof (rule inj_onI)
  fix x y
  assume "x \<in> set (dev_changes bs cs ms)" "y \<in> set (dev_changes bs cs ms)"
    and same: "(ch_baseline x, ch_field x) = (ch_baseline y, ch_field y)"
  then obtain m n where m: "m \<in> set ms" "firstMeaningfulChange (byEventID bs (al_baseline m)) (byEventID cs (al_comparison m)) = Some x"
    and n: "n \<in> set ms" "firstMeaningfulChange (byEventID bs (al_baseline n)) (byEventID cs (al_comparison n)) = Some y"
    by (auto simp: dev_changes_def map_filter_def)
  have "al_baseline m = ch_baseline x" "al_baseline n = ch_baseline y"
    using m n meaningful_ids [OF m(2)] meaningful_ids [OF n(2)] byEventID_id assms(2) by auto
  with same assms(1) m(1) n(1) have "m = n" by (simp add: distinct_map inj_on_def)
  with m(2) n(2) show "x = y" by simp
qed

text \<open>The alignment of the dev pack does not depend on the order in which Go iterates over its maps, when
  the events of the baseline have distinct ids.\<close>

lemma dev_alignment_deterministic:
  assumes "distinct (map ev_id (ex_events b))"
    and "mset (ord (keys_of (ex_events b))) = mset (keys_of (ex_events b))"
    and "mset (ord' (keys_of (ex_events b))) = mset (keys_of (ex_events b))"
  shows "dev_Align ord b c = dev_Align ord' b c"
proof -
  let ?bs = "ex_events b" and ?cs = "ex_events c"
  let ?ms = "dev_pairs ord ?bs ?cs" and ?ns = "dev_pairs ord' ?bs ?cs"
  have visit: "mset (concat (map f (ord (keys_of ?bs)))) = mset (concat (map f (ord' (keys_of ?bs))))"
    for f :: "string \<Rightarrow> 'z list"
    using assms(2,3) by (intro mset_visit) simp
  have pairs: "mset ?ms = mset ?ns" unfolding dev_pairs_def by (rule visit)
  note inj = pairs_injective [where ord = ord and cs = ?cs, OF assms(1,2)]
  have matched: "sort_by (\<lambda>a b. al_baseline a < al_baseline b) ?ms = sort_by (\<lambda>a b. al_baseline a < al_baseline b) ?ns"
    using inj(1) by (intro by_baseline.sort_by_unique pairs) (simp add: distinct_map)
  have "inj_on (\<lambda>ch. (ch_baseline ch, ch_field ch)) (set (dev_changes ?bs ?cs ?ms))"
    by (rule changes_injective [OF inj])
  then have changes: "sort_by change_less (dev_changes ?bs ?cs ?ms) = sort_by change_less (dev_changes ?bs ?cs ?ns)"
    by (intro by_change.sort_by_unique) (simp_all add: dev_changes_def mset_map_filter_cong [OF pairs])
  have strings: "sort_strings (concat (map f (ord (keys_of ?bs)))) = sort_strings (concat (map f (ord' (keys_of ?bs))))" for f
    unfolding sort_strings_def by (rule string_order.sort_by_unique [OF visit]) simp
  show ?thesis by (simp add: dev_Align_def alignEvents_def Let_def matched changes strings)
qed


definition dev_sample :: "string list \<Rightarrow> execution_event list" where
  "dev_sample is = map (\<lambda>i. (sample_event i ''2026-01-01T00:00:00Z'' 1)\<lparr>ev_logical_op := i\<rparr>) is"

lemma dev_alignment_deterministic_witness:
  "\<forall>x c. dev_Align rev (x\<lparr>ex_events := dev_sample [''a'', ''b'']\<rparr>) c
     = dev_Align (\<lambda>ks. ks) (x\<lparr>ex_events := dev_sample [''a'', ''b'']\<rparr>) c"
proof (intro allI)
  fix x c
  show "dev_Align rev (x\<lparr>ex_events := dev_sample [''a'', ''b'']\<rparr>) c
     = dev_Align (\<lambda>ks. ks) (x\<lparr>ex_events := dev_sample [''a'', ''b'']\<rparr>) c"
    by (rule dev_alignment_deterministic) (simp_all add: dev_sample_def sample_event_def)
qed

text \<open>The dev pack visits the keys of the baseline only: an event of the comparison whose key the baseline
  does not have is neither matched nor reported as added.\<close>

lemma dev_pack_misses_added:
  assumes "mset (ord (keys_of (ex_events b))) = mset (keys_of (ex_events b))"
    and "e \<in> set (ex_events c)" and "distinct (map ev_id (ex_events c))"
    and "semanticKey e \<notin> semanticKey ` set (ex_events b)"
  shows "\<exists>matched added removed changed. dev_Align ord b c = Inr (Some matched, Some added, Some removed, Some changed)
     \<and> ev_id e \<notin> al_comparison ` set matched \<and> ev_id e \<notin> set added"
proof -
  let ?bs = "ex_events b" and ?cs = "ex_events c"
  have keys: "semanticKey e \<notin> set (ord (keys_of ?bs))"
    using iteration_keys(2) [OF assms(1)] assms(4) by (simp add: keys_of_def)
  have other: "ev_id e \<notin> set (indexByKey ?cs k)" if "k \<in> set (ord (keys_of ?bs))" for k
    using that keys assms(2,3) by (auto simp: indexByKey_def distinct_map dest: inj_onD)
  have "ev_id e \<notin> set (map al_comparison (dev_pairs ord ?bs ?cs))"
    using other by (fastforce simp only: dev_pairs_def map_concat_comp pairs_comparison set_concat set_map dest: in_set_takeD)
  moreover have "ev_id e \<notin> set (concat (map (surplus ?cs ?bs) (ord (keys_of ?bs))))"
    using other by (auto simp: surplus_eq dest: in_set_dropD)
  ultimately show ?thesis by (simp add: dev_Align_def alignEvents_def Let_def)
qed

lemma dev_pack_misses_added_witness:
  "\<forall>x y. \<exists>matched added removed changed.
     dev_Align (\<lambda>ks. ks) (x\<lparr>ex_events := dev_sample [''a'']\<rparr>) (y\<lparr>ex_events := dev_sample [''a'', ''b'']\<rparr>)
       = Inr (Some matched, Some added, Some removed, Some changed)
     \<and> ''b'' \<notin> al_comparison ` set matched \<and> ''b'' \<notin> set added"
proof (intro allI)
  fix x y
  let ?e = "(sample_event ''b'' ''2026-01-01T00:00:00Z'' 1)\<lparr>ev_logical_op := ''b''\<rparr>"
  have "ev_id ?e = ''b''" by (simp add: sample_event_def)
  with dev_pack_misses_added [of "\<lambda>ks. ks" "x\<lparr>ex_events := dev_sample [''a'']\<rparr>" ?e "y\<lparr>ex_events := dev_sample [''a'', ''b'']\<rparr>"]
  show "\<exists>matched added removed changed.
     dev_Align (\<lambda>ks. ks) (x\<lparr>ex_events := dev_sample [''a'']\<rparr>) (y\<lparr>ex_events := dev_sample [''a'', ''b'']\<rparr>)
       = Inr (Some matched, Some added, Some removed, Some changed)
     \<and> ''b'' \<notin> al_comparison ` set matched \<and> ''b'' \<notin> set added"
    by (simp add: dev_sample_def sample_event_def semanticKey_def)
qed

section \<open>The registry\<close>

definition register_all :: "(string \<times> factory option) list \<Rightarrow> registry" where
  "register_all = foldl (\<lambda>r (name, f). Register name f r) []"

definition last_factory :: "string \<Rightarrow> (string \<times> factory option) list \<Rightarrow> factory option" where
  "last_factory name rs = foldl (\<lambda>acc (n, f). if n = name \<and> f \<noteq> None then f else acc) None rs"

lemma table_ok_Register: "table_ok r \<Longrightarrow> table_ok (Register n f r)"
  by (simp add: Register_def tab.invar_put split: option.split)

lemma register_all_ok: "table_ok (register_all rs)"
proof -
  have "table_ok r \<Longrightarrow> table_ok (foldl (\<lambda>r (name, f). Register name f r) r rs)" for r
    by (induction rs arbitrary: r) (auto simp: table_ok_Register)
  from this [OF tab.invar_empty] show ?thesis by (simp add: register_all_def)
qed

lemma get_register_all: "name \<noteq> [] \<Longrightarrow> table_get (register_all rs) name = last_factory name rs"
proof -
  assume name: "name \<noteq> []"
  have "table_get r name = acc \<Longrightarrow> table_get (foldl (\<lambda>r (name, f). Register name f r) r rs) name
      = foldl (\<lambda>acc (n, f). if n = name \<and> f \<noteq> None then f else acc) acc rs" for r acc
  proof (induction rs arbitrary: r acc)
    case (Cons p rs)
    obtain n f where p: "p = (n, f)" by (cases p)
    have "table_get (Register n f r) name = (if n = name \<and> f \<noteq> None then f else acc)"
      using Cons.prems name by (auto simp: Register_def split: option.split)
    from Cons.IH [OF this] show ?case by (simp add: p)
  qed simp
  from this [of "[]" None] show ?thesis by (simp add: register_all_def last_factory_def)
qed

lemma get_register_blank: "table_get (register_all rs) [] = None"
proof -
  have "table_get r [] = None \<Longrightarrow> table_get (foldl (\<lambda>r (name, f). Register name f r) r rs) [] = None" for r
    by (induction rs arbitrary: r) (auto simp: Register_def split: option.splits)
  then show ?thesis by (simp add: register_all_def)
qed

lemma sorted_distinct_strings: "distinct xs \<Longrightarrow> distinct (sort_strings xs)"
  by (simp add: sort_strings_def)

text \<open>After any sequence of registrations a token resolves to what the last factory registered for it
  builds (a nil factory is ignored), the empty token resolves to nothing, and \<open>Names\<close> lists every token that
  has a factory once, in order.\<close>

lemma registry_last_wins:
  "Resolve (register_all rs) name =
     (if name = [] then None else case last_factory name rs of None \<Rightarrow> None | Some f \<Rightarrow> f ())
   \<and> sorted (Names (register_all rs)) \<and> distinct (Names (register_all rs))
   \<and> set (Names (register_all rs)) = {n. n \<noteq> [] \<and> last_factory n rs \<noteq> None}"
proof -
  have "set (map fst (register_all rs)) = {n. table_get (register_all rs) n \<noteq> None}"
    by (force simp: table_get_def map_of_eq_None_iff)
  also have "\<dots> = {n. n \<noteq> [] \<and> last_factory n rs \<noteq> None}"
    using get_register_all get_register_blank by (metis (no_types, lifting))
  finally show ?thesis
    using get_register_all [of name rs] get_register_blank [of rs] register_all_ok [of rs]
    by (auto simp: Resolve_def Names_def table_ok_def intro!: sorted_distinct_strings)
qed

end
