(* ===== verification/StoreProps.thy ===== *)
theory StoreProps
  imports Store
begin

text \<open>
  What the in-memory repository (theory Store) guarantees: the invariant of every reachable store, runs
  that only move forward, exclusive claims, incident details that can always be served, listings that
  do not depend on the iteration order of maps, and pages that add up to the whole list.
\<close>


section \<open>Listing incidents page by page\<close>

lemma store_ok_incident: "store_ok s \<Longrightarrow> table_get (st_incidents s) k = Some i \<Longrightarrow> incident_row s k i"
  unfolding store_ok_def by (metis tab.all_entriesD)

lemma store_ok_incident_row:
  "store_ok s \<Longrightarrow> i \<in> set (table_rows (st_incidents s)) \<Longrightarrow> incident_row s (inc_id i) i"
  unfolding store_ok_def by (metis tab.all_entries_rows incident_row_def)

lemma store_ok_event_row: "store_ok s \<Longrightarrow> e \<in> set (table_rows (st_events s)) \<Longrightarrow> event_row (ev_id e) e"
  unfolding store_ok_def by (metis tab.all_entries_rows event_row_def)

interpretation incident_order: weak_order incident_less
  by standard (auto simp: incident_less_def split: if_splits)

lemma filter_insert_by:
  assumes "weak_order lt" and "weak_order.ordered lt xs"
  shows "filter P (insert_by lt x xs) = (if P x then insert_by lt x (filter P xs) else filter P xs)"
  using assms(2)
proof (induction xs)
  case (Cons y ys)
  note ord = weak_order.ordered_def [OF assms(1)]
  show ?case
  proof (cases "lt y x")
    case True
    with Cons show ?thesis by (simp add: ord)
  next
    case False
    have "\<not> lt z x" if "z \<in> set ys" for z
      using False that Cons.prems weak_order.step [OF assms(1), of z x y] by (auto simp: ord)
    then have "insert_by lt x (filter P ys) = x # filter P ys"
      by (cases "filter P ys") (auto dest: filter_eq_ConsD)
    with False show ?thesis by simp
  qed
qed simp

lemma filter_sort_by: "weak_order lt \<Longrightarrow> filter P (sort_by lt xs) = sort_by lt (filter P xs)"
  by (induction xs) (simp_all add: filter_insert_by weak_order.ordered_sort)

lemma select_incidents_Inr:
  "\<forall>i\<in>set is. validUTCTime (inc_detected_at i) \<Longrightarrow>
     select_incidents st c is = Inr (filter (\<lambda>i. (st = UnknownIncidentStatus [] \<or> inc_status i = st)
       \<and> (case c of None \<Rightarrow> True | Some p \<Rightarrow> after_cursor p (detected i) (inc_id i))) is)"
proof (induction "is")
  case (Cons i "is")
  then obtain t z where "parse_time (inc_detected_at i) = Some (t, z)"
    using validUTCTime_parses by fastforce
  then have "parse_time (inc_detected_at i) = Some (detected i, z)"
    by (simp add: detected_def time_of_def)
  with Cons show ?case by (cases c; cases "st = UnknownIncidentStatus []") auto
qed simp

lemma after_cursor_less: "after_cursor (detected a, inc_id a) (detected i) (inc_id i) \<longleftrightarrow> incident_less a i"
  by (auto simp: after_cursor_def incident_less_def)

lemma drop_strict:
  assumes "sorted_wrt lt xs" and "j < length xs" and "\<And>a b. lt a b \<Longrightarrow> \<not> lt b a"
  shows "filter (lt (xs ! j)) xs = drop (Suc j) xs"
proof -
  have split: "xs = take j xs @ xs ! j # drop (Suc j) xs" using assms(2) by (rule id_take_nth_drop)
  have "sorted_wrt lt (take j xs @ xs ! j # drop (Suc j) xs)" using assms(1) split by simp
  then have before: "\<forall>x\<in>set (take j xs). lt x (xs ! j)" and after: "\<forall>y\<in>set (drop (Suc j) xs). lt (xs ! j) y"
    by (auto simp: sorted_wrt_append)
  have "filter (lt (xs ! j)) (take j xs @ xs ! j # drop (Suc j) xs) = drop (Suc j) xs"
    using before after assms(3) by (auto simp: filter_empty_conv)
  with split show ?thesis by simp
qed

text \<open>What the list of a query shows in all, in its order.\<close>

definition matching :: "incident_status \<Rightarrow> store \<Rightarrow> incident list" where
  "matching st s = sort_by incident_less
     (filter (\<lambda>i. st = UnknownIncidentStatus [] \<or> inc_status i = st) (table_rows (st_incidents s)))"

lemma matching_strict:
  assumes "store_ok s"
  shows "sorted_wrt incident_less (matching st s)"
proof -
  have "inc_id v = k" if "table_get (st_incidents s) k = Some v" for k v
    using store_ok_incident [OF assms that] by (simp add: incident_row_def)
  moreover have "table_ok (st_incidents s)" using assms by (simp add: store_ok_def tab.all_entries_def)
  ultimately have dist: "distinct (map inc_id (table_rows (st_incidents s)))" by (rule distinct_rows)
  have "distinct (map inc_id (matching st s))"
  proof -
    have "distinct (map inc_id (filter P (table_rows (st_incidents s))))" for P
      using dist by (rule distinct_map_filter)
    then show ?thesis unfolding matching_def
      by (metis mset_sort_by mset_map mset_eq_imp_distinct_iff)
  qed
  then have "sorted_wrt (\<lambda>a b. inc_id a \<noteq> inc_id b) (matching st s)"
    by (auto simp: sorted_wrt_iff_nth_less distinct_conv_nth)
  moreover have "sorted_wrt (\<lambda>a b. \<not> incident_less b a) (matching st s)"
    using incident_order.ordered_sort by (simp add: matching_def incident_order.ordered_def)
  moreover have "incident_less a b" if "inc_id a \<noteq> inc_id b" "\<not> incident_less b a" for a b
    using that by (auto simp: incident_less_def split: if_splits)
  ultimately show ?thesis by (auto simp: sorted_wrt_iff_nth_less)
qed

lemma select_sorted:
  assumes "store_ok s"
  shows "select_incidents st None (table_rows (st_incidents s)) =
      Inr (filter (\<lambda>i. st = UnknownIncidentStatus [] \<or> inc_status i = st) (table_rows (st_incidents s)))"
    and "\<lbrakk>j < length (matching st s); lst = matching st s ! j\<rbrakk> \<Longrightarrow>
      map_sum id (sort_by incident_less)
        (select_incidents st (Some (detected lst, inc_id lst)) (table_rows (st_incidents s)))
      = Inr (drop (Suc j) (matching st s))"
proof -
  let ?P = "\<lambda>i. st = UnknownIncidentStatus [] \<or> inc_status i = st"
  have valid: "\<forall>i\<in>set (table_rows (st_incidents s)). validUTCTime (inc_detected_at i)"
    using store_ok_incident_row [OF assms] incident_valid_detected_at by (simp add: incident_row_def)
  show "select_incidents st None (table_rows (st_incidents s)) = Inr (filter ?P (table_rows (st_incidents s)))"
    by (simp add: select_incidents_Inr [OF valid])
  assume j: "j < length (matching st s)" and lst: "lst = matching st s ! j"
  have "sort_by incident_less (filter (\<lambda>i. ?P i \<and> incident_less lst i) (table_rows (st_incidents s)))
      = filter (incident_less lst) (matching st s)"
    by (simp add: matching_def filter_sort_by incident_order.weak_order_axioms conj_commute)
  also have "\<dots> = drop (Suc j) (matching st s)"
    unfolding lst by (rule drop_strict [OF matching_strict [OF assms] j incident_order.asym])
  finally show "map_sum id (sort_by incident_less)
      (select_incidents st (Some (detected lst, inc_id lst)) (table_rows (st_incidents s)))
      = Inr (drop (Suc j) (matching st s))"
    by (simp add: select_incidents_Inr [OF valid] after_cursor_less)
qed

text \<open>Following the cursors from the first page on, as a client does.\<close>

fun all_pages :: "nat \<Rightarrow> (cursor \<Rightarrow> string) \<Rightarrow> (string \<Rightarrow> cursor option) \<Rightarrow> incident_query \<Rightarrow> store
    \<Rightarrow> store_error + incident list list" where
  "all_pages 0 m u q s = Inl ErrInternal"
| "all_pages (Suc n) m u q s =
     bind_result (ListIncidents m u False q s) (\<lambda>(items, nxt).
       if nxt = [] then Inr [items]
       else map_sum id (Cons items) (all_pages n m u (q\<lparr>iq_cursor := nxt\<rparr>) s))"

text \<open>The codec writes a cursor for every listed incident that it reads back, and no empty one; no
  listed incident carries Go's zero time, which the reader takes for a missing field.\<close>

definition codec_ok :: "(cursor \<Rightarrow> string) \<Rightarrow> (string \<Rightarrow> cursor option) \<Rightarrow> store \<Rightarrow> bool" where
  "codec_ok m u s \<longleftrightarrow> (\<forall>i\<in>set (table_rows (st_incidents s)).
     u (m (detected i, inc_id i)) = Some (detected i, inc_id i) \<and> m (detected i, inc_id i) \<noteq> []
     \<and> \<not> is_zero (detected i))"

definition query_limit :: "incident_query \<Rightarrow> int" where
  "query_limit q = (case iq_limit q of None \<Rightarrow> 20 | Some n \<Rightarrow> n)"

text \<open>The page that starts at position \<open>k\<close> of the whole list.\<close>

definition page_at :: "(cursor \<Rightarrow> string) \<Rightarrow> nat \<Rightarrow> nat \<Rightarrow> incident list \<Rightarrow> incident list \<times> string" where
  "page_at m n k xs =
     (if n < length (drop k xs)
      then (take n (drop k xs), m (detected (xs ! (k + n - 1)), inc_id (xs ! (k + n - 1))))
      else (drop k xs, []))"

lemma matching_rows: "i \<in> set (matching st s) \<Longrightarrow> i \<in> set (table_rows (st_incidents s))"
  by (simp add: matching_def)

lemma ListIncidents_page:
  assumes ok: "store_ok s" and codec: "codec_ok m u s" and limit: "1 \<le> query_limit q" "query_limit q \<le> 100"
    and cursor: "k = 0 \<and> iq_cursor q = [] \<or> (\<exists>j lst. k = Suc j \<and> j < length (matching (iq_status q) s)
       \<and> lst = matching (iq_status q) s ! j \<and> iq_cursor q = m (detected lst, inc_id lst))"
  shows "ListIncidents m u False q s = Inr (page_at m (nat (query_limit q)) k (matching (iq_status q) s))"
proof -
  let ?xs = "matching (iq_status q) s"
  have sel: "\<exists>c items. (if iq_cursor q = [] then Inr None else map_sum id Some (decodeCursor u (iq_cursor q))) = Inr c
      \<and> select_incidents (iq_status q) c (table_rows (st_incidents s)) = Inr items
      \<and> sort_by incident_less items = drop k ?xs"
    using cursor
  proof (elim disjE exE conjE)
    assume "k = 0" "iq_cursor q = []"
    then show ?thesis using select_sorted(1) [OF ok] by (simp add: matching_def)
  next
    fix j lst
    assume j: "k = Suc j" "j < length ?xs" "lst = ?xs ! j" "iq_cursor q = m (detected lst, inc_id lst)"
    then have mem: "lst \<in> set (table_rows (st_incidents s))" by (metis matching_rows nth_mem)
    then have "inc_id lst \<noteq> []"
      using store_ok_incident_row [OF ok]
      by (fastforce simp: incident_row_def incident_validate_def split: if_splits)
    with mem codec j(4) have dec: "iq_cursor q \<noteq> []"
        "decodeCursor u (iq_cursor q) = Inr (detected lst, inc_id lst)"
      by (auto simp: codec_ok_def decodeCursor_def)
    from select_sorted(2) [OF ok j(2,3)] obtain items where
      "select_incidents (iq_status q) (Some (detected lst, inc_id lst)) (table_rows (st_incidents s)) = Inr items"
      "sort_by incident_less items = drop (Suc j) ?xs"
      by (cases "select_incidents (iq_status q) (Some (detected lst, inc_id lst)) (table_rows (st_incidents s))")
        auto
    with dec j(1) show ?thesis by simp
  qed
  then obtain c items where c: "(if iq_cursor q = [] then Inr None
        else map_sum id Some (decodeCursor u (iq_cursor q))) = Inr c"
      "select_incidents (iq_status q) c (table_rows (st_incidents s)) = Inr items"
      "sort_by incident_less items = drop k ?xs" by blast
  have len: "length items = length (drop k ?xs)" using c(3) by (metis length_sort_by)
  have nth: "drop k ?xs ! nat (query_limit q - 1) = ?xs ! (k + nat (query_limit q) - 1)"
    if "nat (query_limit q) < length (drop k ?xs)"
    using limit(1) that by (simp add: nth_drop nat_diff_distrib)
  have lt: "query_limit q < int (length items) \<longleftrightarrow> nat (query_limit q) < length (drop k ?xs)"
    using limit(1) len by linarith
  show ?thesis
  proof (cases "nat (query_limit q) < length (drop k ?xs)")
    case True
    with c limit nth lt show ?thesis
      by (simp add: ListIncidents_def query_limit_def [symmetric] page_at_def Let_def del: length_drop)
  next
    case False
    with c limit lt show ?thesis
      by (simp add: ListIncidents_def query_limit_def [symmetric] page_at_def Let_def del: length_drop)
  qed
qed

lemma all_pages_concat:
  assumes ok: "store_ok s" and codec: "codec_ok m u s"
  shows "\<lbrakk>1 \<le> query_limit q; query_limit q \<le> 100; matching (iq_status q) s = xs;
      k = 0 \<and> iq_cursor q = [] \<or> (\<exists>j lst. k = Suc j \<and> j < length xs
        \<and> lst = xs ! j \<and> iq_cursor q = m (detected lst, inc_id lst)); length (drop k xs) < fuel\<rbrakk>
    \<Longrightarrow> \<exists>ps. all_pages fuel m u q s = Inr ps \<and> concat ps = drop k xs"
proof (induction fuel arbitrary: q k)
  case (Suc fuel)
  let ?n = "nat (query_limit q)"
  have page: "ListIncidents m u False q s = Inr (page_at m ?n k xs)"
    using ListIncidents_page [OF ok codec Suc.prems(1,2), of k] Suc.prems(3,4) by simp
  show ?case
  proof (cases "?n < length (drop k xs)")
    case False
    with page show ?thesis by (simp add: page_at_def del: length_drop)
  next
    case True
    let ?j = "k + ?n - 1"
    let ?q = "q\<lparr>iq_cursor := m (detected (xs ! ?j), inc_id (xs ! ?j))\<rparr>"
    have n: "1 \<le> ?n" using Suc.prems(1) by simp
    with True have j: "?j < length xs" "Suc ?j = k + ?n" by auto
    have "xs ! ?j \<in> set (table_rows (st_incidents s))"
      using j(1) Suc.prems(3) by (metis matching_rows nth_mem)
    with codec have ne: "m (detected (xs ! ?j), inc_id (xs ! ?j)) \<noteq> []" by (simp add: codec_ok_def)
    have "\<exists>ps. all_pages fuel m u ?q s = Inr ps \<and> concat ps = drop (k + ?n) xs"
    proof (rule Suc.IH)
      show "length (drop (k + ?n) xs) < fuel" using Suc.prems(5) True n by simp
      show "k + ?n = 0 \<and> iq_cursor ?q = [] \<or> (\<exists>j lst. k + ?n = Suc j \<and> j < length xs
          \<and> lst = xs ! j \<and> iq_cursor ?q = m (detected lst, inc_id lst))"
        using j by (intro disjI2 exI [of _ ?j]) simp
    qed (use Suc.prems(1-3) in \<open>simp_all add: query_limit_def\<close>)
    then obtain ps where "all_pages fuel m u ?q s = Inr ps" "concat ps = drop (k + ?n) xs" by blast
    moreover have "take ?n (drop k xs) @ drop (k + ?n) xs = drop k xs"
      by (metis add.commute append_take_drop_id drop_drop)
    ultimately show ?thesis
      using page True ne by (simp add: page_at_def del: length_drop)
  qed
qed simp

section \<open>Properties\<close>

definition sample_incident :: "string \<Rightarrow> string \<Rightarrow> string \<Rightarrow> incident" where
  "sample_incident i e at = \<lparr>inc_schema = ContractVersion, inc_id = i, inc_status = IncidentReady,
     inc_block_reason = None, inc_oracle = \<lparr>oracle_id = ''o'', oracle_version = ''1''\<rparr>,
     inc_pack = \<lparr>pack_id = ''p'', pack_version = ''1'', pack_interface = ContractVersion\<rparr>,
     inc_trace = ''t'', inc_execution = ''x'', inc_detected_at = at, inc_summary = ''s'',
     inc_evidence = [e], inc_graph = ''g-'' @ i, inc_sanitization = SanitizationPass\<rparr>"

definition sample_incident_graph :: "string \<Rightarrow> string \<Rightarrow> execution_graph" where
  "sample_incident_graph i e = \<lparr>graph_schema = ContractVersion, graph_id = ''g-'' @ i, graph_incident = i,
     graph_policy = ContractVersion, graph_nodes = [\<lparr>node_event = e, node_index = 0\<rparr>], graph_edges = []\<rparr>"

definition sample_run :: "string \<Rightarrow> replay_run" where
  "sample_run k = \<lparr>run_schema = ContractVersion, run_id = k, run_execution = ''x'', run_capsule = ''c'',
     run_capsule_hash = replicate 64 CHR ''a'', run_kind = RunTypeBaseline, run_baseline = [],
     run_intervention = None, run_trial = 1, run_status = ReplayRunCreated, run_outcome = NoOutcome,
     run_started_at = [], run_completed_at = [], run_observed = Some [], run_effects = None,
     run_oracle = None, run_isolation = None, run_error_field = None\<rparr>"

definition sample_store :: store where
  "sample_store = \<lparr>
     st_events = [(''b'', sample_event ''b'' ''2026-01-01T00:00:00.02Z'' 1),
                  (''a'', sample_event ''a'' ''2026-01-01T00:00:00Z'' 2)],
     st_incidents = [(''i1'', sample_incident ''i1'' ''a'' ''2026-01-02T00:00:00Z''),
                     (''i2'', sample_incident ''i2'' ''b'' ''2026-01-03T00:00:00Z'')],
     st_graphs = [(''g-i1'', sample_incident_graph ''i1'' ''a''), (''g-i2'', sample_incident_graph ''i2'' ''b'')],
     st_capsules = [], st_runs = [(''r'', sample_run ''r'')], st_diffs = [], st_leases = []\<rparr>"

definition sample_ops :: "store_op list" where
  "sample_ops =
     [OpIngest False (sample_event ''b'' ''2026-01-01T00:00:00.02Z'' 1),
      OpIngest False (sample_event ''a'' ''2026-01-01T00:00:00Z'' 2),
      OpPutIncident False (sample_incident ''i1'' ''a'' ''2026-01-02T00:00:00Z'') (sample_incident_graph ''i1'' ''a''),
      OpPutIncident False (sample_incident ''i2'' ''b'' ''2026-01-03T00:00:00Z'') (sample_incident_graph ''i2'' ''b''),
      OpPutRun False (sample_run ''r'')]"

lemma sample_store_ops: "apply_ops sample_ops NewStore = sample_store"
  by code_simp

lemma sample_reachable: "reachable sample_store"
  using reachable_apply_ops [OF reachable.start, of sample_ops] by (simp add: sample_store_ops)


lemma map_result_mono:
  "map_result f xs = Inr ys \<Longrightarrow> (\<And>x y. f x = Inr y \<Longrightarrow> g x = Inr y) \<Longrightarrow> map_result g xs = Inr ys"
  by (induction f xs arbitrary: ys rule: map_result.induct) (auto split: sum.splits)

lemma map_result_mem: "map_result f xs = Inr ys \<Longrightarrow> y \<in> set ys \<Longrightarrow> \<exists>x\<in>set xs. f x = Inr y"
proof -
  assume "map_result f xs = Inr ys" and y: "y \<in> set ys"
  then have "map f xs = map Inr ys" by (simp add: map_result_Inr_iff)
  with y have "Inr y \<in> set (map f xs)" by simp
  then show ?thesis by auto
qed

lemma stored_events_sorted:
  assumes ok: "store_ok s" and rows: "mset rows = mset (table_rows (st_events s))"
  shows "sorted (map event_key (stableOrder (filter P (table_rows (st_events s)))))"
    and "stableOrder (filter P rows) = stableOrder (filter P (table_rows (st_events s)))"
proof -
  have row: "ev_id e = k \<and> event_validate e = None" if "table_get (st_events s) k = Some e" for k e
    using ok that unfolding store_ok_def by (metis event_row_def tab.all_entriesD)
  have sets: "set rows = set (table_rows (st_events s))" using rows by (rule mset_eq_setD)
  have valid: "\<forall>e\<in>set (table_rows (st_events s)). event_validate e = None"
    using store_ok_event_row [OF ok] by (simp add: event_row_def)
  have ord: "stableOrder (filter P xs) = sort_by (\<lambda>a b. event_key a < event_key b) (filter P xs)"
    if "set xs = set (table_rows (st_events s))" for xs
    using valid that by (intro stableOrder_valid) simp
  show "sorted (map event_key (stableOrder (filter P (table_rows (st_events s)))))"
    unfolding ord [OF refl] by (rule event_order.sorted_sort)
  have diff: "event_key a \<noteq> event_key b" if "a \<in> set rows" "b \<in> set rows" "a \<noteq> b" for a b
  proof
    assume "event_key a = event_key b"
    then have "ev_id a = ev_id b" by (simp add: event_key_def)
    moreover have "table_ok (st_events s)" using ok by (simp add: store_ok_def tab.all_entries_def)
    ultimately have "a = b"
      using rows_key_inj [of "st_events s" ev_id a b] row that sets by blast
    with that show False by simp
  qed
  have "sort_by (\<lambda>a b. event_key a < event_key b) (filter P rows)
      = sort_by (\<lambda>a b. event_key a < event_key b) (filter P (table_rows (st_events s)))"
  proof (rule event_order.sort_independent)
    show "mset (filter P rows) = mset (filter P (table_rows (st_events s)))" using rows by (simp add: mset_filter)
  qed (use diff in \<open>auto simp: neq_iff\<close>)
  then show "stableOrder (filter P rows) = stableOrder (filter P (table_rows (st_events s)))"
    by (simp add: ord sets)
qed

text \<open>C3: in every reachable store a run is kept under its own id and is valid, and a what-if run names
  a stored baseline of the same capsule that is COMPLETED, REPRODUCED, free of interventions and
  isolated with verdict PASS: no later operation can take that baseline away.\<close>

theorem stored_run_sound:
  assumes "reachable s" and "table_get (st_runs s) k = Some r"
  shows "run_id r = k \<and> run_validate r = None
    \<and> (run_kind r = RunTypeWhatIf \<longrightarrow>
         (\<exists>b. table_get (st_runs s) (run_baseline r) = Some b \<and> eligible_baseline b r))"
  using store_ok_get_run [OF reachable_ok [OF assms(1)] assms(2)] by (simp add: run_row_def run_backed_def)

theorem stored_run_sound_witness:
  "run_id (sample_run ''r'') = ''r'' \<and> run_validate (sample_run ''r'') = None"
  using stored_run_sound [OF sample_reachable, of "''r''" "sample_run ''r''"]
  by (simp add: sample_store_def table_get_def)

text \<open>C4: whatever operations follow, short of a reset, a stored run keeps its id, execution, capsule,
  kind, baseline, intervention and trial, its status only moves along the legal transitions, and a run
  that is COMPLETED, FAILED or BLOCKED never changes again.\<close>

theorem runs_only_advance:
  assumes "reachable s" and "table_get (st_runs s) k = Some r" and "list_all (\<lambda>op. \<not> is_reset op) ops"
  shows "\<exists>r'. table_get (st_runs (apply_ops ops s)) k = Some r' \<and> run_id r' = run_id r \<and> same_identity r r'
    \<and> (r' = r \<or> CanTransitionReplayRun\<^sup>+\<^sup>+ (run_status r) (run_status r'))
    \<and> (terminal_status (run_status r) \<longrightarrow> r' = r)"
proof -
  from apply_ops_extends [OF reachable_ok [OF assms(1)] assms(3)] assms(2) obtain r' where
    r': "table_get (st_runs (apply_ops ops s)) k = Some r'" "run_later r r'"
    by (auto simp: extends_def)
  then have "run_id r' = run_id r \<and> same_identity r r'
      \<and> (r' = r \<or> CanTransitionReplayRun\<^sup>+\<^sup>+ (run_status r) (run_status r'))"
    by (simp add: run_later_def)
  with r' run_later_terminal [OF r'(2)] show ?thesis by blast
qed

theorem runs_only_advance_witness:
  "\<exists>r'. table_get (st_runs (apply_ops [OpClaim False zero_time ''r'' 1] sample_store)) ''r'' = Some r'
     \<and> same_identity (sample_run ''r'') r'"
  using runs_only_advance [OF sample_reachable, of "''r''" "sample_run ''r''" "[OpClaim False zero_time ''r'' 1]"]
  by (auto simp: sample_store_def table_get_def is_reset_def)

text \<open>C5: a claim is exclusive: once \<open>ClaimRun\<close> has granted a run to a worker, every later claim of it,
  by anyone and after any operations but a reset, is refused and changes nothing.\<close>

theorem claim_exclusive:
  assumes "reachable s" and "ClaimRun c now k lease s = (Inr r, s1)"
    and "list_all (\<lambda>op. \<not> is_reset op) ops"
  shows "ClaimRun False now' k lease' (apply_ops ops s1) = (Inl ErrInvalidLifecycle, apply_ops ops s1)"
proof -
  from assms(2) ClaimRun_cases [of c now k lease s] have r: "table_get (st_runs s1) k = Some r"
      "run_status r = ReplayRunValidating" by auto
  have reach: "reachable s1"
    using reachable.step [OF assms(1), of "OpClaim c now k lease"] assms(2) by simp
  from apply_ops_extends [OF reachable_ok [OF reach] assms(3)] r(1) obtain r' where
    r': "table_get (st_runs (apply_ops ops s1)) k = Some r'" "run_later r r'"
    by (auto simp: extends_def)
  then have "run_status r' \<noteq> ReplayRunCreated"
    using r(2) transitions_rank by (fastforce simp: run_later_def)
  with r'(1) show ?thesis by (simp add: ClaimRun_def)
qed

definition claimed_sample :: replay_run where
  "claimed_sample = (sample_run ''r'')\<lparr>run_status := ReplayRunValidating\<rparr>"

lemma sample_claim: "\<exists>s1. ClaimRun False zero_time ''r'' 1 sample_store = (Inr claimed_sample, s1)"
  by (simp add: ClaimRun_def sample_store_def table_get_def sample_run_def claimed_sample_def Let_def)

theorem claim_exclusive_witness:
  "\<exists>s1. ClaimRun False zero_time ''r'' 1 sample_store = (Inr claimed_sample, s1)
     \<and> fst (ClaimRun False zero_time ''r'' 1 s1) = Inl ErrInvalidLifecycle"
proof -
  obtain s1 where s1: "ClaimRun False zero_time ''r'' 1 sample_store = (Inr claimed_sample, s1)"
    using sample_claim by blast
  from claim_exclusive [OF sample_reachable s1, of "[]" zero_time 1] s1 show ?thesis
    by (auto simp: apply_ops_def)
qed

lemma stored_incident_served:
  assumes "reachable s" and "table_get (st_incidents s) k = Some i"
  shows "\<exists>g out. GetIncidentDetail False k s = Inr (i, g, out) \<and> inc_id i = k \<and> graph_incident g = k
    \<and> graph_id g = inc_graph i \<and> graph_validate g = None \<and> arranged out (graph_nodes g) out
    \<and> (\<forall>e\<in>set out. ev_execution e = inc_execution i \<and> ev_trace e = inc_trace i
         \<and> table_get (st_events s) (ev_id e) = Some e)
    \<and> set (inc_evidence i) \<subseteq> ev_id ` set out
    \<and> set (map ev_id out) = set (node_ids (graph_nodes g)) \<and> distinct (map ev_id out)"
proof -
  note ok = reachable_ok [OF assms(1)]
  from store_ok_incident [OF ok assms(2)] have id: "inc_id i = k" and "incident_backed s i"
    by (simp_all add: incident_row_def)
  then obtain g events out where g: "table_get (st_graphs s) (inc_graph i) = Some g" "graph_incident g = inc_id i"
      and events: "map_result (node_lookup s i) (graph_nodes g) = Inr events"
      and evidence: "set (inc_evidence i) \<subseteq> set (node_ids (graph_nodes g))"
      and ord: "Order events g = Inr out"
    by (auto simp: incident_backed_def)
  have "map_result (\<lambda>n. case table_get (st_events s) (node_event n) of None \<Rightarrow> Inl ErrInternal
      | Some e \<Rightarrow> Inr e) (graph_nodes g) = Inr events"
    by (rule map_result_mono [OF events]) (auto simp: node_lookup_def split: option.splits if_splits)
  with assms(2) g ord have served: "GetIncidentDetail False k s = Inr (i, g, out)"
    by (simp add: GetIncidentDetail_def)
  from ord have out: "arranged events (graph_nodes g) out" "graph_validate g = None"
      "set (map ev_id events) = set (node_ids (graph_nodes g))" "distinct (map ev_id events)" by (simp_all add: Order_Inr_iff)
  then have mset: "mset out = mset events" by (simp add: arranged_def)
  then have sets: "set out = set events" by (rule mset_eq_setD)
  have ev: "ev_execution e = inc_execution i \<and> ev_trace e = inc_trace i
      \<and> table_get (st_events s) (ev_id e) = Some e" if "e \<in> set events" for e
  proof -
    from map_result_mem [OF events that] obtain n where "node_lookup s i n = Inr e" by blast
    then have "table_get (st_events s) (node_event n) = Some e" "ev_execution e = inc_execution i"
        "ev_trace e = inc_trace i" by (auto simp: node_lookup_def split: option.splits if_splits)
    moreover have "event_row (node_event n) e"
      using ok calculation(1) unfolding store_ok_def by (metis tab.all_entriesD)
    ultimately show ?thesis by (simp add: event_row_def)
  qed
  have "graph_id g = inc_graph i"
    using ok g(1) unfolding store_ok_def by (metis graph_row_def tab.all_entriesD)
  moreover have "distinct (map ev_id out)" using out(4) mset by (metis mset_eq_imp_distinct_iff mset_map)
  ultimately show ?thesis using served id g(2) out ev sets evidence mset by (auto simp: arranged_def)
qed

text \<open>C29: in every reachable store the detail of a stored incident can be served: its graph and all its
  events are there, the events belong to the incident's execution and trace, the evidence is among
  them, and they come in the order of the timeline indices.\<close>

theorem incident_detail_served:
  assumes "reachable s" and "table_get (st_incidents s) k = Some i"
  shows "\<exists>g out. GetIncidentDetail False k s = Inr (i, g, out) \<and> inc_id i = k \<and> graph_incident g = k
    \<and> graph_id g = inc_graph i \<and> graph_validate g = None \<and> arranged out (graph_nodes g) out
    \<and> (\<forall>e\<in>set out. ev_execution e = inc_execution i \<and> ev_trace e = inc_trace i
         \<and> table_get (st_events s) (ev_id e) = Some e)
    \<and> set (inc_evidence i) \<subseteq> ev_id ` set out"
  using stored_incident_served [OF assms] by blast

theorem incident_detail_served_witness:
  "\<exists>g out. GetIncidentDetail False ''i1'' sample_store
     = Inr (sample_incident ''i1'' ''a'' ''2026-01-02T00:00:00Z'', g, out)"
  using incident_detail_served [OF sample_reachable, of "''i1''"]
  by (auto simp: sample_store_def table_get_def)

text \<open>C30: a client that follows the cursors from the first page on gets every incident of the asked
  status once, latest detection first and by descending id among equals, in pages of the limit: no
  incident is skipped or shown twice, and the walk ends.\<close>

theorem incident_pages_complete:
  assumes "reachable s" and "codec_ok m u s" and "1 \<le> query_limit q" "query_limit q \<le> 100"
    and "iq_cursor q = []" and "length (st_incidents s) < fuel"
  shows "\<exists>ps. all_pages fuel m u q s = Inr ps \<and> sorted_wrt incident_less (concat ps)
    \<and> mset (concat ps) = mset (filter (\<lambda>i. iq_status q = UnknownIncidentStatus [] \<or> inc_status i = iq_status q)
         (table_rows (st_incidents s)))"
proof -
  note ok = reachable_ok [OF assms(1)]
  have "length (matching (iq_status q) s) \<le> length (st_incidents s)"
    by (simp add: matching_def table_rows_def) 
  with assms(6) have "length (drop 0 (matching (iq_status q) s)) < fuel" by simp
  from all_pages_concat [OF ok assms(2-4) refl _ this] assms(5) obtain ps where
    "all_pages fuel m u q s = Inr ps" "concat ps = matching (iq_status q) s" by auto
  with matching_strict [OF ok] show ?thesis by (auto simp: matching_def)
qed

text \<open>A codec for the cursors of the sample store.\<close>

definition sample_unmarshal :: "string \<Rightarrow> cursor option" where
  "sample_unmarshal k =
     (if k = ''i1'' then Some (time_of ''2026-01-02T00:00:00Z'', ''i1'')
      else if k = ''i2'' then Some (time_of ''2026-01-03T00:00:00Z'', ''i2'') else None)"

lemma sample_codec: "codec_ok snd sample_unmarshal sample_store"
  unfolding codec_ok_def by code_simp

theorem incident_pages_complete_witness:
  "\<exists>ps. all_pages 3 snd sample_unmarshal
      \<lparr>iq_status = UnknownIncidentStatus [], iq_limit = Some 1, iq_cursor = []\<rparr> sample_store = Inr ps
    \<and> length (concat ps) = 2"
proof -
  let ?q = "\<lparr>iq_status = UnknownIncidentStatus [], iq_limit = Some 1, iq_cursor = []\<rparr>"
  from incident_pages_complete [OF sample_reachable sample_codec, of ?q 3] obtain ps where
    ps: "all_pages 3 snd sample_unmarshal ?q sample_store = Inr ps"
      "mset (concat ps) = mset (table_rows (st_incidents sample_store))"
    by (auto simp: query_limit_def sample_store_def)
  from mset_eq_length [OF ps(2)] have "length (concat ps) = 2"
    by (simp only: sample_store_def table_rows_def) simp
  with ps(1) show ?thesis by blast
qed

text \<open>The events of an execution and of a run come back exactly once each, in the order of time,
  sequence and id, whatever order Go iterates over the map of events in.\<close>

lemma events_listed_in_order:
  assumes "reachable s" and "mset rows = mset (table_rows (st_events s))"
  shows "\<exists>es rs. EventsForExecution False x s = Inr es \<and> sorted (map event_key es)
      \<and> mset es = mset (filter (\<lambda>e. ev_execution e = x) (table_rows (st_events s)))
      \<and> es = stableOrder (filter (\<lambda>e. ev_execution e = x) rows)
      \<and> EventsForRun False run s = Inr rs \<and> sorted (map event_key rs)
      \<and> mset rs = mset (filter (\<lambda>e. ev_run e = run_id run) (table_rows (st_events s)))
      \<and> rs = stableOrder (filter (\<lambda>e. ev_run e = run_id run) rows)"
  using stored_events_sorted [OF reachable_ok [OF assms(1)] assms(2)]
  by (simp add: EventsForExecution_def EventsForRun_def) (simp add: stableOrder_def)

lemma events_listed_in_order_witness:
  "\<exists>es. EventsForExecution False ''x'' sample_store = Inr es \<and> length es = 2"
proof -
  have "mset (rev (table_rows (st_events sample_store))) = mset (table_rows (st_events sample_store))" by simp
  from events_listed_in_order [OF sample_reachable this, of "''x''"] obtain es where
    "EventsForExecution False ''x'' sample_store = Inr es"
    "mset es = mset (filter (\<lambda>e. ev_execution e = ''x'') (table_rows (st_events sample_store)))" by blast
  moreover have "length (filter (\<lambda>e. ev_execution e = ''x'') (table_rows (st_events sample_store))) = 2"
    by (simp add: sample_store_def table_rows_def sample_event_def)
  ultimately show ?thesis by (metis mset_eq_length)
qed

text \<open>A graph that \<open>GraphsForRun\<close> answers for a run is valid and belongs to the run, and \<open>Order\<close> accepts it with
  the events of the run and lists them in the order of its nodes, whatever the iteration order of maps.\<close>

lemma run_graph_orders:
  assumes "iteration_order ord" and "run_id run \<noteq> []" and "EventsForRun False run s = Inr es"
    and "GraphsForRun ord False run s = Inr g"
  shows "graph_validate g = None \<and> graph_incident g = run_id run
    \<and> (\<exists>out. Order es g = Inr out \<and> map ev_id out = node_ids (graph_nodes g))"
proof -
  from assms(3,4) obtain ns where ns: "BuildNodes ord es (parentChildEdges es) = Inr ns"
      "g = \<lparr>graph_schema = ContractVersion, graph_id = ''graph-run-'' @ run_id run, graph_incident = run_id run,
         graph_policy = ContractVersion, graph_nodes = ns, graph_edges = parentChildEdges es\<rparr>"
    by (cases "BuildNodes ord es (parentChildEdges es)") (auto simp: GraphsForRun_def BuildRunGraph_def)
  from built_Order [OF assms(1) ns(1), of "''graph-run-'' @ run_id run" "run_id run"] assms(2) ns(2)
  obtain out where "Order es g = Inr out" "map ev_id out = node_ids (graph_nodes g)" by auto
  with ns(2) show ?thesis by (auto simp: Order_Inr_iff)
qed

lemma sample_run_graph: "\<exists>g. GraphsForRun (\<lambda>_ m. m) False (sample_run ''r'') sample_store = Inr g"
proof -
  have "EventsForRun False (sample_run ''r'') sample_store = Inr []"
    by (simp add: EventsForRun_def sample_store_def table_rows_def sample_event_def zero_event_def
        sample_run_def stableOrder_def)
  moreover have "BuildNodes (\<lambda>_ m. m) [] [] = Inr []" by code_simp
  ultimately show ?thesis
    by (simp add: GraphsForRun_def BuildRunGraph_def parentChildEdges_def)
qed

lemma run_graph_orders_witness:
  "\<exists>g. GraphsForRun (\<lambda>_ m. m) False (sample_run ''r'') sample_store = Inr g \<and> graph_validate g = None"
proof -
  obtain g where g: "GraphsForRun (\<lambda>_ m. m) False (sample_run ''r'') sample_store = Inr g"
    using sample_run_graph by blast
  obtain es where es: "EventsForRun False (sample_run ''r'') sample_store = Inr es"
    by (simp add: EventsForRun_def)
  have "run_id (sample_run ''r'') \<noteq> []" by (simp add: sample_run_def)
  from run_graph_orders [OF identity_iteration this es g] g show ?thesis by blast
qed

end
