(* ===== verification/DiffProps.thy ===== *)
theory DiffProps
  imports CheckoutProps DevPackProps StoreProps
begin

text \<open>
  What the differential analyser promises: the first divergence, and diffs built from the runs of a reachable
  store with the packs of the repository, through the contract of a pack.
\<close>

section \<open>The first divergence\<close>

interpretation by_position: key_order candidate_less "\<lambda>(ch, i, j). (i, j, ch_field ch)"
  by unfold_locales (auto simp: candidate_less_def less_prod_def)

lemma candidates_iff:
  "(ch, i, j) \<in> set (change_candidates bs cs changes) \<longleftrightarrow>
     ch \<in> set changes \<and> index_by_id bs (ch_baseline ch) = Some i \<and> index_by_id cs (ch_comparison ch) = Some j"
  by (auto simp: change_candidates_def split: option.splits)

text \<open>The generic first divergence is the changed pair that comes first on the timelines: it is one of the
  changes whose two events are on the timelines, and no such change has a smaller baseline position, then
  comparison position, then field name; there is none exactly when no change has both events on the timelines.\<close>

lemma first_divergence_earliest:
  "case FirstDivergenceFrom bs cs changes of
     None \<Rightarrow> \<forall>ch\<in>set changes. index_by_id bs (ch_baseline ch) = None \<or> index_by_id cs (ch_comparison ch) = None
   | Some d \<Rightarrow> \<exists>ch i j. ch \<in> set changes \<and> index_by_id bs (ch_baseline ch) = Some i
       \<and> index_by_id cs (ch_comparison ch) = Some j
       \<and> d = \<lparr>dv_baseline = ch_baseline ch, dv_comparison = ch_comparison ch, dv_rule = ch_field ch,
              dv_baseline_value = ch_baseline_value ch, dv_comparison_value = ch_comparison_value ch,
              dv_baseline_index = int i, dv_comparison_index = int j\<rparr>
       \<and> (\<forall>ch'\<in>set changes. \<forall>i' j'. index_by_id bs (ch_baseline ch') = Some i'
             \<and> index_by_id cs (ch_comparison ch') = Some j' \<longrightarrow> (i, j, ch_field ch) \<le> (i', j', ch_field ch'))"
proof (cases "sort_by candidate_less (change_candidates bs cs changes)")
  case Nil
  then have "change_candidates bs cs changes = []" by simp
  then have "\<forall>ch\<in>set changes. index_by_id bs (ch_baseline ch) = None \<or> index_by_id cs (ch_comparison ch) = None"
    by (auto simp: change_candidates_def split: option.splits)
  then show ?thesis using Nil by (simp add: FirstDivergenceFrom_def)
next
  case (Cons p rest)
  obtain ch i j where p: "p = (ch, i, j)" by (cases p)
  have "p \<in> set (change_candidates bs cs changes)" using Cons by (metis list.set_intros(1) set_sort_by)
  then have mem: "ch \<in> set changes" "index_by_id bs (ch_baseline ch) = Some i" "index_by_id cs (ch_comparison ch) = Some j"
    by (simp_all add: p candidates_iff)
  have least: "(i, j, ch_field ch) \<le> (i', j', ch_field ch')"
    if "ch' \<in> set changes" "index_by_id bs (ch_baseline ch') = Some i'" "index_by_id cs (ch_comparison ch') = Some j'" for ch' i' j'
    using by_position.hd_sort_le [of "(ch', i', j')" "change_candidates bs cs changes"] that Cons p
    by (simp add: candidates_iff)
  have "FirstDivergenceFrom bs cs changes = Some \<lparr>dv_baseline = ch_baseline ch, dv_comparison = ch_comparison ch,
      dv_rule = ch_field ch, dv_baseline_value = ch_baseline_value ch, dv_comparison_value = ch_comparison_value ch,
      dv_baseline_index = int i, dv_comparison_index = int j\<rparr>"
    using Cons p by (simp add: FirstDivergenceFrom_def)
  with mem least show ?thesis by (simp del: less_eq_prod_simp) blast
qed

lemma first_divergence_earliest_witness:
  "\<exists>d. FirstDivergenceFrom sample_events sample_events
       [\<lparr>ch_baseline = ''a'', ch_comparison = ''b'', ch_field = ''status'', ch_baseline_value = VNil,
         ch_comparison_value = VBool True\<rparr>] = Some d
     \<and> dv_rule d = ''status'' \<and> dv_baseline_index d = 1"
proof -
  define ch where "ch = \<lparr>ch_baseline = ''a'', ch_comparison = ''b'', ch_field = ''status'', ch_baseline_value = VNil,
         ch_comparison_value = VBool True\<rparr>"
  have i: "index_by_id sample_events (ch_baseline ch) = Some 1" "index_by_id sample_events (ch_comparison ch) = Some 0"
    unfolding ch_def by code_simp+
  obtain d where d: "FirstDivergenceFrom sample_events sample_events [ch] = Some d"
    using first_divergence_earliest [where bs = sample_events and cs = sample_events and changes = "[ch]"] i by (auto split: option.splits)
  then have "dv_rule d = ''status''" "dv_baseline_index d = 1"
    using first_divergence_earliest [where bs = sample_events and cs = sample_events and changes = "[ch]"] i by (auto simp: ch_def)
  with d show ?thesis unfolding ch_def by blast
qed

section \<open>Building a diff\<close>

lemma verifyPrerequisites_None_iff:
  "verifyPrerequisites b c = None \<longleftrightarrow> run_status b = ReplayRunCompleted \<and> run_outcome b = ReplayOutcomeReproduced
     \<and> run_status c = ReplayRunCompleted \<and> run_kind c = RunTypeWhatIf \<and> run_baseline c = run_id b
     \<and> run_capsule_hash c = run_capsule_hash b \<and> run_intervention c \<noteq> None"
  by (simp add: verifyPrerequisites_def)

lemma loaded_events:
  assumes "loadOrderedEvents src run = Inr (es, g)"
  shows "\<exists>raw. src_events src run = Inr raw \<and> src_graph src run = Inr g \<and> Order raw g = Inr es \<and> mset es = mset raw"
  using assms by (auto simp: loadOrderedEvents_def bind_result_Inr_iff map_sum_Inr_iff Order_Inr_iff arranged_def)

lemma assemble_diff_Inr:
  assumes "assemble_diff pack k b c (matched, added, removed, changed) = Inr d"
  shows "diff_validate d = None \<and> diff_id d = k \<and> diff_baseline d = run_id (ex_run b)
    \<and> diff_comparison d = run_id (ex_run c) \<and> run_intervention (ex_run c) = Some (diff_intervention d)
    \<and> run_oracle (ex_run b) = Some (diff_baseline_oracle d) \<and> run_oracle (ex_run c) = Some (diff_comparison_oracle d)
    \<and> diff_matched d = matched \<and> diff_added d = added \<and> diff_removed d = removed \<and> diff_changed d = changed
    \<and> diff_delta d = effects_delta (effects_or_zero (ex_run b)) (effects_or_zero (ex_run c))
    \<and> divergence_of pack k b c (elems changed) = Inr (diff_divergence d)"
  using assms by (auto simp: assemble_diff_def Let_def bind_result_Inr_iff split: option.splits)

text \<open>What a diff says of the two runs it compares.\<close>

definition diff_of_runs :: "diff_source \<Rightarrow> replay_run \<Rightarrow> replay_run \<Rightarrow> replay_diff \<Rightarrow> bool" where
  "diff_of_runs src b c d \<longleftrightarrow>
     diff_validate d = None \<and> diff_baseline d = run_id b \<and> diff_comparison d = run_id c
     \<and> run_intervention c = Some (diff_intervention d)
     \<and> run_oracle b = Some (diff_baseline_oracle d) \<and> run_oracle c = Some (diff_comparison_oracle d)
     \<and> diff_delta d = effects_delta (effects_or_zero b) (effects_or_zero c)
     \<and> (\<exists>bs cs. src_events src b = Inr bs \<and> src_events src c = Inr cs
          \<and> mset (map al_baseline (elems (diff_matched d))) + mset (elems (diff_removed d)) = mset (map ev_id bs)
          \<and> mset (map al_comparison (elems (diff_matched d))) \<subseteq># mset (map ev_id cs))
     \<and> (run_outcome c = ReplayOutcomeInconclusive \<longrightarrow> diff_divergence d = None)"

context pack_contract
begin

lemma Build_sound:
  assumes "Build src k bid cid pack = Inr d"
  shows "\<exists>b c. src_run src bid = Inr b \<and> src_run src cid = Inr c \<and> run_kind b = RunTypeBaseline
    \<and> verifyPrerequisites b c = None \<and> diff_id d = k \<and> diff_of_runs src b c d"
proof -
  from assms obtain b c where bc: "src_run src bid = Inr b" "src_run src cid = Inr c" "run_kind b = RunTypeBaseline"
      "verifyPrerequisites b c = None"
    by (auto simp: Build_def bind_result_Inr_iff map_sum_Inr_iff split: if_splits option.splits)
  with assms obtain bes bg ces cg where load: "loadOrderedEvents src b = Inr (bes, bg)" "loadOrderedEvents src c = Inr (ces, cg)"
    and rest: "bind_result (map_sum DiffPack id (pk_align pack k \<lparr>ex_run = b, ex_events = bes, ex_graph = bg\<rparr>
          \<lparr>ex_run = c, ex_events = ces, ex_graph = cg\<rparr>))
        (assemble_diff pack k \<lparr>ex_run = b, ex_events = bes, ex_graph = bg\<rparr> \<lparr>ex_run = c, ex_events = ces, ex_graph = cg\<rparr>) = Inr d"
    by (auto simp: Build_def bind_result_Inr_iff map_sum_Inr_iff Let_def split: if_splits)
  define bx where "bx = \<lparr>ex_run = b, ex_events = bes, ex_graph = bg\<rparr>"
  define cx where "cx = \<lparr>ex_run = c, ex_events = ces, ex_graph = cg\<rparr>"
  from rest obtain a where a: "pk_align pack k bx cx = Inr a" "assemble_diff pack k bx cx a = Inr d"
    by (auto simp: bx_def cx_def bind_result_Inr_iff map_sum_Inr_iff)
  obtain matched added removed changed where parts: "a = (matched, added, removed, changed)" by (cases a)
  note made = assemble_diff_Inr [OF a(2) [unfolded parts]]
  note splits = align_splits [OF a(1), unfolded parts alignment_splits_def, simplified]
  obtain bs cs where "src_events src b = Inr bs" "mset bes = mset bs" "src_events src c = Inr cs" "mset ces = mset cs"
    using loaded_events [OF load(1)] loaded_events [OF load(2)] by blast
  then have "\<exists>bs cs. src_events src b = Inr bs \<and> src_events src c = Inr cs
      \<and> mset (map al_baseline (elems (diff_matched d))) + mset (elems (diff_removed d)) = mset (map ev_id bs)
      \<and> mset (map al_comparison (elems (diff_matched d))) \<subseteq># mset (map ev_id cs)"
    using splits made by (auto simp: bx_def cx_def)
  moreover have "run_outcome c = ReplayOutcomeInconclusive \<longrightarrow> diff_divergence d = None"
    using made by (auto simp: divergence_of_def cx_def)
  ultimately have "diff_of_runs src b c d" using made by (simp add: diff_of_runs_def bx_def cx_def)
  with bc made show ?thesis by blast
qed

end

definition store_source :: "(nat \<Rightarrow> degrees \<Rightarrow> degrees) \<Rightarrow> store \<Rightarrow> diff_source" where
  "store_source ord s = \<lparr>src_run = (\<lambda>k. GetRun False k s), src_events = (\<lambda>r. EventsForRun False r s),
     src_graph = (\<lambda>r. GraphsForRun ord False r s)\<rparr>"

lemma GetRun_valid:
  assumes "reachable s" and "GetRun False k s = Inr r"
  shows "run_id r = k \<and> run_validate r = None"
proof -
  have "table_get (st_runs s) k = Some r"
    using assms(2) by (simp add: GetRun_def lookup_row_def split: option.splits)
  from store_ok_get_run [OF reachable_ok [OF assms(1)] this] show ?thesis by (simp add: run_row_def)
qed

lemma completed_oracle: "run_validate r = None \<Longrightarrow> run_status r = ReplayRunCompleted \<Longrightarrow> run_oracle r \<noteq> None"
  by (auto simp: run_validate_None_iff elim: run_result_check_completed)

text \<open>C31: building a diff from the runs of a reachable store never dereferences a nil pointer, whatever the pack:
  the prerequisites and the validity of the stored runs make the intervention and both oracle results present.\<close>

theorem diff_no_nil:
  assumes "reachable s"
  shows "Build (store_source ord s) k bid cid pack \<noteq> Inl NilPointer"
proof
  let ?src = "store_source ord s"
  assume nil: "Build ?src k bid cid pack = Inl NilPointer"
  have load: "loadOrderedEvents src r \<noteq> Inl NilPointer" for src r
    by (simp add: loadOrderedEvents_def bind_result_Inl_iff map_sum_Inl_iff)
  have pre: "verifyPrerequisites b c \<noteq> Some NilPointer" for b c by (simp add: verifyPrerequisites_def)
  from nil obtain b c where runs: "src_run ?src bid = Inr b" "src_run ?src cid = Inr c" "verifyPrerequisites b c = None"
    by (auto simp: Build_def bind_result_Inl_iff map_sum_Inl_iff map_sum_Inr_iff pre split: if_splits option.splits)
  with nil obtain bx cx a where x: "ex_run bx = b" "ex_run cx = c" and asm: "assemble_diff pack k bx cx a = Inl NilPointer"
    by (auto simp: Build_def bind_result_Inl_iff map_sum_Inl_iff map_sum_Inr_iff load Let_def split: if_splits)
      (metis replay_execution.select_convs(1))
  have div: "divergence_of pack k bx cx ch \<noteq> Inl NilPointer" for ch
    by (auto simp: divergence_of_def split: option.splits sum.splits pack_error.splits)
  have "run_oracle b \<noteq> None" "run_oracle c \<noteq> None"
    using runs completed_oracle GetRun_valid [OF assms] by (simp_all add: store_source_def verifyPrerequisites_None_iff)
  with runs(3) asm x div show False
    by (auto simp: assemble_diff_def verifyPrerequisites_None_iff bind_result_def Let_def split: prod.splits sum.splits option.splits)
qed


text \<open>Two completed runs, with one event each.\<close>

definition sample_isolation :: isolation_evidence where
  "sample_isolation = \<lparr>iso_policy = ContractVersion, iso_verdict = VerdictPass, iso_namespace = ''ns'',
     iso_network = VerdictPass, iso_credential = CredentialReplayOnly, iso_datastores = Some [],
     iso_simulators = Some [], iso_denied = Some [], iso_teardown = VerdictPass\<rparr>"

definition sample_oracle :: "bool \<Rightarrow> int \<Rightarrow> oracle_result" where
  "sample_oracle m n = \<lparr>or_oracle = \<lparr>oracle_id = ''o'', oracle_version = ''1''\<rparr>, or_matched = m,
     or_effects = \<lparr>payment_attempts = n, ledger_commits = n\<rparr>, or_evidence = Some [], or_explanation = ''e''\<rparr>"

definition completed_sample :: "string \<Rightarrow> replay_outcome \<Rightarrow> bool \<Rightarrow> int \<Rightarrow> replay_run" where
  "completed_sample k out m n = (sample_run k)\<lparr>run_status := ReplayRunCompleted, run_outcome := out,
     run_started_at := ''2026-01-01T00:00:00Z'', run_completed_at := ''2026-01-01T00:00:01Z'',
     run_effects := Some \<lparr>payment_attempts = n, ledger_commits = n\<rparr>, run_oracle := Some (sample_oracle m n),
     run_isolation := Some sample_isolation\<rparr>"

definition sample_baseline :: replay_run where
  "sample_baseline = completed_sample ''b'' ReplayOutcomeReproduced True 2"

definition sample_what_if :: replay_run where
  "sample_what_if = (completed_sample ''w'' ReplayOutcomeMitigated False 1)\<lparr>run_kind := RunTypeWhatIf,
     run_baseline := ''b'', run_intervention := Some \<lparr>iv_type = InterventionPaymentLatency, iv_from = 350,
       iv_to = 50, iv_unit = InterventionUnitMilliseconds\<rparr>\<rparr>"

definition diff_ops :: "store_op list" where
  "diff_ops =
     [OpIngest False ((sample_event ''eb'' ''2026-01-01T00:00:00Z'' 1)\<lparr>ev_run := ''b'', ev_status := EventTimedOut\<rparr>),
      OpIngest False ((sample_event ''ew'' ''2026-01-01T00:00:00Z'' 1)\<lparr>ev_run := ''w''\<rparr>),
      OpPutRun False sample_baseline, OpPutRun False sample_what_if]"

definition diff_store :: store where
  "diff_store = apply_ops diff_ops NewStore"

lemma diff_store_reachable: "reachable diff_store"
  unfolding diff_store_def by (rule reachable_apply_ops [OF reachable.start])

lemma diff_sample_run: "map_sum id (\<lambda>d. (elems (diff_matched d), diff_divergence d = None))
    (Build (store_source (\<lambda>_ m. m) diff_store) ''d'' ''b'' ''w'' (checkout_pack (\<lambda>_. []) [] (\<lambda>_. None) (\<lambda>_. None)))
  = Inr ([\<lparr>al_baseline = ''eb'', al_comparison = ''ew''\<rparr>], False)"
  by code_simp


text \<open>The packs of the repository: the registry knows no other.\<close>

definition repository_pack :: "system_pack \<Rightarrow> bool" where
  "repository_pack pack \<longleftrightarrow> (\<exists>h content split decode. pack = checkout_pack h content split decode)
     \<or> (\<exists>visit. (\<forall>es. mset (visit (keys_of es)) = mset (keys_of es)) \<and> pack = dev_pack visit)"

lemma repository_pack_contract: "repository_pack pack \<Longrightarrow> pack_contract pack"
  using checkout.pack_contract_axioms dev_pack_contract by (auto simp: repository_pack_def)

text \<open>C8: a diff built with a pack of the repository from a reachable store compares a completed, reproduced
  baseline with a completed what-if run of it on the same capsule; it passes its contract check, records the
  intervention and both oracle results of the runs, its delta is the difference of the recorded effects, it
  accounts for every event of the baseline run exactly once (matched or removed), matches events of the
  comparison run at most once, has no divergence when the what-if was inconclusive, and the store accepts it
  unless the id is taken.\<close>

theorem diff_sound:
  assumes "reachable s" and "repository_pack pack" and "Build (store_source ord s) k bid cid pack = Inr d"
  shows "\<exists>b c. GetRun False bid s = Inr b \<and> GetRun False cid s = Inr c \<and> run_kind b = RunTypeBaseline
     \<and> run_status b = ReplayRunCompleted \<and> run_outcome b = ReplayOutcomeReproduced
     \<and> run_status c = ReplayRunCompleted \<and> run_kind c = RunTypeWhatIf \<and> run_baseline c = bid
     \<and> run_capsule_hash c = run_capsule_hash b \<and> diff_of_runs (store_source ord s) b c d
     \<and> (table_get (st_diffs s) k = None \<longrightarrow> fst (PutDiff False d s) = None)"
proof -
  obtain b c where bc: "GetRun False bid s = Inr b" "GetRun False cid s = Inr c" "run_kind b = RunTypeBaseline"
      "verifyPrerequisites b c = None" "diff_id d = k" "diff_of_runs (store_source ord s) b c d"
    using pack_contract.Build_sound [OF repository_pack_contract [OF assms(2)] assms(3)] by (auto simp: store_source_def)
  have "run_id b = bid" using GetRun_valid [OF assms(1) bc(1)] by simp
  with bc show ?thesis by (auto simp: verifyPrerequisites_None_iff PutDiff_def diff_of_runs_def)
qed

theorem diff_sound_witness:
  "\<exists>d. Build (store_source (\<lambda>_ m. m) diff_store) ''d'' ''b'' ''w'' (checkout_pack (\<lambda>_. []) [] (\<lambda>_. None) (\<lambda>_. None)) = Inr d
     \<and> elems (diff_matched d) = [\<lparr>al_baseline = ''eb'', al_comparison = ''ew''\<rparr>] \<and> diff_validate d = None"
proof -
  define pack where "pack = checkout_pack (\<lambda>_. []) [] (\<lambda>_. None) (\<lambda>_. None)"
  obtain d where d: "Build (store_source (\<lambda>_ m. m) diff_store) ''d'' ''b'' ''w'' pack = Inr d"
      "elems (diff_matched d) = [\<lparr>al_baseline = ''eb'', al_comparison = ''ew''\<rparr>]"
    using diff_sample_run by (auto simp: map_sum_Inr_iff pack_def)
  have "repository_pack pack" by (auto simp: repository_pack_def pack_def)
  from diff_sound [OF diff_store_reachable this d(1)] have "diff_validate d = None" by (auto simp: diff_of_runs_def)
  with d show ?thesis by (auto simp: pack_def)
qed

theorem diff_no_nil_witness:
  "Build (store_source (\<lambda>_ m. m) diff_store) ''d'' ''b'' ''w'' (dev_pack (\<lambda>ks. ks)) \<noteq> Inl NilPointer
     \<and> reachable diff_store"
  using diff_no_nil [OF diff_store_reachable] diff_store_reachable by blast

end
