(* ===== verification/Capsule.thy ===== *)
theory Capsule
  imports CheckoutPack DevPack
begin

text \<open>
  internal/capsule/capsule.go: the capsule that a READY incident is compiled into, and its digest.
  \<open>json.Marshal\<close> of a capsule and SHA-256 with hexadecimal printing are parameters, a record of two
  functions; all that is asked of them is that the digest has the shape of a digest.
\<close>

record hasher =
  hs_marshal :: "replay_capsule \<Rightarrow> string option"
  hs_sha256 :: "string \<Rightarrow> string"

datatype capsule_error =
    ErrNotReady
  | ErrExtract pack_error
  | ErrPlan pack_error
  | ErrDigest
  | ErrInvalidCapsule contract_error
  | ErrPackRejects "validation_issue list"
  | ErrIntegrityMismatch

text \<open>The digest is blanked before the capsule is marshalled.\<close>

definition CanonicalMarshal :: "hasher \<Rightarrow> replay_capsule \<Rightarrow> string option" where
  "CanonicalMarshal h c = hs_marshal h (c\<lparr>cap_integrity := (cap_integrity c)\<lparr>int_digest := []\<rparr>\<rparr>)"

definition ComputeDigest :: "hasher \<Rightarrow> replay_capsule \<Rightarrow> string option" where
  "ComputeDigest h c = map_option (hs_sha256 h) (CanonicalMarshal h c)"

definition VerifyDigest :: "hasher \<Rightarrow> replay_capsule \<Rightarrow> bool" where
  "VerifyDigest h c =
     (case ComputeDigest h c of None \<Rightarrow> False | Some digest \<Rightarrow> digest = int_digest (cap_integrity c))"

definition SafePolicy :: safety_policy where
  "SafePolicy = \<lparr>sp_version = ContractVersion, sp_sanitization = SanitizationPass,
     sp_blocked = [''production-databases'', ''public-internet'', ''real-payment-provider''],
     sp_allowed = Some [''payment-simulator'', ''replay-postgres''], sp_credential = CredentialReplayOnly\<rparr>"

text \<open>The capsule before its digest is known.\<close>

definition assemble_capsule :: "system_pack \<Rightarrow> system_pack_ref \<Rightarrow> incident \<Rightarrow> execution_event list \<Rightarrow> capsule_source
    \<Rightarrow> trigger \<Rightarrow> string \<Rightarrow> string \<Rightarrow> string \<Rightarrow> fixture_set \<Rightarrow> replay_plan \<Rightarrow> replay_capsule" where
  "assemble_capsule pack ref i es source trig k g at fs plan =
     \<lparr>cap_schema = ContractVersion, cap_id = k, cap_created_at = at, cap_source = source, cap_pack = ref,
       cap_trigger = trig, cap_events = map ev_id es, cap_graph = g, cap_state_fixtures = fs_state fs,
       cap_dependency_fixtures = fs_dependency fs,
       cap_timing = \<lparr>clock_tolerance_ms = 5, timeout_ms = 200\<rparr>, cap_plan = plan,
       cap_oracle = \<lparr>spec_id = oracle_id (inc_oracle i), spec_version = oracle_version (inc_oracle i),
         spec_expected = True, spec_effects = \<lparr>payment_attempts = 2, ledger_commits = 2\<rparr>\<rparr>,
       cap_interventions = pk_interventions pack, cap_safety = SafePolicy,
       cap_integrity = \<lparr>int_algorithm = IntegritySHA256, int_digest = []\<rparr>\<rparr>"

text \<open>The end of \<open>Compile\<close>: the digest, the contract check, the check of the pack, the digest again.\<close>

definition seal_and_check :: "hasher \<Rightarrow> system_pack \<Rightarrow> replay_capsule \<Rightarrow> capsule_error + replay_capsule" where
  "seal_and_check h pack c0 =
     (case ComputeDigest h c0 of None \<Rightarrow> Inl ErrDigest
      | Some digest \<Rightarrow>
        (let c = c0\<lparr>cap_integrity := (cap_integrity c0)\<lparr>int_digest := digest\<rparr>\<rparr>
         in case capsule_validate c of Some e \<Rightarrow> Inl (ErrInvalidCapsule e)
         | None \<Rightarrow>
           if pk_validate pack c \<noteq> [] then Inl (ErrPackRejects (pk_validate pack c))
           else if \<not> VerifyDigest h c then Inl ErrIntegrityMismatch else Inr c))"

definition Compile :: "hasher \<Rightarrow> system_pack \<Rightarrow> system_pack_ref \<Rightarrow> incident \<Rightarrow> execution_event list \<Rightarrow> capsule_source
    \<Rightarrow> trigger \<Rightarrow> string \<Rightarrow> string \<Rightarrow> string \<Rightarrow> capsule_error + replay_capsule" where
  "Compile h pack ref i es source trig k g at =
     (if inc_status i \<noteq> IncidentReady then Inl ErrNotReady
      else
        bind_result (map_sum ErrExtract id (pk_extract pack i es)) (\<lambda>fs.
        bind_result (map_sum ErrPlan id (pk_plan pack i fs)) (\<lambda>plan.
          seal_and_check h pack (assemble_capsule pack ref i es source trig k g at fs plan))))"

section \<open>Digests\<close>

lemma digest_ignores_digest [simp]:
  "ComputeDigest h (c\<lparr>cap_integrity := (cap_integrity c)\<lparr>int_digest := d\<rparr>\<rparr>) = ComputeDigest h c"
  by (simp add: ComputeDigest_def CanonicalMarshal_def)

lemma sealed_verifies:
  "ComputeDigest h c = Some d \<Longrightarrow> VerifyDigest h (c\<lparr>cap_integrity := (cap_integrity c)\<lparr>int_digest := d\<rparr>\<rparr>)"
  by (simp add: VerifyDigest_def)

text \<open>The capsule with its digest filled in.\<close>

definition sealed :: "hasher \<Rightarrow> replay_capsule \<Rightarrow> replay_capsule" where
  "sealed h c = (case ComputeDigest h c of None \<Rightarrow> c
     | Some d \<Rightarrow> c\<lparr>cap_integrity := (cap_integrity c)\<lparr>int_digest := d\<rparr>\<rparr>)"

lemma seal_and_check_Inr_iff:
  "seal_and_check h pack c0 = Inr c \<longleftrightarrow>
     ComputeDigest h c0 \<noteq> None \<and> c = sealed h c0 \<and> capsule_validate c = None \<and> pk_validate pack c = []"
  by (cases "ComputeDigest h c0")
    (auto simp: seal_and_check_def Let_def sealed_def sealed_verifies split: option.split)

lemma Compile_Inr_iff:
  "Compile h pack ref i es source trig k g at = Inr c \<longleftrightarrow>
     inc_status i = IncidentReady \<and> (\<exists>fs plan. pk_extract pack i es = Inr fs \<and> pk_plan pack i fs = Inr plan
       \<and> ComputeDigest h (assemble_capsule pack ref i es source trig k g at fs plan) \<noteq> None
       \<and> c = sealed h (assemble_capsule pack ref i es source trig k g at fs plan)
       \<and> capsule_validate c = None \<and> pk_validate pack c = [])"
  by (auto simp: Compile_def bind_result_Inr_iff map_sum_Inr_iff seal_and_check_Inr_iff)

end
