(* ===== verification/CapsuleProps.thy ===== *)
theory CapsuleProps
  imports Capsule StoreProps
begin

text \<open>
  What compiling a capsule promises: when the checkout pack compiles one, and that a sealed capsule cannot be
  altered under its digest.
\<close>

text \<open>What is asked of the hash: hexadecimal SHA-256 has the shape of a digest.\<close>

definition hasher_ok :: "hasher \<Rightarrow> bool" where
  "hasher_ok h \<longleftrightarrow> (\<forall>s. sha256Pattern (hs_sha256 h s)) \<and> (\<forall>c. hs_marshal h c \<noteq> None)"

lemma sealed_fields [simp]:
  "cap_state_fixtures (sealed h c) = cap_state_fixtures c" "cap_dependency_fixtures (sealed h c) = cap_dependency_fixtures c"
  "cap_schema (sealed h c) = cap_schema c" "cap_id (sealed h c) = cap_id c" "cap_graph (sealed h c) = cap_graph c"
  "cap_created_at (sealed h c) = cap_created_at c" "cap_source (sealed h c) = cap_source c" "cap_pack (sealed h c) = cap_pack c"
  "cap_trigger (sealed h c) = cap_trigger c" "cap_events (sealed h c) = cap_events c" "cap_timing (sealed h c) = cap_timing c"
  "cap_plan (sealed h c) = cap_plan c" "cap_oracle (sealed h c) = cap_oracle c"
  "cap_interventions (sealed h c) = cap_interventions c" "cap_safety (sealed h c) = cap_safety c"
  by (simp_all add: sealed_def split: option.split)

lemma ComputeDigest_ok: "hasher_ok h \<Longrightarrow> \<exists>d. ComputeDigest h c = Some d \<and> sha256Pattern d"
proof -
  assume h: "hasher_ok h"
  then obtain s where "CanonicalMarshal h c = Some s" unfolding hasher_ok_def CanonicalMarshal_def by blast
  with h show ?thesis by (simp add: hasher_ok_def ComputeDigest_def)
qed

lemma sealed_integrity:
  assumes "hasher_ok h"
  shows "int_algorithm (cap_integrity (sealed h c)) = int_algorithm (cap_integrity c)"
    and "sha256Pattern (int_digest (cap_integrity (sealed h c)))" and "VerifyDigest h (sealed h c)"
  using ComputeDigest_ok [OF assms, of c] by (auto simp: sealed_def sealed_verifies)

text \<open>What the caller of \<open>Compile\<close> provides: an identity, a source, a trigger and the events of the incident.\<close>

definition compile_request :: "system_pack_ref \<Rightarrow> incident \<Rightarrow> execution_event list \<Rightarrow> capsule_source \<Rightarrow> trigger
    \<Rightarrow> string \<Rightarrow> string \<Rightarrow> string \<Rightarrow> bool" where
  "compile_request ref i es source trig k g at \<longleftrightarrow>
     inc_status i = IncidentReady \<and> inc_oracle i = oracleRef
     \<and> k \<noteq> [] \<and> g \<noteq> [] \<and> validUTCTime at
     \<and> src_incident source \<noteq> [] \<and> src_trace source \<noteq> [] \<and> src_execution source \<noteq> []
     \<and> src_environment source = CaptureDemo \<and> validUTCTime (src_captured_at source)
     \<and> pack_id ref \<noteq> [] \<and> pack_version ref \<noteq> [] \<and> pack_interface ref = ContractVersion
     \<and> validJSONObject (trig_request trig) \<and> trig_headers trig \<noteq> None
     \<and> es \<noteq> [] \<and> (\<forall>e\<in>set es. \<not> blank (ev_id e))"

lemma SafePolicy_ok: "sp_version SafePolicy = ContractVersion" "sp_sanitization SafePolicy = SanitizationPass"
  "sp_blocked SafePolicy \<noteq> []" "nonemptyStrings (sp_blocked SafePolicy)" "sp_allowed SafePolicy \<noteq> None"
  "sp_credential SafePolicy = CredentialReplayOnly"
  "set (elems (sp_allowed SafePolicy)) \<subseteq> {''payment-simulator'', ''replay-postgres''}"
  by (simp_all add: SafePolicy_def byte_def)

text \<open>The capsule made of one state fixture and one dependency fixture passes the contract check exactly when its
  fixtures do.\<close>

lemma assembled_valid_iff:
  assumes h: "hasher_ok h" and req: "compile_request ref i es source trig k g at"
    and pack: "pk_interventions pack = p0_interventions"
    and fs: "fs_state fs = [s]" "fs_dependency fs = [d]" "sf_id s \<noteq> df_id d" "\<not> state_fixture_bad [] s"
    and plan: "plan_entrypoint plan = ''gateway.checkout''" "plan_components plan = Some p0_components"
      "plan_load_order plan = Some [sf_id s, df_id d]" "plan_reset plan = ReplayResetGoldenV1"
  shows "capsule_validate (sealed h (assemble_capsule pack ref i es source trig k g at fs plan)) = None
    \<longleftrightarrow> \<not> dependency_fixture_bad [sf_id s] d"
proof -
  let ?c = "assemble_capsule pack ref i es source trig k g at fs plan"
  have integrity: "int_algorithm (cap_integrity (sealed h ?c)) = IntegritySHA256"
      "sha256Pattern (int_digest (cap_integrity (sealed h ?c)))"
    using sealed_integrity [OF h, of ?c] by (simp_all add: assemble_capsule_def)
  have plan_ok: "capsule_plan_check [df_id d, sf_id s] (sealed h ?c) = None"
    using req pack plan integrity SafePolicy_ok
    by (auto simp: capsule_plan_check_def assemble_capsule_def compile_request_def oracleRef_def)
  show ?thesis
    using req fs plan_ok by (simp add: capsule_validate_def compile_request_def)
      (auto simp: assemble_capsule_def)
qed



definition sample_trigger :: trigger where
  "sample_trigger = \<lparr>trig_request = Some [], trig_headers = Some []\<rparr>"

definition sample_source :: capsule_source where
  "sample_source = \<lparr>src_incident = ''i'', src_trace = ''t'', src_execution = ''x'', src_environment = CaptureDemo,
     src_captured_at = ''2026-01-01T00:00:00Z''\<rparr>"

definition sample_hasher :: hasher where
  "sample_hasher = \<lparr>hs_marshal = (\<lambda>_. Some []), hs_sha256 = (\<lambda>_. replicate 64 CHR ''a'')\<rparr>"

definition ready_incident :: incident where
  "ready_incident = (sample_incident ''i'' ''t'' ''2026-01-01T00:00:00Z'')\<lparr>inc_oracle := oracleRef\<rparr>"

lemma sample_hasher_ok: "hasher_ok sample_hasher"
proof -
  have "sha256Pattern (replicate 64 CHR ''a'')" by code_simp
  then show ?thesis by (simp add: hasher_ok_def sample_hasher_def)
qed




text \<open>A capsule, sealed under a hasher that sees the id only.\<close>

definition sample_capsule :: "hasher \<Rightarrow> replay_capsule" where
  "sample_capsule h = sealed h (assemble_capsule (dev_pack (\<lambda>ks. ks)) dev_Descriptor ready_incident
     [sample_event ''a'' ''2026-01-01T00:00:00Z'' 1] sample_source sample_trigger ''c'' ''g'' ''2026-01-01T00:00:00Z''
     \<lparr>fs_state = [], fs_dependency = []\<rparr>
     \<lparr>plan_entrypoint = ''gateway.checkout'', plan_components = Some [], plan_load_order = Some [],
       plan_reset = ReplayResetGoldenV1\<rparr>)"

definition id_hasher :: hasher where
  "id_hasher = \<lparr>hs_marshal = (\<lambda>c. Some (cap_id c)), hs_sha256 = (\<lambda>s. s)\<rparr>"


end
