(* ===== verification/Clock.thy ===== *)
theory Clock
  imports Validation
begin

text \<open>
  The clock as the code reads it: \<open>time.Now().UTC()\<close> is a date and a time of day, and
  \<open>Format(time.RFC3339Nano)\<close> prints it. What is printed parses back to the same instant.
\<close>

record civil =
  cv_year :: nat
  cv_month :: nat
  cv_day :: nat
  cv_hour :: nat
  cv_minute :: nat
  cv_second :: nat
  cv_nano :: nat

text \<open>A date of the calendar with a four-digit year.\<close>

definition civil_ok :: "civil \<Rightarrow> bool" where
  "civil_ok c \<longleftrightarrow> cv_year c \<le> 9999 \<and> 1 \<le> cv_month c \<and> cv_month c \<le> 12 \<and> 1 \<le> cv_day c
     \<and> int (cv_day c) \<le> days_in (int (cv_month c)) (int (cv_year c)) \<and> cv_hour c \<le> 23 \<and> cv_minute c \<le> 59
     \<and> cv_second c \<le> 59 \<and> cv_nano c < 1000000000"

definition civil_instant :: "civil \<Rightarrow> instant" where
  "civil_instant c = date_instant (int (cv_year c)) (int (cv_month c)) (int (cv_day c)) (int (cv_hour c))
     (int (cv_minute c)) (int (cv_second c)) (int (cv_nano c))"

fun digits_fixed :: "nat \<Rightarrow> nat \<Rightarrow> string" where
  "digits_fixed 0 n = []"
| "digits_fixed (Suc k) n = digits_fixed k (n div 10) @ [digit_char (n mod 10)]"

definition strip_zeros :: "string \<Rightarrow> string" where
  "strip_zeros s = rev (dropWhile (\<lambda>c. c = digit_char 0) (rev s))"

definition format_fraction :: "nat \<Rightarrow> string" where
  "format_fraction ns = (if ns = 0 then [] else CHR ''.'' # strip_zeros (digits_fixed 9 ns))"

definition nowRFC3339 :: "civil \<Rightarrow> string" where
  "nowRFC3339 c = digits_fixed 4 (cv_year c) @ ''-'' @ digits_fixed 2 (cv_month c) @ ''-'' @ digits_fixed 2 (cv_day c)
     @ ''T'' @ digits_fixed 2 (cv_hour c) @ '':'' @ digits_fixed 2 (cv_minute c) @ '':'' @ digits_fixed 2 (cv_second c)
     @ format_fraction (cv_nano c) @ ''Z''"

section \<open>Digits\<close>

lemma length_digits_fixed [simp]: "length (digits_fixed k n) = k"
  by (induction k arbitrary: n) simp_all

lemma digits_fixed_digits: "\<forall>c\<in>set (digits_fixed k n). is_digit c"
  by (induction k arbitrary: n) (auto simp del: One_nat_def)

lemma digits_value_fixed: "n < 10 ^ k \<Longrightarrow> digits_value 0 (digits_fixed k n) = int n"
proof (induction k arbitrary: n)
  case (Suc k)
  then have "n div 10 < 10 ^ k" by (simp add: less_mult_imp_div_less mult.commute)
  with Suc.IH have "digits_value 0 (digits_fixed k (n div 10)) = int (n div 10)" by blast
  then show ?case by (simp flip: of_nat_mult of_nat_add) presburger
qed simp

lemma two_digits: "digits_fixed 2 n = [digit_char (n div 10 mod 10), digit_char (n mod 10)]"
  by (simp add: numeral_2_eq_2)

lemma getnum_two [simp]: "n < 100 \<Longrightarrow> getnum b (digits_fixed 2 n @ s) = Some (int n, s)"
  by (simp add: getnum_def two_digits flip: of_nat_mult of_nat_add) presburger

lemma get_year_four [simp]: "n \<le> 9999 \<Longrightarrow> get_year (digits_fixed 4 n @ s) = Some (int n, s)"
  using digits_fixed_digits [of 4 n] digits_value_fixed [of n 4] by (simp add: get_year_def list_all_iff)

lemma strip_zeros_split: "\<exists>j. s = strip_zeros s @ replicate j (digit_char 0)"
proof -
  let ?r = "rev s" and ?z = "\<lambda>c. c = digit_char 0"
  have "?r = takeWhile ?z ?r @ dropWhile ?z ?r" by simp
  moreover have "takeWhile ?z ?r = replicate (length (takeWhile ?z ?r)) (digit_char 0)"
    by (rule replicate_eqI [symmetric, THEN sym]) (auto dest: set_takeWhileD)
  ultimately have "s = rev (dropWhile ?z ?r) @ rev (replicate (length (takeWhile ?z ?r)) (digit_char 0))"
    by (metis rev_append rev_rev_ident)
  then show ?thesis unfolding strip_zeros_def by (metis rev_replicate)
qed

lemma digits_value_zeros: "digits_value n (replicate j (digit_char 0)) = n * 10 ^ j"
  by (induction j arbitrary: n) simp_all

lemma get_fraction_format:
  assumes "ns < 1000000000"
  shows "get_fraction (format_fraction ns @ ''Z'') = (int ns, ''Z'')"
proof (cases "ns = 0")
  case True
  then show ?thesis by (simp add: format_fraction_def get_fraction_def)
next
  case False
  let ?s = "strip_zeros (digits_fixed 9 ns)"
  obtain j where j: "digits_fixed 9 ns = ?s @ replicate j (digit_char 0)" using strip_zeros_split by blast
  have len: "length ?s + j = 9" using arg_cong [OF j, of length] by simp
  have val: "digits_value 0 ?s * 10 ^ j = int ns"
    using arg_cong [OF j, of "digits_value 0"] digits_value_fixed [of ns 9] assms by (simp add: digits_value_zeros)
  have digits: "\<forall>c\<in>set ?s. is_digit c" using digits_fixed_digits [of 9 ns] j by (metis Un_iff set_append)
  have "?s \<noteq> []" using val False by auto
  then obtain c cs where s: "?s = c # cs" by (cases ?s) auto
  have z: "\<not> is_digit CHR ''Z''" by (simp add: is_digit_def byte_def)
  have tw: "takeWhile is_digit (?s @ ''Z'') = ?s" using digits z by (simp add: takeWhile_append)
  have "take 9 ?s = ?s" "9 - length ?s = j" using len by simp_all
  with tw val s digits show ?thesis using False
    by (simp add: format_fraction_def get_fraction_def Let_def byte_def)
qed


section \<open>Round trip\<close>

lemma days_in_le: "days_in m y \<le> 31"
  by (simp add: days_in_def)

lemma parse_nowRFC3339:
  assumes ok: "civil_ok c"
  shows "parse_time (nowRFC3339 c) = Some (civil_instant c, True)"
proof -
  have b: "cv_year c \<le> 9999" "cv_month c < 100" "cv_day c < 100" "cv_hour c < 100" "cv_minute c < 100" "cv_second c < 100"
    using ok days_in_le [of "int (cv_month c)" "int (cv_year c)"] by (auto simp: civil_ok_def)
  have frac: "get_fraction (format_fraction (cv_nano c) @ [CHR ''Z'']) = (int (cv_nano c), ''Z'')"
    using ok by (intro get_fraction_format) (simp add: civil_ok_def)
  have skip: "skip_char x (x # s) = Some s" for x s by (simp add: skip_char_def)
  have range: "in_range lo hi (Some (n, s)) = Some (n, s)" if "lo \<le> n" "n \<le> hi" for lo hi n s
    using that by (simp add: in_range_def)
  have zone: "get_zone ''Z'' = Some ((0, True), [])" by (simp add: get_zone_def)
  have add: "add_nanos t 0 = t" for t by (cases t) (simp add: add_nanos_def)
  show ?thesis
    unfolding parse_time_def nowRFC3339_def
    using ok b by (simp add: skip range frac zone add civil_ok_def civil_instant_def)
qed

lemma has_suffix_append [simp]: "has_suffix (s @ p) p"
  by (simp add: has_suffix_def)

lemma now_valid: "civil_ok c \<Longrightarrow> validUTCTime (nowRFC3339 c)"
proof -
  assume ok: "civil_ok c"
  have "has_suffix (nowRFC3339 c) ''Z''" unfolding nowRFC3339_def append_assoc [symmetric] by (rule has_suffix_append)
  with parse_nowRFC3339 [OF ok] show ?thesis unfolding validUTCTime_def by (simp only: option.case prod.case simp_thms)
qed

lemma now_nonempty [simp]: "nowRFC3339 c \<noteq> []"
  by (simp only: nowRFC3339_def append_is_Nil_conv list.distinct simp_thms)

lemma now_time_of: "civil_ok c \<Longrightarrow> time_of (nowRFC3339 c) = civil_instant c"
  by (simp add: time_of_def parse_nowRFC3339)

text \<open>C36: what the code prints for the clock (\<open>Format(time.RFC3339Nano)\<close> in UTC) parses back to the instant that was
  read, and passes the contract's timestamp check.\<close>

theorem clock_roundtrip:
  assumes "civil_ok c"
  shows "parse_time (nowRFC3339 c) = Some (civil_instant c, True) \<and> validUTCTime (nowRFC3339 c)
     \<and> time_of (nowRFC3339 c) = civil_instant c"
  using assms by (simp add: parse_nowRFC3339 now_valid now_time_of)

definition sample_now :: civil where
  "sample_now = \<lparr>cv_year = 26, cv_month = 2, cv_day = 28, cv_hour = 23, cv_minute = 59, cv_second = 8,
     cv_nano = 120\<rparr>"

lemma sample_now_ok: "civil_ok sample_now"
  by (simp add: civil_ok_def sample_now_def days_in_def leap_year_def)

theorem clock_roundtrip_witness:
  "nowRFC3339 sample_now = ''0026-02-28T23:59:08.00000012Z'' \<and> parse_time ''0026-02-28T23:59:08.00000012Z'' = Some (civil_instant sample_now, True)"
proof -
  have "nowRFC3339 sample_now = ''0026-02-28T23:59:08.00000012Z''" by code_simp
  with clock_roundtrip [OF sample_now_ok] show ?thesis by metis
qed

section \<open>Surroundings\<close>

text \<open>What a call finds around it. Every call that takes the context and every reading of the clock has a site:
  \<open>env_cancelled site\<close> says that the context is cancelled there, \<open>env_now site\<close> is what the clock shows.\<close>

record env =
  env_cancelled :: "nat \<Rightarrow> bool"
  env_now :: "nat \<Rightarrow> civil"

end
