(* ===== verification/Replay.thy ===== *)
theory Replay
  imports Capsule Store Clock
begin

text \<open>
  internal/replay: replay.go (creating, advancing, finalizing and evaluating a run, isolation evidence) and
  executor.go (executing one validated replay, recovering an orphan). The store a function uses is a function
  for the transition it calls; the runner is a function from its configuration. Every reading of the clock is
  an argument of its own.
\<close>

section \<open>Errors\<close>

datatype replay_error =
    ReplayError string
  | ReplayInvalid contract_error
  | ReplayStore store_error
  | UnsafeIsolation string
  | ErrInvalidDigest
  | ErrPackValidation "validation_issue list"
  | ErrUnsafeReplay string
  | ErrInvalidIntervention string
  | ErrReplayRunID string
  | ErrTeardown
  | ErrNoReplayEvents
  | ErrRunner string
  | ReplayPanic

type_synonym 's transition = "replay_run_status \<Rightarrow> replay_run \<Rightarrow> 's \<Rightarrow> store_error option \<times> 's"

type_synonym run_result = "replay_run \<times> replay_error option"

section \<open>Creating and advancing a run\<close>

definition NewRun :: "string \<Rightarrow> string \<Rightarrow> string \<Rightarrow> string \<Rightarrow> run_type \<Rightarrow> string \<Rightarrow> intervention option \<Rightarrow> int \<Rightarrow> run_result" where
  "NewRun k x cap hash kind base iv trial =
     (let run = \<lparr>run_schema = ContractVersion, run_id = k, run_execution = x, run_capsule = cap,
            run_capsule_hash = hash, run_kind = kind, run_baseline = base, run_intervention = iv,
            run_trial = trial, run_status = ReplayRunCreated, run_outcome = NoOutcome, run_started_at = [],
            run_completed_at = [], run_observed = Some [], run_effects = None, run_oracle = None,
            run_isolation = None, run_error_field = None\<rparr>
      in if kind = RunTypeBaseline
         then (if base \<noteq> [] \<or> iv \<noteq> None
               then (run, Some (ReplayError ''replay: baseline run must omit baseline_run_id and intervention''))
               else (run, map_option ReplayInvalid (run_validate run)))
         else if kind = RunTypeWhatIf
         then (if base = [] then (run, Some (ReplayError ''replay: what-if run requires a baseline_run_id''))
               else if iv = None then (run, Some (ReplayError ''replay: what-if run requires exactly one intervention''))
               else (run, map_option ReplayInvalid (run_validate run)))
         else (run, Some (ReplayError ''replay: invalid run_type'')))"

definition isTerminal :: "replay_run_status \<Rightarrow> bool" where
  "isTerminal st \<longleftrightarrow> st = ReplayRunCompleted \<or> st = ReplayRunFailed \<or> st = ReplayRunBlocked"

text \<open>The timestamps a status demands, set when they are missing.\<close>

definition stamp :: "civil \<Rightarrow> replay_run_status \<Rightarrow> replay_run \<Rightarrow> replay_run" where
  "stamp now to run =
     (if to = ReplayRunRunning
      then (if run_started_at run = [] then run\<lparr>run_started_at := nowRFC3339 now\<rparr> else run)
      else if isTerminal to
      then (if run_completed_at run = [] then run\<lparr>run_completed_at := nowRFC3339 now\<rparr> else run)
      else run)"

definition AdvanceRun :: "'s transition \<Rightarrow> civil \<Rightarrow> replay_run \<Rightarrow> replay_run_status \<Rightarrow> 's \<Rightarrow> run_result \<times> 's" where
  "AdvanceRun transition now run to s =
     (let following = stamp now to (run\<lparr>run_status := to\<rparr>)
      in case transition (run_status run) following s of
          (Some e, s') \<Rightarrow> ((run, Some (ReplayStore e)), s')
        | (None, s') \<Rightarrow> ((following, None), s'))"

section \<open>Isolation\<close>

definition isReplayDatastore :: "string \<Rightarrow> bool" where
  "isReplayDatastore d \<longleftrightarrow> has_prefix d ''postgres://replay/''"

definition ValidateIsolation :: "isolation_evidence \<Rightarrow> replay_error option" where
  "ValidateIsolation i =
     (if iso_policy i \<noteq> ContractVersion then Some (UnsafeIsolation ''isolation: unsupported policy_version'')
      else if iso_credential i \<noteq> CredentialReplayOnly
      then Some (UnsafeIsolation ''isolation: credential profile is not replay-only'')
      else if iso_network i = VerdictFail then Some (UnsafeIsolation ''isolation: network policy FAIL'')
      else if iso_teardown i = VerdictFail then Some (UnsafeIsolation ''isolation: teardown FAIL'')
      else if elems (iso_denied i) \<noteq> [] then Some (UnsafeIsolation ''isolation: denied interaction(s)'')
      else if (\<exists>d\<in>set (elems (iso_datastores i)). \<not> isReplayDatastore d)
      then Some (UnsafeIsolation ''isolation: non-replay datastore destination'')
      else if (\<exists>x\<in>set (elems (iso_simulators i)). \<not> replayOnlyHost (di_destination x))
      then Some (UnsafeIsolation ''isolation: non-replay simulator destination'') else None)"

definition IsolationFor :: "string \<Rightarrow> bool \<Rightarrow> isolation_evidence" where
  "IsolationFor namespace teardownOK =
     (let teardown = (if teardownOK then VerdictPass else VerdictFail)
      in \<lparr>iso_policy = ContractVersion,
          iso_verdict = (if teardown \<noteq> VerdictPass then VerdictFail else VerdictPass),
          iso_namespace = namespace, iso_network = VerdictPass, iso_credential = CredentialReplayOnly,
          iso_datastores = Some [], iso_simulators = Some [], iso_denied = Some [], iso_teardown = teardown\<rparr>)"

definition safeIsolation :: "string \<Rightarrow> isolation_evidence" where
  "safeIsolation k0 =
     (let k = (if k0 = [] then ''run'' else k0)
      in \<lparr>iso_policy = ContractVersion, iso_verdict = VerdictPass, iso_namespace = ''replay-run-'' @ k,
          iso_network = VerdictPass, iso_credential = CredentialReplayOnly,
          iso_datastores = Some [''postgres://replay/ledger_run_'' @ k],
          iso_simulators = Some [\<lparr>di_dependency = ''payment_simulator'',
            di_destination = ''http://payment-simulator:8080'', di_operation = ''authorize'',
            di_result = InteractionSimulated\<rparr>],
          iso_denied = Some [], iso_teardown = VerdictPass\<rparr>)"

section \<open>Outcomes\<close>

definition deriveOutcome :: "run_type \<Rightarrow> bool \<Rightarrow> replay_outcome" where
  "deriveOutcome kind matched =
     (if kind = RunTypeWhatIf then (if matched then ReplayOutcomeUnchanged else ReplayOutcomeMitigated)
      else if matched then ReplayOutcomeReproduced else ReplayOutcomeNotReproduced)"

definition OutcomeFor :: "run_type \<Rightarrow> bool \<Rightarrow> replay_outcome" where
  "OutcomeFor = deriveOutcome"

definition or_now :: "string \<Rightarrow> civil \<Rightarrow> string" where
  "or_now v now = (if v \<noteq> [] then v else nowRFC3339 now)"

text \<open>\<open>completed\<close> and \<open>started\<close> are the two readings of the clock.\<close>

definition FinalizeRun :: "'s transition \<Rightarrow> civil \<Rightarrow> civil \<Rightarrow> replay_run \<Rightarrow> replay_outcome \<Rightarrow> effect_summary option
    \<Rightarrow> oracle_result option \<Rightarrow> isolation_evidence option \<Rightarrow> run_error option \<Rightarrow> 's \<Rightarrow> run_result \<times> 's" where
  "FinalizeRun transition completed started run out eff orc evd err s =
     (case err of
        Some e \<Rightarrow>
          (let target = run\<lparr>run_status := ReplayRunFailed, run_outcome := NoOutcome, run_error_field := Some e,
                 run_completed_at := or_now (run_completed_at run) completed,
                 run_started_at := or_now (run_started_at run) started\<rparr>
           in case run_validate target of Some x \<Rightarrow> ((run, Some (ReplayInvalid x)), s)
           | None \<Rightarrow>
             if isTerminal (run_status run) then ((target, None), s)
             else (case transition (run_status run) target s of
                 (Some x, s') \<Rightarrow> ((run, Some (ReplayStore x)), s')
               | (None, s') \<Rightarrow> ((target, None), s')))
      | None \<Rightarrow>
        (case evd of None \<Rightarrow> ((run, Some (ReplayError ''replay: completed run requires isolation evidence'')), s)
         | Some evidence \<Rightarrow>
           (case ValidateIsolation evidence of Some x \<Rightarrow> ((run, Some x), s)
            | None \<Rightarrow>
              (let target = run\<lparr>run_status := ReplayRunCompleted, run_outcome := out, run_effects := eff,
                     run_oracle := orc, run_isolation := Some evidence, run_error_field := None,
                     run_completed_at := or_now (run_completed_at run) completed,
                     run_started_at := or_now (run_started_at run) started\<rparr>
               in case run_validate target of Some x \<Rightarrow> ((run, Some (ReplayInvalid x)), s)
               | None \<Rightarrow>
                 if isTerminal (run_status run) then ((target, None), s)
                 else (case transition (run_status run) target s of
                     (Some x, s') \<Rightarrow> ((run, Some (ReplayStore x)), s')
                   | (None, s') \<Rightarrow> ((target, None), s'))))))"

definition observedEventIDs :: "execution_event list \<Rightarrow> string list" where
  "observedEventIDs es = map ev_id es"

definition zero_graph :: execution_graph where
  "zero_graph = \<lparr>graph_schema = [], graph_id = [], graph_incident = [], graph_policy = [], graph_nodes = [],
     graph_edges = []\<rparr>"

definition run_details :: "replay_run \<Rightarrow> go_object" where
  "run_details run = Some [(''run_id'', VStr (run_id run))]"

definition pack_error_text :: "pack_error \<Rightarrow> string" where
  "pack_error_text e = (case e of PackError m \<Rightarrow> m | PackPanic \<Rightarrow> ''panic'')"

definition Evaluate :: "system_pack \<Rightarrow> civil \<Rightarrow> civil \<Rightarrow> replay_run \<Rightarrow> execution_event list \<Rightarrow> run_result" where
  "Evaluate pack completed started run es =
     (case pk_evaluate pack \<lparr>ex_run = run, ex_events = es, ex_graph = zero_graph\<rparr> of
        Inl PackPanic \<Rightarrow> (run, Some ReplayPanic)
      | Inl (PackError m) \<Rightarrow>
          (let failed = run\<lparr>run_status := ReplayRunFailed, run_outcome := NoOutcome,
                 run_completed_at := nowRFC3339 completed,
                 run_started_at := or_now (run_started_at run) started,
                 run_error_field := Some \<lparr>err_code = InternalFailure,
                   err_message = ''replay: outcome evaluation failed: '' @ m, err_retryable = True,
                   err_details = run_details run\<rparr>\<rparr>
           in case run_validate failed of Some x \<Rightarrow> (run, Some (ReplayInvalid x)) | None \<Rightarrow> (failed, None))
      | Inr orc \<Rightarrow>
          (let done_run = run\<lparr>run_status := ReplayRunCompleted,
                 run_outcome := deriveOutcome (run_kind run) (or_matched orc),
                 run_effects := Some (or_effects orc), run_oracle := Some orc,
                 run_isolation := Some (safeIsolation (run_id run)),
                 run_observed := Some (observedEventIDs es), run_completed_at := nowRFC3339 completed,
                 run_started_at := or_now (run_started_at run) started, run_error_field := None\<rparr>
           in case run_validate done_run of Some x \<Rightarrow> (run, Some (ReplayInvalid x)) | None \<Rightarrow> (done_run, None)))"

section \<open>Executing a replay (executor.go)\<close>

record runner_config =
  rc_run :: string
  rc_namespace :: string
  rc_plan :: replay_plan
  rc_fixtures :: fixture_set
  rc_latency :: int

record runner_output =
  ro_events :: "execution_event list"
  ro_isolation :: isolation_evidence
  ro_teardown :: bool

type_synonym runner = "runner_config \<Rightarrow> string + runner_output"

record execution_config =
  xc_pack :: system_pack
  xc_capsule :: replay_capsule
  xc_run :: replay_run
  xc_plan :: replay_plan
  xc_fixtures :: fixture_set
  xc_runner :: "runner option"
  xc_latency :: int

text \<open>Only the first specification of the capsule is looked at: the loop returns in its first round.\<close>

definition allowedIntervention :: "replay_capsule \<Rightarrow> intervention \<Rightarrow> bool" where
  "allowedIntervention c i =
     (case cap_interventions c of [] \<Rightarrow> False
      | spec # _ \<Rightarrow>
          \<not> (ispec_type spec \<noteq> iv_type i \<or> ispec_unit spec \<noteq> iv_unit i \<or> iv_from i < ispec_min spec
             \<or> ispec_max spec < iv_to i \<or> iv_from i = iv_to i))"

definition replay_services :: "string list" where
  "replay_services = [''gateway'', ''checkout'', ''payment'', ''ledger'', ''payment_simulator'',
     ''payment-simulator'', ''replay-postgres'']"

definition replayOnlyPlan :: "replay_plan \<Rightarrow> fixture_set \<Rightarrow> bool" where
  "replayOnlyPlan plan fs \<longleftrightarrow>
     (\<forall>c\<in>set (elems (plan_components plan)). c \<in> set replay_services)
     \<and> (\<forall>f\<in>set (fs_dependency fs). df_dependency f = DependencyPaymentSimulator)"

definition validateReplaySafety :: "replay_capsule \<Rightarrow> replay_run \<Rightarrow> replay_plan \<Rightarrow> fixture_set \<Rightarrow> replay_error option" where
  "validateReplaySafety c run plan fs =
     (if run_kind run = RunTypeBaseline \<and> run_intervention run \<noteq> None
      then Some (ErrInvalidIntervention ''baseline run records an intervention'')
      else if run_kind run = RunTypeWhatIf \<and> run_intervention run = None
      then Some (ErrInvalidIntervention ''what-if run requires exactly one intervention'')
      else if (case run_intervention run of None \<Rightarrow> False | Some i \<Rightarrow> \<not> allowedIntervention c i)
      then Some (ErrInvalidIntervention ''intervention is not allowed'')
      else if run_baseline run = [] \<and> run_kind run = RunTypeWhatIf
      then Some (ErrInvalidIntervention ''what-if run needs a baseline_run_id'')
      else if sp_credential (cap_safety c) \<noteq> CredentialReplayOnly
      then Some (ErrUnsafeReplay ''credential profile is not replay-only'')
      else if \<not> replayOnlyPlan plan fs
      then Some (ErrUnsafeReplay ''replay plan references a non-replay-only component or destination'')
      else None)"

definition Execute :: "hasher \<Rightarrow> execution_config \<Rightarrow> replay_error + execution_event list \<times> isolation_evidence" where
  "Execute h cfg =
     (let run = xc_run cfg
      in if \<not> VerifyDigest h (xc_capsule cfg) then Inl ErrInvalidDigest
      else if pk_validate (xc_pack cfg) (xc_capsule cfg) \<noteq> []
      then Inl (ErrPackValidation (pk_validate (xc_pack cfg) (xc_capsule cfg)))
      else case validateReplaySafety (xc_capsule cfg) run (xc_plan cfg) (xc_fixtures cfg) of Some e \<Rightarrow> Inl e
      | None \<Rightarrow>
        (case xc_runner cfg of None \<Rightarrow> Inl (ReplayError ''replay: no runner configured'')
         | Some runner \<Rightarrow>
           (case runner \<lparr>rc_run = run_id run, rc_namespace = ''replay-run-'' @ run_id run,
                rc_plan = xc_plan cfg, rc_fixtures = xc_fixtures cfg, rc_latency = xc_latency cfg\<rparr> of
              Inl e \<Rightarrow> Inl (ErrRunner e)
            | Inr result \<Rightarrow>
                if ro_teardown result then Inl ErrTeardown
                else if ValidateIsolation (ro_isolation result) \<noteq> None then Inl (ErrUnsafeReplay ''isolation'')
                else if ro_events result = [] then Inl ErrNoReplayEvents
                else case find (\<lambda>e. ev_run e \<noteq> run_id run) (ro_events result) of
                    Some e \<Rightarrow> Inl (ErrReplayRunID (ev_id e))
                  | None \<Rightarrow> Inr (ro_events result, ro_isolation result))))"

section \<open>Orphans\<close>

definition orphan_error :: "replay_run \<Rightarrow> run_error" where
  "orphan_error run = \<lparr>err_code = InternalFailure,
     err_message = ''replay worker: previous run was orphaned mid-lifecycle; not re-executed'',
     err_retryable = False, err_details = run_details run\<rparr>"

definition FinalizeOrphan :: "'s transition \<Rightarrow> civil \<Rightarrow> replay_run \<Rightarrow> 's \<Rightarrow> run_result \<times> 's" where
  "FinalizeOrphan transition now run s =
     (let failed = run\<lparr>run_status := ReplayRunFailed, run_outcome := NoOutcome,
            run_error_field := Some (orphan_error run),
            run_completed_at := or_now (run_completed_at run) now\<rparr>
      in case run_validate failed of Some x \<Rightarrow> ((run, Some (ReplayInvalid x)), s)
      | None \<Rightarrow>
        if isTerminal (run_status run) then ((failed, None), s)
        else (case transition (run_status run) failed s of
            (Some e, s') \<Rightarrow> ((run, Some (ReplayStore e)), s')
          | (None, s') \<Rightarrow> ((failed, None), s')))"

text \<open>\<open>lease\<close> is in nanoseconds; \<open>time.Since\<close> reads the clock \<open>now\<close>.\<close>

definition ReclaimOrphans :: "'s transition \<Rightarrow> civil \<Rightarrow> int \<Rightarrow> civil \<Rightarrow> replay_run \<Rightarrow> 's
    \<Rightarrow> (replay_error + bool) \<times> 's" where
  "ReclaimOrphans transition now lease now' run s =
     (if run_status run \<noteq> ReplayRunValidating \<and> run_status run \<noteq> ReplayRunRunning then (Inr False, s)
      else if 0 < lease \<and> run_started_at run \<noteq> []
        \<and> (case parse_time (run_started_at run) of None \<Rightarrow> False
           | Some (started, _) \<Rightarrow> nanos (civil_instant now) - nanos started < lease)
      then (Inr False, s)
      else case FinalizeOrphan transition now' run s of
          ((failed, Some e), s') \<Rightarrow> (Inl e, s')
        | ((failed, None), s') \<Rightarrow> (Inr (run_status failed = ReplayRunFailed), s'))"

end
