(* ===== verification/ReplayProps.thy ===== *)
theory ReplayProps
  imports Replay
begin

text \<open>
  What the functions of internal/replay promise over any store that accepts legal steps of stored runs only, and
  that the two checks of the isolation evidence agree.
\<close>

section \<open>What the replay functions ask of a store\<close>

locale run_transitions =
  fixes transition :: "'s transition" and lookup :: "'s \<Rightarrow> string \<Rightarrow> replay_run option"
  assumes rejected: "transition st r s = (Some e, s') \<Longrightarrow> s' = s"
    and accepted: "transition st r s = (None, s') \<Longrightarrow> CanTransitionReplayRun st (run_status r) \<and> run_validate r = None
      \<and> (\<exists>stored. lookup s (run_id r) = Some stored \<and> run_status stored = st \<and> same_identity stored r)
      \<and> lookup s' = (lookup s)(run_id r \<mapsto> r)"
begin

text \<open>An error leaves the store alone.\<close>

lemma AdvanceRun_error: "AdvanceRun transition now run st s = ((r, Some e), s') \<Longrightarrow> r = run \<and> s' = s"
  by (auto simp: AdvanceRun_def Let_def split: prod.splits option.splits dest: rejected)

lemma FinalizeRun_error: "FinalizeRun transition t0 t1 run out eff orc evd err s = ((r, Some e), s') \<Longrightarrow> r = run \<and> s' = s"
  by (auto simp: FinalizeRun_def Let_def split: prod.splits option.splits if_splits dest: rejected)

lemma FinalizeOrphan_error: "FinalizeOrphan transition now run s = ((r, Some e), s') \<Longrightarrow> r = run \<and> s' = s"
  by (auto simp: FinalizeOrphan_def Let_def split: prod.splits option.splits if_splits dest: rejected)

text \<open>A success is a legal step of a stored run, and it is stored.\<close>

definition persisted :: "replay_run \<Rightarrow> replay_run \<Rightarrow> 's \<Rightarrow> 's \<Rightarrow> bool" where
  "persisted run r s s' \<longleftrightarrow> run_validate r = None \<and> run_id r = run_id run \<and> same_identity run r
     \<and> CanTransitionReplayRun (run_status run) (run_status r)
     \<and> (\<exists>stored. lookup s (run_id run) = Some stored \<and> run_status stored = run_status run \<and> same_identity stored run)
     \<and> lookup s' = (lookup s)(run_id run \<mapsto> r)"

lemma accepted_persisted:
  assumes "transition (run_status run) r s = (None, s')" and "run_id r = run_id run" "same_identity run r"
  shows "persisted run r s s'"
proof -
  obtain stored where "lookup s (run_id run) = Some stored" "run_status stored = run_status run" "same_identity stored r"
    using accepted [OF assms(1)] assms(2) by auto
  moreover from this(3) assms(3) have "same_identity stored run" by (simp add: same_identity_def)
  ultimately show ?thesis using accepted [OF assms(1)] assms(2,3) by (auto simp: persisted_def)
qed

lemma stamp_same [simp]: "run_id (stamp now st r) = run_id r" "run_status (stamp now st r) = run_status r"
  "same_identity run (stamp now st r) = same_identity run r" "run_isolation (stamp now st r) = run_isolation r"
  by (simp_all add: stamp_def same_identity_def)

lemma AdvanceRun_persisted:
  assumes "AdvanceRun transition now run st s = ((r, None), s')"
  shows "persisted run r s s' \<and> run_status r = st \<and> run_isolation r = run_isolation run"
proof -
  from assms have t: "transition (run_status run) r s = (None, s')" and r: "r = stamp now st (run\<lparr>run_status := st\<rparr>)"
    by (auto simp: AdvanceRun_def Let_def split: prod.splits option.splits)
  have "same_identity run (run\<lparr>run_status := st\<rparr>)" by (simp add: same_identity_def)
  then show ?thesis using accepted_persisted [OF t] r by simp
qed

lemma FinalizeRun_persisted:
  assumes "FinalizeRun transition t0 t1 run out eff orc evd err s = ((r, None), s')" and "\<not> isTerminal (run_status run)"
  shows "persisted run r s s' \<and> (case err of
      Some e \<Rightarrow> run_status r = ReplayRunFailed \<and> run_outcome r = NoOutcome \<and> run_error_field r = Some e
    | None \<Rightarrow> run_status r = ReplayRunCompleted \<and> run_outcome r = out \<and> run_effects r = eff \<and> run_oracle r = orc
        \<and> run_isolation r = evd \<and> (\<exists>i. evd = Some i \<and> ValidateIsolation i = None))"
proof -
  from assms have t: "transition (run_status run) r s = (None, s')" and k: "run_id r = run_id run \<and> same_identity run r"
    by (auto simp: FinalizeRun_def Let_def same_identity_def split: prod.splits option.splits if_splits)
  from assms have "case err of
      Some e \<Rightarrow> run_status r = ReplayRunFailed \<and> run_outcome r = NoOutcome \<and> run_error_field r = Some e
    | None \<Rightarrow> run_status r = ReplayRunCompleted \<and> run_outcome r = out \<and> run_effects r = eff \<and> run_oracle r = orc
        \<and> run_isolation r = evd \<and> (\<exists>i. evd = Some i \<and> ValidateIsolation i = None)"
    by (auto simp: FinalizeRun_def Let_def split: prod.splits option.splits if_splits)
  with accepted_persisted [OF t] k show ?thesis by blast
qed

lemma FinalizeOrphan_persisted:
  assumes "FinalizeOrphan transition now run s = ((r, None), s')" and "\<not> isTerminal (run_status run)"
  shows "persisted run r s s' \<and> run_status r = ReplayRunFailed"
proof -
  from assms have t: "transition (run_status run) r s = (None, s')" and r: "run_id r = run_id run \<and> same_identity run r \<and> run_status r = ReplayRunFailed"
    by (auto simp: FinalizeOrphan_def Let_def same_identity_def split: prod.splits option.splits if_splits)
  with accepted_persisted [OF t] show ?thesis by blast
qed

end

interpretation mem: run_transitions "TransitionRun cancelled" "\<lambda>s. table_get (st_runs s)"
  for cancelled
proof
  show "s' = s" if "TransitionRun cancelled st r s = (Some e, s')" for st r s e s'
    using TransitionRun_cases [of cancelled st r s] that by auto
  show "CanTransitionReplayRun st (run_status r) \<and> run_validate r = None
      \<and> (\<exists>stored. table_get (st_runs s) (run_id r) = Some stored \<and> run_status stored = st \<and> same_identity stored r)
      \<and> table_get (st_runs s') = (table_get (st_runs s))(run_id r \<mapsto> r)"
    if "TransitionRun cancelled st r s = (None, s')" for st r s s'
    using TransitionRun_cases [of cancelled st r s] that by (auto simp: fun_eq_iff)
qed

section \<open>Isolation evidence\<close>

lemma replay_hosts: "replayOnlyHost ''http://payment-simulator:8080''"
  by code_simp

lemma isolation_agree:
  assumes v: "isolation_validate i = None"
  shows "ValidateIsolation i = None \<longleftrightarrow> iso_verdict i = VerdictPass"
proof -
  from v have "iso_verdict i \<noteq> VerdictFail \<longleftrightarrow> \<not> isolation_failed i" "iso_verdict i = VerdictPass \<or> iso_verdict i = VerdictFail"
      "iso_policy i = ContractVersion" "iso_credential i = CredentialReplayOnly"
      "\<forall>x\<in>set (elems (iso_simulators i)). replayOnlyHost (di_destination x)"
    by (auto simp: isolation_validate_def simulator_check_def split: if_splits option.splits)
  then show ?thesis by (auto simp: ValidateIsolation_def isolation_failed_def isReplayDatastore_def)
qed

text \<open>On evidence that passes the contract check, the safety check of the replay package and the recorded verdict
  agree: \<open>ValidateIsolation\<close> accepts exactly the evidence with verdict PASS. The evidence that the code builds
  passes the contract; it is safe exactly when the teardown worked.\<close>

lemma isolation_checks_agree:
  "(isolation_validate i = None \<longrightarrow> (ValidateIsolation i = None \<longleftrightarrow> iso_verdict i = VerdictPass))
   \<and> (ns \<noteq> [] \<longrightarrow> isolation_validate (IsolationFor ns ok) = None
        \<and> (ValidateIsolation (IsolationFor ns ok) = None \<longleftrightarrow> ok))
   \<and> isolation_validate (safeIsolation k) = None \<and> ValidateIsolation (safeIsolation k) = None"
proof (intro conjI impI)
  show "ValidateIsolation i = None \<longleftrightarrow> iso_verdict i = VerdictPass" if "isolation_validate i = None"
    by (rule isolation_agree [OF that])
next
  assume "ns \<noteq> []"
  then show "isolation_validate (IsolationFor ns ok) = None"
    by (simp add: isolation_validate_def IsolationFor_def isolation_failed_def)
  show "ValidateIsolation (IsolationFor ns ok) = None \<longleftrightarrow> ok"
    by (simp add: ValidateIsolation_def IsolationFor_def)
next
  have pre: "has_prefix (''postgres://replay/ledger_run_'' @ x) ''postgres://replay/''" for x
    by (simp add: has_prefix_iff)
  have nb: "\<not> blank (''postgres://replay/ledger_run_'' @ x)" for x
    by (rule printable_not_blank [of "CHR ''p''"]) (simp_all add: printable_def byte_def)
  show "isolation_validate (safeIsolation k) = None"
    using pre nb replay_hosts
    by (simp add: isolation_validate_def safeIsolation_def Let_def isolation_failed_def simulator_check_def interaction_validate_def)
  show "ValidateIsolation (safeIsolation k) = None"
    using pre replay_hosts by (simp add: ValidateIsolation_def safeIsolation_def Let_def isReplayDatastore_def)
qed

text \<open>Evidence of a failed teardown is well formed and unsafe; the verdict says so.\<close>

lemma isolation_checks_agree_witness:
  "isolation_validate (IsolationFor ''n'' False) = None \<and> iso_verdict (IsolationFor ''n'' False) = VerdictFail
   \<and> ValidateIsolation (IsolationFor ''n'' False) \<noteq> None"
  using isolation_checks_agree [of "IsolationFor ''n'' False" "''n''" False] by (simp add: IsolationFor_def)

end
