(* ===== verification/Worker.thy ===== *)
theory Worker
  imports Replay
begin

text \<open>
  cmd/replay-worker/main.go: driving one run to a terminal state, recovering orphans, and one round of the poll
  loop, over the in-memory repository. Every call that takes the context and every reading of the clock has a
  site of the surroundings \<open>env\<close> (theory Clock).
\<close>

datatype worker_error =
    NoPack
  | NoRunner
  | GetRunFailed store_error
  | ClaimFailed store_error
  | AdvanceFailed replay_error
  | UnexpectedStatus
  | FinalizeInvalid contract_error
  | FinalizeRejected store_error
  | FinalizeRunFailed replay_error
  | WorkerPanic

text \<open>The Go function returns a run and an error; the zero run stands for \<open>contracts.ReplayRun{}\<close>.\<close>

type_synonym outcome = "(replay_run \<times> worker_error option) \<times> store"

definition zero_run :: replay_run where
  "zero_run = \<lparr>run_schema = [], run_id = [], run_execution = [], run_capsule = [], run_capsule_hash = [],
     run_kind = UnknownRunType [], run_baseline = [], run_intervention = None, run_trial = 0,
     run_status = UnknownRunStatus [], run_outcome = NoOutcome, run_started_at = [], run_completed_at = [],
     run_observed = None, run_effects = None, run_oracle = None, run_isolation = None, run_error_field = None\<rparr>"

section \<open>Terminal results\<close>

text \<open>Sites of the finalizers: 20 for the transition, 21 for the clock.\<close>

definition finalizeTerminal :: "env \<Rightarrow> replay_run \<Rightarrow> replay_run_status \<Rightarrow> error_code \<Rightarrow> string \<Rightarrow> store \<Rightarrow> outcome" where
  "finalizeTerminal v run status code message s =
     (let target = run\<lparr>run_status := status, run_outcome := NoOutcome,
            run_error_field := Some \<lparr>err_code = code, err_message = message, err_retryable = False,
              err_details = run_details run\<rparr>,
            run_completed_at := nowRFC3339 (env_now v 21)\<rparr>
      in case run_validate target of Some e \<Rightarrow> ((run, Some (FinalizeInvalid e)), s)
      | None \<Rightarrow>
        if isTerminal (run_status run) then ((target, None), s)
        else (case TransitionRun (env_cancelled v 20) (run_status run) target s of
            (Some e, s') \<Rightarrow> ((target, Some (FinalizeRejected e)), s')
          | (None, s') \<Rightarrow> ((target, None), s')))"

definition finalizeBlocked :: "env \<Rightarrow> replay_run \<Rightarrow> error_code \<Rightarrow> string \<Rightarrow> store \<Rightarrow> outcome" where
  "finalizeBlocked v run code message s = finalizeTerminal v run ReplayRunBlocked code message s"

definition finalizeFailed :: "env \<Rightarrow> replay_run \<Rightarrow> error_code \<Rightarrow> string \<Rightarrow> store \<Rightarrow> outcome" where
  "finalizeFailed v run code message s = finalizeTerminal v run ReplayRunFailed code message s"

text \<open>The texts of the errors; the parts that Go prints with \<open>%v\<close> are left out.\<close>

definition replay_error_text :: "replay_error \<Rightarrow> string" where
  "replay_error_text e =
     (case e of
        ErrInvalidDigest \<Rightarrow> ''replay: capsule integrity digest mismatch''
      | ErrPackValidation _ \<Rightarrow> ''replay: system pack rejected capsule''
      | ErrUnsafeReplay m \<Rightarrow> ''replay: unsafe replay destination or credential: '' @ m
      | ErrInvalidIntervention m \<Rightarrow> ''replay: invalid intervention: '' @ m
      | ErrTeardown \<Rightarrow> ''replay: replay teardown failed''
      | ErrReplayRunID k \<Rightarrow> ''replay: observed events missing replay_run_id: event '' @ k
      | ErrNoReplayEvents \<Rightarrow> ''replay: run captured no replay events''
      | ErrRunner m \<Rightarrow> ''replay: execute: '' @ m
      | ReplayError m \<Rightarrow> m
      | _ \<Rightarrow> ''replay: error'')"

definition finalizeExecuteError :: "env \<Rightarrow> replay_run \<Rightarrow> replay_error \<Rightarrow> store \<Rightarrow> outcome" where
  "finalizeExecuteError v run e s =
     (case e of
        ErrInvalidDigest \<Rightarrow> finalizeBlocked v run IntegrityMismatch (replay_error_text e) s
      | ErrPackValidation _ \<Rightarrow> finalizeBlocked v run SanitizationFailed (replay_error_text e) s
      | ErrUnsafeReplay _ \<Rightarrow> finalizeBlocked v run DestinationBlocked (replay_error_text e) s
      | ErrInvalidIntervention _ \<Rightarrow> finalizeBlocked v run InterventionInvalid (replay_error_text e) s
      | ErrTeardown \<Rightarrow> finalizeBlocked v run IsolationViolation (replay_error_text e) s
      | ErrReplayRunID _ \<Rightarrow> finalizeBlocked v run IntegrityMismatch (replay_error_text e) s
      | _ \<Rightarrow> finalizeFailed v run InternalFailure (replay_error_text e) s)"

section \<open>One run\<close>

text \<open>\<open>None\<close>: the baseline is eligible.\<close>

definition authorizeBaseline :: "env \<Rightarrow> replay_run \<Rightarrow> store \<Rightarrow> string option" where
  "authorizeBaseline v run s =
     (case GetRun (env_cancelled v 3) (run_baseline run) s of
        Inl _ \<Rightarrow> Some (''baseline '' @ run_baseline run @ '' not found'')
      | Inr b \<Rightarrow>
          if run_kind b = RunTypeBaseline \<and> run_status b = ReplayRunCompleted
             \<and> run_outcome b = ReplayOutcomeReproduced
             \<and> (case run_isolation b of None \<Rightarrow> False | Some i \<Rightarrow> iso_verdict i = VerdictPass)
             \<and> run_capsule_hash b = run_capsule_hash run
          then None
          else Some (''baseline '' @ run_baseline run
            @ '' is not an eligible COMPLETED/REPRODUCED baseline with passing isolation''))"

definition fixtureLatency :: "replay_capsule \<Rightarrow> int" where
  "fixtureLatency c = (case cap_dependency_fixtures c of [] \<Rightarrow> 0 | f # _ \<Rightarrow> df_latency f)"

text \<open>The loop that stores the observed events; sites from 30 on.\<close>

fun ingest_all :: "env \<Rightarrow> nat \<Rightarrow> execution_event list \<Rightarrow> store \<Rightarrow> store_error option \<times> store" where
  "ingest_all v n [] s = (None, s)"
| "ingest_all v n (e # es) s =
     (case IngestEvent (env_cancelled v n) e s of
        (Some err, s') \<Rightarrow> (Some err, s')
      | (None, s') \<Rightarrow> ingest_all v (Suc n) es s')"

text \<open>From the observed events to the completed run.\<close>

definition settle_run :: "env \<Rightarrow> system_pack \<Rightarrow> replay_run \<Rightarrow> execution_event list \<Rightarrow> isolation_evidence \<Rightarrow> store \<Rightarrow> outcome" where
  "settle_run v pack run es evidence s =
     (case ingest_all v 30 es s of
        (Some err, s') \<Rightarrow> finalizeFailed v run InternalFailure ''replay worker: persist replay event'' s'
      | (None, s') \<Rightarrow>
          (case pk_evaluate pack \<lparr>ex_run = run, ex_events = es, ex_graph = zero_graph\<rparr> of
             Inl PackPanic \<Rightarrow> ((run, Some WorkerPanic), s')
           | Inl (PackError m) \<Rightarrow>
               finalizeFailed v run OracleUnavailable (''replay worker: outcome evaluation failed: '' @ m) s'
           | Inr orc \<Rightarrow>
               (case FinalizeRun (TransitionRun (env_cancelled v 7)) (env_now v 7) (env_now v 8) run
                    (OutcomeFor (run_kind run) (or_matched orc)) (Some (or_effects orc)) (Some orc) (Some evidence) None s' of
                  ((_, Some e), s'') \<Rightarrow> ((run, Some (FinalizeRunFailed e)), s'')
                | ((completed, None), s'') \<Rightarrow> ((completed, None), s''))))"

text \<open>The plan and the latency of a run: an intervention is applied to a what-if run.\<close>

definition effective_plan :: "system_pack \<Rightarrow> replay_run \<Rightarrow> replay_capsule \<Rightarrow> pack_error + replay_plan \<times> int" where
  "effective_plan pack run c =
     (case run_intervention run of
        Some i \<Rightarrow>
          (if run_kind run = RunTypeWhatIf
           then map_sum id (\<lambda>plan. (plan, iv_to i)) (pk_apply pack (cap_plan c) i)
           else Inr (cap_plan c, fixtureLatency c))
      | None \<Rightarrow> Inr (cap_plan c, fixtureLatency c))"

definition execute_run :: "hasher \<Rightarrow> env \<Rightarrow> system_pack \<Rightarrow> runner \<Rightarrow> replay_run \<Rightarrow> store \<Rightarrow> outcome" where
  "execute_run h v pack runner run s =
     (if run_status run \<noteq> ReplayRunRunning then ((run, Some UnexpectedStatus), s)
      else case GetCapsule (env_cancelled v 6) (run_capsule run) s of
          Inl _ \<Rightarrow> finalizeFailed v run FixtureMissing
            (''replay worker: capsule '' @ run_capsule run @ '' not found'') s
        | Inr c \<Rightarrow>
          if \<not> VerifyDigest h c
          then finalizeBlocked v run IntegrityMismatch ''replay worker: capsule integrity digest mismatch'' s
          else (case effective_plan pack run c of
              Inl PackPanic \<Rightarrow> ((run, Some WorkerPanic), s)
            | Inl (PackError m) \<Rightarrow>
                finalizeBlocked v run InterventionInvalid (''replay worker: invalid intervention: '' @ m) s
            | Inr (plan, latency) \<Rightarrow>
                (case Execute h \<lparr>xc_pack = pack, xc_capsule = c, xc_run = run, xc_plan = plan,
                     xc_fixtures = \<lparr>fs_state = cap_state_fixtures c, fs_dependency = cap_dependency_fixtures c\<rparr>,
                     xc_runner = Some runner, xc_latency = latency\<rparr> of
                   Inl e \<Rightarrow> finalizeExecuteError v run e s
                 | Inr (es, evidence) \<Rightarrow> settle_run v pack run es evidence s)))"

definition start_run :: "hasher \<Rightarrow> env \<Rightarrow> system_pack \<Rightarrow> runner \<Rightarrow> int \<Rightarrow> replay_run \<Rightarrow> store \<Rightarrow> outcome" where
  "start_run h v pack runner lease run s =
     (if run_status run \<noteq> ReplayRunValidating then execute_run h v pack runner run s
      else case (if run_kind run = RunTypeWhatIf then authorizeBaseline v run s else None) of
          Some m \<Rightarrow> finalizeBlocked v run InterventionInvalid m s
        | None \<Rightarrow>
          (case AdvanceRun (TransitionRun (env_cancelled v 4)) (env_now v 4) run ReplayRunRunning s of
             ((r, Some e), s') \<Rightarrow> ((r, Some (AdvanceFailed e)), s')
           | ((r, None), s') \<Rightarrow>
               execute_run h v pack runner r
                 (snd (RenewLease (env_cancelled v 5) (civil_instant (env_now v 5)) (run_id r) lease s'))))"

definition processRun :: "hasher \<Rightarrow> env \<Rightarrow> system_pack option \<Rightarrow> runner option \<Rightarrow> string \<Rightarrow> int \<Rightarrow> store \<Rightarrow> outcome" where
  "processRun h v packs runners k lease s =
     (case packs of None \<Rightarrow> ((zero_run, Some NoPack), s)
      | Some pack \<Rightarrow>
     (case runners of None \<Rightarrow> ((zero_run, Some NoRunner), s)
      | Some runner \<Rightarrow>
     (case GetRun (env_cancelled v 0) k s of
        Inl e \<Rightarrow> ((zero_run, Some (GetRunFailed e)), s)
      | Inr run \<Rightarrow>
          if isTerminal (run_status run) then ((run, None), s)
          else if run_status run = ReplayRunCreated
          then (case ClaimRun (env_cancelled v 1) (civil_instant (env_now v 1)) k lease s of
              (Inl e, s') \<Rightarrow>
                (case GetRun (env_cancelled v 2) k s' of
                   Inr current \<Rightarrow>
                     if run_status current \<noteq> ReplayRunCreated then ((current, None), s')
                     else ((run, Some (ClaimFailed e)), s')
                 | Inl _ \<Rightarrow> ((run, Some (ClaimFailed e)), s'))
            | (Inr claimed, s') \<Rightarrow> start_run h v pack runner lease claimed s')
          else start_run h v pack runner lease run s)))"

section \<open>The poll loop\<close>

text \<open>\<open>reclaimOrphans\<close>: the ids of the runs that were failed. The n-th run uses site n.\<close>

fun fail_orphans :: "env \<Rightarrow> nat \<Rightarrow> replay_run list \<Rightarrow> store \<Rightarrow> string list \<times> store" where
  "fail_orphans v n [] s = ([], s)"
| "fail_orphans v n (run # runs) s =
     (case FinalizeOrphan (TransitionRun (env_cancelled v n)) (env_now v n) run s of
        ((_, Some e), s') \<Rightarrow> fail_orphans v (Suc n) runs s'
      | ((_, None), s') \<Rightarrow>
          (case fail_orphans v (Suc n) runs s' of (ks, s'') \<Rightarrow> (run_id run # ks, s'')))"

definition reclaimOrphans :: "env \<Rightarrow> store \<Rightarrow> (store_error + string list) \<times> store" where
  "reclaimOrphans v s =
     (case ReclaimExpiredRuns (env_cancelled v 0) (civil_instant (env_now v 0)) s of
        Inl e \<Rightarrow> (Inl e, s)
      | Inr expired \<Rightarrow> (case fail_orphans v 1 expired s of (ks, s') \<Rightarrow> (Inr ks, s')))"

text \<open>The runs of a round: the first that is processed without an error ends it.\<close>

fun process_first :: "hasher \<Rightarrow> (nat \<Rightarrow> env) \<Rightarrow> nat \<Rightarrow> system_pack option \<Rightarrow> runner option \<Rightarrow> int
    \<Rightarrow> replay_run list \<Rightarrow> store \<Rightarrow> bool \<times> store" where
  "process_first h vs n packs runners lease [] s = (False, s)"
| "process_first h vs n packs runners lease (run # runs) s =
     (case processRun h (vs n) packs runners (run_id run) lease s of
        ((_, Some e), s') \<Rightarrow> process_first h vs (Suc n) packs runners lease runs s'
      | ((_, None), s') \<Rightarrow> (True, s'))"

text \<open>One round of \<open>runPoll\<close>: whether a run was claimed. \<open>vs n\<close> is the environment of the n-th call.\<close>

definition poll_round :: "hasher \<Rightarrow> (nat \<Rightarrow> env) \<Rightarrow> system_pack option \<Rightarrow> runner option \<Rightarrow> int \<Rightarrow> store \<Rightarrow> bool \<times> store" where
  "poll_round h vs packs runners lease s =
     (let s1 = snd (reclaimOrphans (vs 0) s)
      in case ListRuns (env_cancelled (vs 1) 0) ReplayRunCreated s1 of
          Inl _ \<Rightarrow> (False, s1)
        | Inr runs \<Rightarrow> process_first h vs 2 packs runners lease runs s1)"

end
