(* ===== verification/WorkerSteps.thy ===== *)
theory WorkerSteps
  imports ReplayProps Worker
begin

text \<open>
  How the calls of the replay worker change the repository: each is a sequence of store operations on the runs it
  names, a run it ends without an error is terminal and stored, and a run it completes has earned it.
\<close>

section \<open>Sequences of operations\<close>

text \<open>A store reached from another by operations other than a reset, on the runs \<open>ks\<close> only.\<close>

fun op_run :: "store_op \<Rightarrow> string option" where
  "op_run (OpPutRun c r) = Some (run_id r)"
| "op_run (OpTransition c st r) = Some (run_id r)"
| "op_run (OpClaim c now k l) = Some k"
| "op_run op = None"

definition evolves :: "string set \<Rightarrow> store \<Rightarrow> store \<Rightarrow> bool" where
  "evolves ks s s' \<longleftrightarrow> (\<exists>ops. s' = apply_ops ops s
     \<and> list_all (\<lambda>op. \<not> is_reset op \<and> (case op_run op of None \<Rightarrow> True | Some k \<Rightarrow> k \<in> ks)) ops)"

lemma evolves_refl [simp, intro]: "evolves ks s s"
  unfolding evolves_def by (rule exI [of _ "[]"]) (simp add: apply_ops_def)

lemma evolves_trans [trans]: "evolves ks s s' \<Longrightarrow> evolves ks s' s'' \<Longrightarrow> evolves ks s s''"
  unfolding evolves_def
  by (elim exE conjE, rename_tac a b, rule_tac x = "a @ b" in exI) (simp add: apply_ops_def)

lemma evolves_mono: "evolves ks s s' \<Longrightarrow> ks \<subseteq> ls \<Longrightarrow> evolves ls s s'"
  unfolding evolves_def by (elim exE conjE, intro exI conjI, assumption)
    (auto simp: list_all_iff split: option.splits)

lemma evolves_op:
  assumes "\<not> is_reset op" and "case op_run op of None \<Rightarrow> True | Some k \<Rightarrow> k \<in> ks"
  shows "evolves ks s (apply_op op s)"
  unfolding evolves_def using assms by (intro exI [of _ "[op]"]) (simp add: apply_ops_def)

lemma evolves_ops [intro]:
  "IngestEvent c e s = (x, s') \<Longrightarrow> evolves ks s s'"
  "TransitionRun c st r s = (x, s') \<Longrightarrow> run_id r \<in> ks \<Longrightarrow> evolves ks s s'"
  "ClaimRun c now k l s = (y, s') \<Longrightarrow> k \<in> ks \<Longrightarrow> evolves ks s s'"
  "evolves ks s (snd (RenewLease c now k l s))"
  using evolves_op [of "OpIngest c e" ks s] evolves_op [of "OpTransition c st r" ks s]
    evolves_op [of "OpClaim c now k l" ks s] evolves_op [of "OpRenew c now k l" ks s]
  by (auto simp: is_reset_def)

lemma evolves_reachable: "evolves ks s s' \<Longrightarrow> reachable s \<Longrightarrow> reachable s'"
  by (auto simp: evolves_def reachable_apply_ops)

lemma evolves_extends: "evolves ks s s' \<Longrightarrow> store_ok s \<Longrightarrow> extends s s'"
  unfolding evolves_def by (elim exE conjE) (simp add: apply_ops_extends list_all_iff)

lemma evolves_ok: "evolves ks s s' \<Longrightarrow> store_ok s \<Longrightarrow> store_ok s'"
  by (auto simp: evolves_def apply_ops_ok)

lemma op_frame:
  assumes "\<not> is_reset op" and "case op_run op of None \<Rightarrow> True | Some j \<Rightarrow> j \<noteq> k"
  shows "table_get (st_runs (apply_op op s)) k = table_get (st_runs s) k"
proof (cases op)
  case (OpIngest c e)
  then show ?thesis using IngestEvent_cases [of c e s] by auto
next
  case (OpPutIncident c i g)
  then show ?thesis using PutIncident_cases [of c i g s] by auto
next
  case (OpPutCapsule c p)
  then show ?thesis using PutCapsule_cases [of c p s] by auto
next
  case (OpPutRun c r)
  then show ?thesis using PutRun_cases [of c r s] assms(2) by auto
next
  case (OpTransition c st r)
  then show ?thesis using TransitionRun_cases [of c st r s] assms(2) by auto
next
  case (OpClaim c now j l)
  then show ?thesis using ClaimRun_cases [of c now j l s] assms(2) by auto
next
  case (OpRenew c now j l)
  then show ?thesis using RenewLease_cases [of c now j l s] by auto
next
  case (OpPutDiff c d)
  then show ?thesis using PutDiff_cases [of c d s] by auto
next
  case (OpReset c)
  then show ?thesis using assms(1) by (simp add: is_reset_def Reset_def)
qed

lemma evolves_frame:
  assumes "evolves ks s s'" and "k \<notin> ks"
  shows "table_get (st_runs s') k = table_get (st_runs s) k"
proof -
  have "list_all (\<lambda>op. \<not> is_reset op \<and> (case op_run op of None \<Rightarrow> True | Some j \<Rightarrow> j \<in> ks)) ops
      \<Longrightarrow> table_get (st_runs (apply_ops ops s)) k = table_get (st_runs s) k" for ops
  proof (induction ops arbitrary: s)
    case (Cons op ops)
    then have "table_get (st_runs (apply_op op s)) k = table_get (st_runs s) k"
      using assms(2) by (intro op_frame) (auto split: option.splits)
    with Cons show ?case by (simp add: apply_ops_def)
  qed (simp add: apply_ops_def)
  with assms(1) show ?thesis by (auto simp: evolves_def)
qed

section \<open>One run\<close>

text \<open>How a call that drives a run ends: it touches that run only, and without an error the run is terminal and stored.\<close>

definition driven :: "replay_run \<Rightarrow> store \<Rightarrow> outcome \<Rightarrow> bool" where
  "driven run s out \<longleftrightarrow> evolves {run_id run} s (snd out)
     \<and> (snd (fst out) = None \<longrightarrow> isTerminal (run_status (fst (fst out)))
          \<and> table_get (st_runs (snd out)) (run_id run) = Some (fst (fst out)))"

lemma finalizeTerminal_driven:
  assumes "\<not> isTerminal (run_status run)" and "isTerminal st"
  shows "driven run s (finalizeTerminal v run st code m s)"
    and "run_status (fst (fst (finalizeTerminal v run st code m s))) \<in> {run_status run, st}"
proof -
  let ?t = "run\<lparr>run_status := st, run_outcome := NoOutcome,
            run_error_field := Some \<lparr>err_code = code, err_message = m, err_retryable = False,
              err_details = run_details run\<rparr>,
            run_completed_at := nowRFC3339 (env_now v 21)\<rparr>"
  show "driven run s (finalizeTerminal v run st code m s)"
    using TransitionRun_cases [of "env_cancelled v 20" "run_status run" ?t s] assms
      evolves_ops(2) [of "env_cancelled v 20" "run_status run" ?t s, where ks = "{run_id run}"]
    by (auto simp: driven_def finalizeTerminal_def Let_def split: option.splits prod.splits)
  show "run_status (fst (fst (finalizeTerminal v run st code m s))) \<in> {run_status run, st}"
    by (auto simp: finalizeTerminal_def Let_def split: option.splits prod.splits)
qed

lemma finalizers_driven:
  assumes "\<not> isTerminal (run_status run)"
  shows "driven run s (finalizeBlocked v run code m s)" "driven run s (finalizeFailed v run code m s)"
    "driven run s (finalizeExecuteError v run e s)"
proof -
  have t: "isTerminal ReplayRunBlocked" "isTerminal ReplayRunFailed" by (simp_all add: isTerminal_def)
  show b: "driven run s (finalizeBlocked v run code m s)" for code m
    by (simp add: finalizeBlocked_def finalizeTerminal_driven(1) [OF assms t(1)])
  show f: "driven run s (finalizeFailed v run code m s)" for code m
    by (simp add: finalizeFailed_def finalizeTerminal_driven(1) [OF assms t(2)])
  show "driven run s (finalizeExecuteError v run e s)"
    by (simp add: finalizeExecuteError_def b f split: replay_error.split)
qed


lemma replay_evolves:
  "evolves {run_id run} s (snd (AdvanceRun (TransitionRun c) now run st s))"
  "evolves {run_id run} s (snd (FinalizeRun (TransitionRun c) t0 t1 run out eff orc evd err s))"
  "evolves {run_id run} s (snd (FinalizeOrphan (TransitionRun c) now run s))"
proof -
  have st: "run_id (stamp now st r) = run_id r" for r by (simp add: stamp_def)
  show "evolves {run_id run} s (snd (AdvanceRun (TransitionRun c) now run st s))"
    by (auto simp: AdvanceRun_def Let_def st elim!: evolves_ops(2) split: prod.split option.split)
  show "evolves {run_id run} s (snd (FinalizeRun (TransitionRun c) t0 t1 run out eff orc evd err s))"
    by (auto simp: FinalizeRun_def Let_def elim!: evolves_ops(2) split: prod.split option.split)
  show "evolves {run_id run} s (snd (FinalizeOrphan (TransitionRun c) now run s))"
    by (auto simp: FinalizeOrphan_def Let_def elim!: evolves_ops(2) split: prod.split option.split)
qed

lemma finalizers_not_completed:
  assumes "run_status run = ReplayRunRunning \<or> run_status run = ReplayRunValidating"
  shows "finalizeBlocked v run code m s = ((r, x), s') \<Longrightarrow> run_status r \<noteq> ReplayRunCompleted"
    "finalizeFailed v run code m s = ((r, x), s') \<Longrightarrow> run_status r \<noteq> ReplayRunCompleted"
    "finalizeExecuteError v run e s = ((r, x), s') \<Longrightarrow> run_status r \<noteq> ReplayRunCompleted"
proof -
  have a: "run_status r \<noteq> ReplayRunCompleted" if "st = ReplayRunBlocked \<or> st = ReplayRunFailed"
      "finalizeTerminal v run st code m s = ((r, x), s')" for st code m
    using finalizeTerminal_driven(2) [of run st v code m s] that assms by (auto simp: isTerminal_def)
  show b: "finalizeBlocked v run code m s = ((r, x), s') \<Longrightarrow> run_status r \<noteq> ReplayRunCompleted" for code m
    using a [of ReplayRunBlocked] by (simp add: finalizeBlocked_def)
  show f: "finalizeFailed v run code m s = ((r, x), s') \<Longrightarrow> run_status r \<noteq> ReplayRunCompleted" for code m
    using a [of ReplayRunFailed] by (simp add: finalizeFailed_def)
  show "finalizeExecuteError v run e s = ((r, x), s') \<Longrightarrow> run_status r \<noteq> ReplayRunCompleted"
    using b f by (auto simp: finalizeExecuteError_def split: replay_error.splits)
qed

lemma ingest_all_evolves: "evolves ks s (snd (ingest_all v n es s))"
proof (induction es arbitrary: n s)
  case (Cons e es)
  then show ?case
    using evolves_ops(1) [of "env_cancelled v n" e s, where ks = ks] evolves_trans
    by (fastforce split: prod.splits option.splits)
qed simp

lemma ingest_all_stored:
  "store_ok s \<Longrightarrow> ingest_all v n es s = (None, s') \<Longrightarrow> e \<in> set es \<Longrightarrow> table_get (st_events s') (ev_id e) = Some e"
proof (induction es arbitrary: n s)
  case (Cons a es)
  then obtain s1 where s1: "IngestEvent (env_cancelled v n) a s = (None, s1)" "ingest_all v (Suc n) es s1 = (None, s')"
    by (auto split: prod.splits option.splits)
  have ev: "evolves {} s s1" "evolves {} s1 s'"
    using evolves_ops(1) [OF s1(1)] ingest_all_evolves [of "{}" s1 v "Suc n" es] s1(2) by auto
  note ok = evolves_ok [OF ev(1) Cons.prems(1)]
  show ?case
  proof (cases "e = a")
    case True
    with IngestEvent_cases [of "env_cancelled v n" a s] s1(1) have "table_get (st_events s1) (ev_id e) = Some e" by auto
    with evolves_extends [OF ev(2) ok] show ?thesis by (simp add: extends_def sub_table_def)
  next
    case False
    with Cons.prems(3) Cons.IH [OF ok s1(2)] show ?thesis by simp
  qed
qed simp

text \<open>What stands behind a completed run: the events of the runner, all tagged with the run and stored, the verdict of
  the pack on them, and evidence of a safe isolation.\<close>

definition settled :: "system_pack \<Rightarrow> replay_run \<Rightarrow> execution_event list \<Rightarrow> isolation_evidence \<Rightarrow> replay_run \<Rightarrow> store \<Rightarrow> bool" where
  "settled pack run es i r s \<longleftrightarrow> (\<exists>orc. pk_evaluate pack \<lparr>ex_run = run, ex_events = es, ex_graph = zero_graph\<rparr> = Inr orc
     \<and> run_oracle r = Some orc \<and> run_effects r = Some (or_effects orc)
     \<and> run_outcome r = deriveOutcome (run_kind r) (or_matched orc)
     \<and> run_isolation r = Some i \<and> ValidateIsolation i = None \<and> run_validate r = None
     \<and> run_id r = run_id run \<and> same_identity run r
     \<and> (\<forall>e\<in>set es. table_get (st_events s) (ev_id e) = Some e))"

lemma settle_run_ends:
  assumes "run_status run = ReplayRunRunning" and "store_ok s"
  shows "driven run s (settle_run v pack run es i s)
    \<and> (settle_run v pack run es i s = ((r, None), s') \<longrightarrow> run_status r = ReplayRunCompleted \<longrightarrow> settled pack run es i r s')"
proof (cases "ingest_all v 30 es s")
  case (Pair x s1)
  have nt: "\<not> isTerminal (run_status run)" using assms(1) by (simp add: isTerminal_def)
  have ev: "evolves {run_id run} s s1" using ingest_all_evolves [of _ s v 30 es] Pair by simp
  have ok: "store_ok s1" by (rule evolves_ok [OF ev assms(2)])
  have finish: "driven run s out" if "driven run s1 out" for out
    using that evolves_trans [OF ev] by (auto simp: driven_def)
  note failed = finish [OF finalizers_driven(2) [OF nt]]
  show ?thesis
  proof (cases x)
    case (Some e)
    with Pair failed assms(1) show ?thesis by (auto simp: settle_run_def dest: finalizers_not_completed(2) [rotated])
  next
    case None
    note stored = ingest_all_stored [OF assms(2) Pair [unfolded None]]
    show ?thesis
    proof (cases "pk_evaluate pack \<lparr>ex_run = run, ex_events = es, ex_graph = zero_graph\<rparr>")
      case (Inl e)
      with Pair None failed assms(1) ev show ?thesis
        by (cases e) (auto simp: settle_run_def driven_def dest: finalizers_not_completed(2) [rotated])
    next
      case (Inr orc)
      let ?fin = "FinalizeRun (TransitionRun (env_cancelled v 7)) (env_now v 7) (env_now v 8) run
          (OutcomeFor (run_kind run) (or_matched orc)) (Some (or_effects orc)) (Some orc) (Some i) None s1"
      obtain r1 e1 s2 where fin: "?fin = ((r1, e1), s2)" by (metis prod.exhaust)
      show ?thesis
      proof (cases e1)
        case (Some e)
        with fin mem.FinalizeRun_error have "s2 = s1" by blast
        with Some fin Pair None Inr ev show ?thesis by (simp add: settle_run_def driven_def)
      next
        case fine: None
        from mem.FinalizeRun_persisted [OF fin [unfolded fine] nt]
        have p: "mem.persisted run r1 s1 s2" "run_status r1 = ReplayRunCompleted" "run_outcome r1 = OutcomeFor (run_kind run) (or_matched orc)"
            "run_effects r1 = Some (or_effects orc)" "run_oracle r1 = Some orc" "run_isolation r1 = Some i" "ValidateIsolation i = None"
          by auto
        have ev2: "evolves {run_id run} s s2"
          using evolves_trans [OF ev] replay_evolves(2) [of run s1 "env_cancelled v 7"] fin by (metis snd_conv)
        from p(1) have q: "table_get (st_runs s2) (run_id run) = Some r1" "run_validate r1 = None" "run_id r1 = run_id run"
            "same_identity run r1" "run_kind r1 = run_kind run"
          by (simp_all add: mem.persisted_def same_identity_def)
        have evolves_ops_fin: "evolves {run_id run} s1 s2" using replay_evolves(2) [of run s1 "env_cancelled v 7"] fin by (metis snd_conv)
        have "e \<in> set es \<Longrightarrow> table_get (st_events s2) (ev_id e) = Some e" for e
          using stored evolves_extends [OF evolves_ops_fin ok] by (simp add: extends_def sub_table_def)
        then show ?thesis
          using fin fine Pair None Inr ev2 p q by (auto simp: settle_run_def driven_def settled_def OutcomeFor_def isTerminal_def)
      qed
    qed
  qed
qed


abbreviation capsule_fixtures :: "replay_capsule \<Rightarrow> fixture_set" where
  "capsule_fixtures c \<equiv> \<lparr>fs_state = cap_state_fixtures c, fs_dependency = cap_dependency_fixtures c\<rparr>"

lemma Execute_Inr:
  assumes "Execute h cfg = Inr (es, i)"
  shows "VerifyDigest h (xc_capsule cfg) \<and> pk_validate (xc_pack cfg) (xc_capsule cfg) = []
    \<and> validateReplaySafety (xc_capsule cfg) (xc_run cfg) (xc_plan cfg) (xc_fixtures cfg) = None
    \<and> (\<exists>runner out. xc_runner cfg = Some runner \<and> runner \<lparr>rc_run = run_id (xc_run cfg),
          rc_namespace = ''replay-run-'' @ run_id (xc_run cfg), rc_plan = xc_plan cfg, rc_fixtures = xc_fixtures cfg,
          rc_latency = xc_latency cfg\<rparr> = Inr out
        \<and> \<not> ro_teardown out \<and> ro_events out = es \<and> ro_isolation out = i)
    \<and> ValidateIsolation i = None \<and> es \<noteq> [] \<and> (\<forall>e\<in>set es. ev_run e = run_id (xc_run cfg))"
  using assms
  by (auto simp: Execute_def Let_def find_None_iff split: if_splits option.splits sum.splits)

definition earned :: "hasher \<Rightarrow> system_pack \<Rightarrow> runner \<Rightarrow> replay_run \<Rightarrow> store \<Rightarrow> bool" where
  "earned h pack runner r s \<longleftrightarrow> (\<exists>run c plan latency out. run_status run = ReplayRunRunning
     \<and> table_get (st_capsules s) (run_capsule r) = Some c \<and> VerifyDigest h c \<and> pk_validate pack c = []
     \<and> effective_plan pack run c = Inr (plan, latency)
     \<and> validateReplaySafety c run plan (capsule_fixtures c) = None
     \<and> runner \<lparr>rc_run = run_id r, rc_namespace = ''replay-run-'' @ run_id r, rc_plan = plan,
          rc_fixtures = capsule_fixtures c, rc_latency = latency\<rparr> = Inr out
     \<and> \<not> ro_teardown out \<and> ro_events out \<noteq> [] \<and> (\<forall>e\<in>set (ro_events out). ev_run e = run_id r)
     \<and> settled pack run (ro_events out) (ro_isolation out) r s)"

text \<open>A call that drives a run and, when it completes it, has earned it.\<close>

definition drives :: "hasher \<Rightarrow> system_pack \<Rightarrow> runner \<Rightarrow> replay_run \<Rightarrow> store \<Rightarrow> outcome \<Rightarrow> bool" where
  "drives h pack runner run s out \<longleftrightarrow> driven run s out
     \<and> (snd (fst out) = None \<longrightarrow> run_status (fst (fst out)) = ReplayRunCompleted \<longrightarrow> earned h pack runner (fst (fst out)) (snd out))"

lemma finalizers_drive:
  assumes "run_status run = ReplayRunRunning \<or> run_status run = ReplayRunValidating"
  shows "drives h pack runner run s (finalizeBlocked v run code m s)" "drives h pack runner run s (finalizeFailed v run code m s)"
    "drives h pack runner run s (finalizeExecuteError v run e s)"
proof -
  have nt: "\<not> isTerminal (run_status run)" using assms by (auto simp: isTerminal_def)
  note d = finalizers_driven [OF nt] and n = finalizers_not_completed [OF assms]
  have "drives h pack runner run s out" if "driven run s out" "\<And>r x s'. out = ((r, x), s') \<Longrightarrow> run_status r \<noteq> ReplayRunCompleted" for out
    using that by (cases out) (auto simp: drives_def)
  note m = this
  show "drives h pack runner run s (finalizeBlocked v run code m s)" by (rule m [OF d(1)]) (erule n(1))
  show "drives h pack runner run s (finalizeFailed v run code m s)" by (rule m [OF d(2)]) (erule n(2))
  show "drives h pack runner run s (finalizeExecuteError v run e s)" by (rule m [OF d(3)]) (erule n(3))
qed

lemma driven_error [intro]: "driven run s ((r, Some e), s)"
  by (simp add: driven_def)

lemma drives_error [intro]: "drives h pack runner run s ((r, Some e), s)"
  by (simp add: drives_def driven_error)

lemma drives_trans:
  assumes "evolves {run_id run} s s1" and "run_id r1 = run_id run" and "drives h pack runner r1 s1 out"
  shows "drives h pack runner run s out"
  using assms evolves_trans [OF assms(1)] by (auto simp: drives_def driven_def)

lemma execute_run_drives:
  assumes st: "run_status run = ReplayRunRunning" and ok: "store_ok s"
  shows "drives h pack runner run s (execute_run h v pack runner run s)"
proof (cases "GetCapsule (env_cancelled v 6) (run_capsule run) s")
  case (Inl e)
  then show ?thesis using st by (simp add: execute_run_def finalizers_drive)
next
  case (Inr c)
  then have c: "table_get (st_capsules s) (run_capsule run) = Some c"
    by (auto simp: GetCapsule_def lookup_row_def split: if_splits option.splits)
  show ?thesis
  proof (cases "VerifyDigest h c")
    case False
    with Inr st show ?thesis by (simp add: execute_run_def finalizers_drive)
  next
    case True
    show ?thesis
    proof (cases "effective_plan pack run c")
      case (Inl e)
      with Inr True st show ?thesis by (cases e) (auto simp: execute_run_def finalizers_drive)
    next
      case plan: (Inr p)
      obtain plan latency where p: "p = (plan, latency)" by (cases p)
      let ?cfg = "\<lparr>xc_pack = pack, xc_capsule = c, xc_run = run, xc_plan = plan, xc_fixtures = capsule_fixtures c,
          xc_runner = Some runner, xc_latency = latency\<rparr>"
      show ?thesis
      proof (cases "Execute h ?cfg")
        case (Inl e)
        with Inr True st plan p show ?thesis by (auto simp: execute_run_def finalizers_drive)
      next
        case ex: (Inr q)
        obtain es i where q: "q = (es, i)" by (cases q)
        have run: "execute_run h v pack runner run s = settle_run v pack run es i s"
          using Inr True st plan p ex q by (simp add: execute_run_def)
        obtain r x s' where out: "settle_run v pack run es i s = ((r, x), s')" by (metis prod.exhaust)
        note ends = settle_run_ends [OF st ok, of v pack es i r s']
        have "earned h pack runner r s'" if "x = None" "run_status r = ReplayRunCompleted"
        proof -
          from ends that out have d: "driven run s ((r, None), s')" and z: "settled pack run es i r s'" by auto
          from d have "extends s s'" using evolves_extends [where s = s, OF _ ok] by (auto simp: driven_def)
          with c have "table_get (st_capsules s') (run_capsule run) = Some c" by (simp add: extends_def sub_table_def)
          moreover have "run_capsule r = run_capsule run" "run_id r = run_id run" using z by (auto simp: settled_def same_identity_def)
          ultimately show ?thesis
            unfolding earned_def using Execute_Inr [OF ex [unfolded q]] st plan p z True by auto
        qed
        with ends out show ?thesis unfolding run by (auto simp: drives_def)
      qed
    qed
  qed
qed


lemma start_run_drives:
  assumes "\<not> isTerminal (run_status run)" and ok: "store_ok s"
  shows "drives h pack runner run s (start_run h v pack runner lease run s)"
proof (cases "run_status run = ReplayRunValidating")
  case False
  then show ?thesis using execute_run_drives [OF _ ok]
    by (cases "run_status run = ReplayRunRunning") (auto simp: start_run_def execute_run_def)
next
  case True
  show ?thesis
  proof (cases "if run_kind run = RunTypeWhatIf then authorizeBaseline v run s else None")
    case (Some m)
    with True show ?thesis by (simp add: start_run_def finalizers_drive)
  next
    case None
    obtain r x s1 where adv: "AdvanceRun (TransitionRun (env_cancelled v 4)) (env_now v 4) run ReplayRunRunning s = ((r, x), s1)"
      by (metis prod.exhaust)
    have ev1: "evolves {run_id run} s s1"
      using replay_evolves(1) [of run s "env_cancelled v 4" "env_now v 4" ReplayRunRunning] adv by simp
    show ?thesis
    proof (cases x)
      case (Some e)
      with adv None True ev1 show ?thesis by (auto simp: start_run_def drives_def driven_def)
    next
      case ran: None
      from mem.AdvanceRun_persisted [OF adv [unfolded ran]]
      have r: "run_id r = run_id run" "run_status r = ReplayRunRunning" by (simp_all add: mem.persisted_def)
      let ?s = "snd (RenewLease (env_cancelled v 5) (civil_instant (env_now v 5)) (run_id r) lease s1)"
      have ev: "evolves {run_id run} s ?s" by (rule evolves_trans [OF ev1 evolves_ops(4)])
      with execute_run_drives [OF r(2) evolves_ok [OF ev ok]] drives_trans [OF ev r(1)] adv ran None True
      show ?thesis by (simp add: start_run_def)
    qed
  qed
qed

lemma stored_row: "store_ok s \<Longrightarrow> GetRun c k s = Inr run \<Longrightarrow> run_id run = k \<and> table_get (st_runs s) k = Some run \<and> run_validate run = None"
  using store_ok_get_run [of s k run] by (auto simp: GetRun_def lookup_row_def run_row_def split: if_splits option.splits)

lemma processRun_drives:
  assumes ok: "store_ok s" and run: "table_get (st_runs s) k = Some run" and nt: "\<not> isTerminal (run_status run)"
  shows "drives h pack runner run s (processRun h v (Some pack) (Some runner) k lease s)"
proof (cases "env_cancelled v 0")
  case True
  then show ?thesis by (auto simp: processRun_def GetRun_def lookup_row_def)
next
  case False
  with run have get: "GetRun (env_cancelled v 0) k s = Inr run" by (simp add: GetRun_def lookup_row_def)
  have id: "run_id run = k" using store_ok_get_run [OF ok run] by (simp add: run_row_def)
  show ?thesis
  proof (cases "run_status run = ReplayRunCreated")
    case False
    with get nt show ?thesis by (simp add: processRun_def start_run_drives [OF nt ok])
  next
    case True
    obtain x s1 where claim: "ClaimRun (env_cancelled v 1) (civil_instant (env_now v 1)) k lease s = (x, s1)" by fastforce
    have ev: "evolves {run_id run} s s1" by (rule evolves_ops(3) [OF claim]) (simp add: id)
    from ClaimRun_cases [of "env_cancelled v 1" "civil_instant (env_now v 1)" k lease s] claim run True
    consider e where "x = Inl e" "s1 = s" | "x = Inr (run\<lparr>run_status := ReplayRunValidating\<rparr>)" by auto
    then show ?thesis
    proof cases
      case 1
      with claim get nt True run show ?thesis
        by (auto simp: processRun_def GetRun_def lookup_row_def split: sum.split)
    next
      case 2
      let ?r = "run\<lparr>run_status := ReplayRunValidating\<rparr>"
      have "drives h pack runner ?r s1 (start_run h v pack runner lease ?r s1)"
        by (rule start_run_drives [OF _ evolves_ok [OF ev ok]]) (simp add: isTerminal_def)
      then have "drives h pack runner run s (start_run h v pack runner lease ?r s1)"
        by (rule drives_trans [OF ev, rotated]) simp
      with 2 claim get nt True show ?thesis by (simp add: processRun_def)
    qed
  qed
qed

lemma processRun_evolves:
  assumes ok: "store_ok s"
  shows "evolves {k} s (snd (processRun h v packs runners k lease s))"
proof (cases "packs = None \<or> runners = None \<or> table_get (st_runs s) k = None \<or> env_cancelled v 0")
  case True
  then show ?thesis by (auto simp: processRun_def GetRun_def lookup_row_def split: option.split)
next
  case False
  then obtain pack runner run where some: "packs = Some pack" "runners = Some runner" "table_get (st_runs s) k = Some run" by auto
  show ?thesis
  proof (cases "isTerminal (run_status run)")
    case True
    with some False show ?thesis by (simp add: processRun_def GetRun_def lookup_row_def)
  next
    case nt: False
    have "run_id run = k" using store_ok_get_run [OF ok some(3)] by (simp add: run_row_def)
    with processRun_drives [OF ok some(3) nt] some show ?thesis by (simp add: drives_def driven_def)
  qed
qed

end
