(* ===== verification/WorkerLive.thy ===== *)
theory WorkerLive
  imports WorkerSteps DiffProps CapsuleProps
begin

text \<open>
  When the replay worker completes a run, and a store, a pack and a runner with which it does.
\<close>

section \<open>Runs are completed\<close>

lemma ingest_all_succeeds:
  "\<forall>n. \<not> env_cancelled v n \<Longrightarrow> \<forall>e\<in>set es. event_validate e = None \<and> table_get (st_events s) (ev_id e) = None
    \<Longrightarrow> distinct (map ev_id es) \<Longrightarrow> fst (ingest_all v n es s) = None
      \<and> st_runs (snd (ingest_all v n es s)) = st_runs s"
proof (induction es arbitrary: n s)
  case (Cons e es)
  let ?s = "s\<lparr>st_events := table_put (ev_id e) e (st_events s)\<rparr>"
  have "IngestEvent (env_cancelled v n) e s = (None, ?s)" using Cons.prems by (simp add: IngestEvent_def)
  moreover have "\<forall>x\<in>set es. event_validate x = None \<and> table_get (st_events ?s) (ev_id x) = None"
    using Cons.prems by (auto simp: image_iff)
  ultimately show ?case using Cons.IH [of ?s "Suc n"] Cons.prems by simp
qed simp

text \<open>The states of a run on the way to completion.\<close>

definition running :: "string \<Rightarrow> replay_run \<Rightarrow> replay_run" where
  "running at run = run\<lparr>run_status := ReplayRunRunning, run_started_at := at\<rparr>"

definition completed :: "string \<Rightarrow> oracle_result \<Rightarrow> isolation_evidence \<Rightarrow> replay_run \<Rightarrow> replay_run" where
  "completed at orc i run = run\<lparr>run_status := ReplayRunCompleted, run_outcome := OutcomeFor (run_kind run) (or_matched orc),
     run_effects := Some (or_effects orc), run_oracle := Some orc, run_isolation := Some i, run_error_field := None,
     run_completed_at := at\<rparr>"

lemma running_valid:
  assumes "run_validate run = None" and "run_status run = ReplayRunCreated" and "validUTCTime at" "at \<noteq> []"
  shows "run_validate (running at run) = None"
  using assms
  by (auto simp: run_validate_None_iff run_check_defs running_def terminal_status_def validRunStatus_def)

lemma completed_valid:
  assumes "run_validate run = None" and "run_status run = ReplayRunRunning" and "validUTCTime at" "at \<noteq> []"
    and "oracle_result_validate orc = None" and "isolation_validate i = None" and "iso_verdict i = VerdictPass"
    and "run_isolation run = None"
  shows "run_validate (completed at orc i run) = None"
proof -
  have "effects_validate (or_effects orc) = None" using assms(5) by (auto simp: oracle_result_validate_def split: if_splits)
  with assms show ?thesis
    by - (rule run_kind_cases [OF assms(1)], auto simp: run_validate_None_iff run_check_defs completed_def terminal_status_def validRunStatus_def
        OutcomeFor_def deriveOutcome_def run_outcome_oracle_check_def)
qed


text \<open>No call is cancelled, and the clock shows a time of day.\<close>

definition calm :: "env \<Rightarrow> bool" where
  "calm v \<longleftrightarrow> (\<forall>n. \<not> env_cancelled v n) \<and> (\<forall>n. civil_ok (env_now v n))"

text \<open>What a worker needs of the runner and the pack to complete a run.\<close>

definition replay_ready :: "hasher \<Rightarrow> system_pack \<Rightarrow> runner \<Rightarrow> replay_run \<Rightarrow> store \<Rightarrow> oracle_result \<Rightarrow> bool" where
  "replay_ready h pack runner run s orc \<longleftrightarrow> (\<exists>c plan latency out.
     table_get (st_capsules s) (run_capsule run) = Some c \<and> VerifyDigest h c \<and> pk_validate pack c = []
     \<and> effective_plan pack run c = Inr (plan, latency)
     \<and> validateReplaySafety c run plan (capsule_fixtures c) = None
     \<and> runner \<lparr>rc_run = run_id run, rc_namespace = ''replay-run-'' @ run_id run, rc_plan = plan,
          rc_fixtures = capsule_fixtures c, rc_latency = latency\<rparr> = Inr out
     \<and> \<not> ro_teardown out \<and> isolation_validate (ro_isolation out) = None \<and> iso_verdict (ro_isolation out) = VerdictPass
     \<and> ro_events out \<noteq> [] \<and> distinct (map ev_id (ro_events out))
     \<and> (\<forall>e\<in>set (ro_events out). ev_run e = run_id run \<and> event_validate e = None
          \<and> table_get (st_events s) (ev_id e) = None)
     \<and> (\<forall>r. pk_evaluate pack \<lparr>ex_run = r, ex_events = ro_events out, ex_graph = zero_graph\<rparr> = Inr orc)
     \<and> oracle_result_validate orc = None)"

lemma settle_run_completes:
  assumes "calm v" and run: "table_get (st_runs s) (run_id run) = Some run" "run_validate run = None"
      "run_status run = ReplayRunRunning" "run_isolation run = None"
    and ev: "\<forall>e\<in>set es. event_validate e = None \<and> table_get (st_events s) (ev_id e) = None" "distinct (map ev_id es)"
    and orc: "pk_evaluate pack \<lparr>ex_run = run, ex_events = es, ex_graph = zero_graph\<rparr> = Inr orc"
      "oracle_result_validate orc = None"
    and iso: "isolation_validate i = None" "iso_verdict i = VerdictPass"
  shows "\<exists>s'. settle_run v pack run es i s = ((completed (nowRFC3339 (env_now v 7)) orc i run, None), s')"
proof -
  let ?at = "nowRFC3339 (env_now v 7)"
  let ?r = "completed ?at orc i run"
  have calm: "\<not> env_cancelled v n" "civil_ok (env_now v n)" for n using assms(1) by (simp_all add: calm_def)
  obtain x s1 where "ingest_all v 30 es s = (x, s1)" by fastforce
  with ingest_all_succeeds [of v es s 30] calm ev have ing: "ingest_all v 30 es s = (None, s1)" "st_runs s1 = st_runs s" by auto
  have times: "run_started_at run \<noteq> []" "run_completed_at run = []"
    using run(2,3) by (auto simp: run_validate_None_iff run_times_check_def terminal_status_def split: if_splits)
  have valid: "run_validate ?r = None"
    by (rule completed_valid [OF run(2,3) _ _ orc(2) iso run(4)]) (simp_all add: now_valid calm)
  have id: "run_id ?r = run_id run" "run_status ?r = ReplayRunCompleted" "same_identity run ?r"
    by (simp_all add: completed_def same_identity_def)
  have "TransitionRun (env_cancelled v 7) (run_status run) ?r s1 = (None, s1\<lparr>st_runs := table_put (run_id run) ?r (st_runs s1)\<rparr>)"
    using run ing(2) valid id calm by (simp add: TransitionRun_def)
  moreover have "?r\<lparr>run_started_at := run_started_at run\<rparr> = ?r" by (simp add: completed_def)
  moreover have "run\<lparr>run_status := ReplayRunCompleted, run_outcome := OutcomeFor (run_kind run) (or_matched orc),
      run_effects := Some (or_effects orc), run_oracle := Some orc, run_isolation := Some i, run_error_field := None,
      run_completed_at := ?at\<rparr> = ?r"
    by (simp add: completed_def)
  ultimately have "FinalizeRun (TransitionRun (env_cancelled v 7)) (env_now v 7) (env_now v 8) run
      (OutcomeFor (run_kind run) (or_matched orc)) (Some (or_effects orc)) (Some orc) (Some i) None s1
      = ((?r, None), s1\<lparr>st_runs := table_put (run_id run) ?r (st_runs s1)\<rparr>)"
    using valid times run(3) isolation_agree [OF iso(1)] iso(2)
    by (simp add: FinalizeRun_def Let_def or_now_def isTerminal_def)
  with ing orc(1) show ?thesis by (simp add: settle_run_def)
qed


lemma execute_run_completes:
  assumes "calm v" and "store_ok s" and run: "table_get (st_runs s) (run_id run) = Some run"
      "run_status run = ReplayRunRunning" "run_isolation run = None"
    and ready: "replay_ready h pack runner run s orc"
  shows "\<exists>i s'. execute_run h v pack runner run s = ((completed (nowRFC3339 (env_now v 7)) orc i run, None), s')"
proof -
  have calm: "\<not> env_cancelled v n" for n using assms(1) by (simp add: calm_def)
  have valid: "run_validate run = None" using store_ok_get_run [OF assms(2) run(1)] by (simp add: run_row_def)
  from ready obtain c plan latency out where c: "table_get (st_capsules s) (run_capsule run) = Some c" "VerifyDigest h c"
      "pk_validate pack c = []" "effective_plan pack run c = Inr (plan, latency)"
      "validateReplaySafety c run plan (capsule_fixtures c) = None"
    and out: "runner \<lparr>rc_run = run_id run, rc_namespace = ''replay-run-'' @ run_id run, rc_plan = plan,
          rc_fixtures = capsule_fixtures c, rc_latency = latency\<rparr> = Inr out" "\<not> ro_teardown out"
      "isolation_validate (ro_isolation out) = None" "iso_verdict (ro_isolation out) = VerdictPass"
      "ro_events out \<noteq> []" "distinct (map ev_id (ro_events out))"
      "\<forall>e\<in>set (ro_events out). ev_run e = run_id run \<and> event_validate e = None \<and> table_get (st_events s) (ev_id e) = None"
    and orc: "pk_evaluate pack \<lparr>ex_run = run, ex_events = ro_events out, ex_graph = zero_graph\<rparr> = Inr orc"
      "oracle_result_validate orc = None"
    by (auto simp: replay_ready_def)
  have tagged: "find (\<lambda>e. ev_run e \<noteq> run_id run) (ro_events out) = None" using out(7) by (simp add: find_None_iff)
  have ex: "Execute h \<lparr>xc_pack = pack, xc_capsule = c, xc_run = run, xc_plan = plan, xc_fixtures = capsule_fixtures c,
      xc_runner = Some runner, xc_latency = latency\<rparr> = Inr (ro_events out, ro_isolation out)"
    using c out isolation_agree [OF out(3)] tagged by (simp add: Execute_def)
  from settle_run_completes [OF assms(1) run(1) valid run(2,3) _ out(6) orc out(3,4)] out(7)
  obtain s' where "settle_run v pack run (ro_events out) (ro_isolation out) s
      = ((completed (nowRFC3339 (env_now v 7)) orc (ro_isolation out) run, None), s')" by blast
  with run c ex calm show ?thesis
    by (auto simp: execute_run_def GetCapsule_def lookup_row_def)
qed

lemma authorize_backed:
  assumes "calm v" and "run_backed s run" and "run_kind run = RunTypeWhatIf"
  shows "authorizeBaseline v run s = None"
  using assms by (auto simp: run_backed_def authorizeBaseline_def GetRun_def lookup_row_def calm_def eligible_baseline_def)

lemma start_run_completes:
  assumes calm: "calm v" and ok: "store_ok s" and run: "table_get (st_runs s) (run_id run) = Some run"
      "run_status run = ReplayRunValidating" "run_isolation run = None"
    and ready: "\<And>s' at. st_capsules s' = st_capsules s \<Longrightarrow> st_events s' = st_events s \<Longrightarrow> replay_ready h pack runner (running at run) s' orc"
  shows "\<exists>i s'. start_run h v pack runner lease run s
    = ((completed (nowRFC3339 (env_now v 7)) orc i (running (nowRFC3339 (env_now v 4)) run), None), s')"
proof -
  let ?r = "running (nowRFC3339 (env_now v 4)) run"
  let ?s1 = "s\<lparr>st_runs := table_put (run_id run) ?r (st_runs s)\<rparr>"
  let ?s2 = "snd (RenewLease (env_cancelled v 5) (civil_instant (env_now v 5)) (run_id run) lease ?s1)"
  have no: "\<not> env_cancelled v n" "civil_ok (env_now v n)" for n using calm by (simp_all add: calm_def)
  from store_ok_get_run [OF ok run(1)] have row: "run_validate run = None" "run_backed s run" by (simp_all add: run_row_def)
  have started: "run_started_at run = []" using row(1) run(2) by (auto simp: run_validate_None_iff run_times_check_def split: if_splits)
  have valid: "run_validate ?r = None"
    using row(1) run(2,3) now_valid [OF no(2), of 4]
    by (auto simp: run_validate_None_iff run_check_defs running_def terminal_status_def validRunStatus_def)
  have r: "run_id ?r = run_id run" "run_status ?r = ReplayRunRunning" "run_isolation ?r = None" "same_identity run ?r"
    using run(3) by (simp_all add: running_def same_identity_def)
  have "stamp (env_now v 4) ReplayRunRunning (run\<lparr>run_status := ReplayRunRunning\<rparr>) = ?r"
    using started by (simp add: stamp_def running_def)
  moreover have "TransitionRun (env_cancelled v 4) ReplayRunValidating ?r s = (None, ?s1)"
    using run valid r no by (simp add: TransitionRun_def)
  ultimately have adv: "AdvanceRun (TransitionRun (env_cancelled v 4)) (env_now v 4) run ReplayRunRunning s = ((?r, None), ?s1)"
    by (simp add: AdvanceRun_def Let_def run(2))
  have ev: "evolves UNIV s ?s2"
    using evolves_trans [OF evolves_mono [OF replay_evolves(1) [of run s "env_cancelled v 4" "env_now v 4" ReplayRunRunning]] evolves_ops(4)] adv
    by simp
  have s2: "st_capsules ?s2 = st_capsules s" "st_events ?s2 = st_events s" "st_runs ?s2 = st_runs ?s1"
    by (auto simp: RenewLease_def)
  from execute_run_completes [OF calm evolves_ok [OF ev ok] _ r(2,3) ready [OF s2(1,2)]] r(1) s2(3)
  obtain i s' where "execute_run h v pack runner ?r ?s2 = ((completed (nowRFC3339 (env_now v 7)) orc i ?r, None), s')" by auto
  with run(2) adv r(1) authorize_backed [OF calm row(2)] show ?thesis by (auto simp: start_run_def)
qed

lemma processRun_completes:
  assumes "reachable s" and "calm v" and run: "table_get (st_runs s) k = Some run" "run_status run = ReplayRunCreated"
      "run_isolation run = None"
    and ready: "replay_ready h pack runner run s orc"
  shows "\<exists>r s'. processRun h v (Some pack) (Some runner) k lease s = ((r, None), s')
    \<and> table_get (st_runs s') k = Some r \<and> run_status r = ReplayRunCompleted \<and> run_oracle r = Some orc
    \<and> run_outcome r = deriveOutcome (run_kind run) (or_matched orc)"
proof -
  note ok = reachable_ok [OF assms(1)]
  let ?r = "run\<lparr>run_status := ReplayRunValidating\<rparr>"
  let ?s = "s\<lparr>st_runs := table_put k ?r (st_runs s), st_leases := table_put k (add_nanos (civil_instant (env_now v 1)) lease) (st_leases s)\<rparr>"
  have no: "\<not> env_cancelled v n" for n using assms(2) by (simp add: calm_def)
  have id: "run_id run = k" using store_ok_get_run [OF ok run(1)] by (simp add: run_row_def)
  have claim: "ClaimRun (env_cancelled v 1) (civil_instant (env_now v 1)) k lease s = (Inr ?r, ?s)"
    using run no by (simp add: ClaimRun_def Let_def)
  have ok1: "store_ok ?s" by (rule evolves_ok [OF evolves_ops(3) [OF claim UNIV_I] ok])
  have "replay_ready h pack runner (running at ?r) s' orc" if "st_capsules s' = st_capsules ?s" "st_events s' = st_events ?s" for s' at
  proof -
    have "effective_plan pack (running at ?r) c = effective_plan pack run c"
        "validateReplaySafety c (running at ?r) plan fs = validateReplaySafety c run plan fs"
        "run_capsule (running at ?r) = run_capsule run" "run_id (running at ?r) = run_id run" for c plan fs
      by (simp_all add: effective_plan_def validateReplaySafety_def running_def split: option.split)
    with ready that show ?thesis by (simp add: replay_ready_def)
  qed
  from start_run_completes [where lease = lease, OF assms(2) ok1 _ _ _ this] id run(3)
  have "\<exists>i s'. start_run h v pack runner lease ?r ?s
      = ((completed (nowRFC3339 (env_now v 7)) orc i (running (nowRFC3339 (env_now v 4)) ?r), None), s')" by simp
  then obtain i s' where st: "start_run h v pack runner lease ?r ?s
      = ((completed (nowRFC3339 (env_now v 7)) orc i (running (nowRFC3339 (env_now v 4)) ?r), None), s')" by (elim exE)
  let ?c = "completed (nowRFC3339 (env_now v 7)) orc i (running (nowRFC3339 (env_now v 4)) ?r)"
  have p: "processRun h v (Some pack) (Some runner) k lease s = ((?c, None), s')"
    using run no claim st by (simp add: processRun_def GetRun_def lookup_row_def isTerminal_def)
  have "\<not> isTerminal (run_status run)" using run(2) by (simp add: isTerminal_def)
  from processRun_drives [OF ok run(1) this, of h pack runner v lease] p id
  have "table_get (st_runs s') k = Some ?c" by (simp add: drives_def driven_def)
  with p show ?thesis by (auto simp: completed_def running_def OutcomeFor_def)
qed

text \<open>A stored capsule is safe to replay as a baseline: the contract of capsules leaves only replay-only parts.\<close>

lemma valid_capsule_safe:
  assumes "capsule_validate c = None" and "run_validate run = None" and "run_kind run = RunTypeBaseline"
  shows "validateReplaySafety c run (cap_plan c) (capsule_fixtures c) = None"
proof -
  have "run_intervention run = None" using run_kind_cases [OF assms(2)] assms(3) by fastforce
  moreover have "replayOnlyPlan (cap_plan c) (capsule_fixtures c)"
    using capsule_valid_parts(6,9) [OF assms(1)] by (auto simp: replayOnlyPlan_def p0_components_def replay_services_def)
  ultimately show ?thesis using capsule_valid_parts(3) [OF assms(1)] assms(3) by (simp add: validateReplaySafety_def)
qed

section \<open>A worker at work\<close>

definition golden_pack :: system_pack where
  "golden_pack = checkout_pack (\<lambda>_. replicate 64 CHR ''b'') [] (\<lambda>_. None) (\<lambda>_. None)"

definition golden_capsule :: replay_capsule where
  "golden_capsule = (case Compile sample_hasher golden_pack Descriptor ready_incident
        [sample_event ''a'' ''2026-01-01T00:00:00Z'' 1] sample_source sample_trigger ''c'' ''g''
        ''2026-01-01T00:00:00Z'' of Inr c \<Rightarrow> c | Inl _ \<Rightarrow> sample_capsule sample_hasher)"

definition golden_runner :: "bool \<Rightarrow> runner" where
  "golden_runner fails cfg = Inr \<lparr>ro_events = map (\<lambda>e. e\<lparr>ev_run := rc_run cfg\<rparr>) golden_events,
     ro_isolation = IsolationFor (rc_namespace cfg) True, ro_teardown = fails\<rparr>"

definition worker_ops :: "store_op list" where
  "worker_ops = [OpPutCapsule False golden_capsule, OpPutRun False (sample_run ''r'')]"

definition worker_store :: store where
  "worker_store = apply_ops worker_ops NewStore"

definition calm_env :: env where
  "calm_env = \<lparr>env_cancelled = (\<lambda>_. False), env_now = (\<lambda>_. sample_now)\<rparr>"

lemma worker_store_reachable: "reachable worker_store"
  unfolding worker_store_def by (rule reachable_apply_ops [OF reachable.start])

lemma golden_compiles: "Compile sample_hasher golden_pack Descriptor ready_incident
        [sample_event ''a'' ''2026-01-01T00:00:00Z'' 1] sample_source sample_trigger ''c'' ''g''
        ''2026-01-01T00:00:00Z'' = Inr golden_capsule"
proof -
  let ?c = "Compile sample_hasher golden_pack Descriptor ready_incident [sample_event ''a'' ''2026-01-01T00:00:00Z'' 1]
      sample_source sample_trigger ''c'' ''g'' ''2026-01-01T00:00:00Z''"
  have "\<not> isl ?c" by code_simp
  then show ?thesis by (cases ?c) (simp_all add: golden_capsule_def)
qed

lemma assembled_id: "cap_id (assemble_capsule pack ref i es source trig k g at fs plan) = k"
  by (simp add: assemble_capsule_def)

lemma golden_sealed: "\<exists>c. golden_capsule = sealed sample_hasher c \<and> cap_id c = ''c''"
  and golden_valid: "capsule_validate golden_capsule = None"
  and golden_pack_accepts: "pk_validate golden_pack golden_capsule = []"
  using golden_compiles assembled_id by (metis Compile_Inr_iff)+

lemma golden_verifies: "VerifyDigest sample_hasher golden_capsule"
  and golden_id: "cap_id golden_capsule = ''c''"
proof -
  obtain c where c: "golden_capsule = sealed sample_hasher c" "cap_id c = ''c''" using golden_sealed by blast
  show "VerifyDigest sample_hasher golden_capsule" unfolding c(1) by (rule sealed_integrity(3) [OF sample_hasher_ok])
  show "cap_id golden_capsule = ''c''" unfolding c(1) using c(2) by simp
qed

lemma golden_tagged_valid: "list_all (\<lambda>e. event_validate (e\<lparr>ev_run := ''r''\<rparr>) = None) golden_events"
  by code_simp

lemma sample_run_valid: "run_validate (sample_run k) = None" if "k = ''r''"
  unfolding that by code_simp

lemma worker_store_eq:
  "worker_store = \<lparr>st_events = [], st_incidents = [], st_graphs = [], st_capsules = [(''c'', golden_capsule)],
     st_runs = [(''r'', sample_run ''r'')], st_diffs = [], st_leases = []\<rparr>"
proof -
  have fields: "run_id (sample_run ''r'') = ''r''" "run_kind (sample_run ''r'') = RunTypeBaseline" by (simp_all add: sample_run_def)
  show ?thesis
    by (simp add: worker_store_def worker_ops_def apply_ops_def NewStore_def PutCapsule_def PutRun_def golden_valid golden_id
        sample_run_valid fields table_put_def table_get_def)
qed

definition golden_verdict :: oracle_result where
  "golden_verdict = (case evaluate (map (\<lambda>e. e\<lparr>ev_run := ''r''\<rparr>) golden_events) of Inr r \<Rightarrow> r | Inl _ \<Rightarrow> sample_oracle True 2)"

lemma golden_evaluate: "evaluate (map (\<lambda>e. e\<lparr>ev_run := ''r''\<rparr>) golden_events) = Inr golden_verdict"
proof -
  have "\<not> isl (evaluate (map (\<lambda>e. e\<lparr>ev_run := ''r''\<rparr>) golden_events))" by code_simp
  then have "\<exists>r. evaluate (map (\<lambda>e. e\<lparr>ev_run := ''r''\<rparr>) golden_events) = Inr r"
    by (cases "evaluate (map (\<lambda>e. e\<lparr>ev_run := ''r''\<rparr>) golden_events)") simp_all
  then show ?thesis by (auto simp: golden_verdict_def)
qed

lemma golden_verdict_valid: "oracle_result_validate golden_verdict = None \<and> or_matched golden_verdict"
  by code_simp

lemma golden_safe: "validateReplaySafety golden_capsule (sample_run ''r'') (cap_plan golden_capsule) (capsule_fixtures golden_capsule) = None"
  using sample_run_valid [OF refl] by (rule valid_capsule_safe [OF golden_valid]) (simp add: sample_run_def)

lemma golden_ids: "distinct (map ev_id golden_events)"
  by code_simp

lemma golden_ready:
  "replay_ready sample_hasher golden_pack (golden_runner False) (sample_run ''r'') worker_store golden_verdict"
proof -
  let ?out = "\<lparr>ro_events = map (\<lambda>e. e\<lparr>ev_run := ''r''\<rparr>) golden_events, ro_isolation = IsolationFor (''replay-run-r'') True,
      ro_teardown = False\<rparr>"
  have plan: "effective_plan golden_pack (sample_run ''r'') golden_capsule = Inr (cap_plan golden_capsule, fixtureLatency golden_capsule)"
    by (simp add: effective_plan_def sample_run_def)
  have iso: "isolation_validate (IsolationFor ''replay-run-r'' True) = None \<and> iso_verdict (IsolationFor ''replay-run-r'' True) = VerdictPass"
    by code_simp
  have pk: "pk_evaluate golden_pack \<lparr>ex_run = r, ex_events = ro_events ?out, ex_graph = zero_graph\<rparr> = Inr golden_verdict" for r
    using golden_evaluate by (simp add: golden_pack_def checkout_pack_def)
  have run: "run_id (sample_run ''r'') = ''r''" "run_capsule (sample_run ''r'') = ''c''" by (simp_all add: sample_run_def)
  have ev: "\<forall>e\<in>set (ro_events ?out). ev_run e = ''r'' \<and> event_validate e = None \<and> table_get (st_events worker_store) (ev_id e) = None"
    using golden_tagged_valid by (auto simp: worker_store_eq list_all_iff table_get_def)
  have ne: "golden_events \<noteq> []" by (simp add: golden_events_def)
  have cap: "table_get (st_capsules worker_store) ''c'' = Some golden_capsule" by (simp add: worker_store_eq table_get_def)
  have ran: "golden_runner False \<lparr>rc_run = ''r'', rc_namespace = ''replay-run-'' @ ''r'', rc_plan = cap_plan golden_capsule,
      rc_fixtures = capsule_fixtures golden_capsule, rc_latency = fixtureLatency golden_capsule\<rparr> = Inr ?out"
    by (simp add: golden_runner_def)
  have ids: "distinct (map ev_id (ro_events ?out))" using golden_ids by (simp add: o_def)
  show ?thesis
    unfolding replay_ready_def run
    using cap golden_verifies golden_pack_accepts plan golden_safe ran iso ids ev pk ne golden_verdict_valid
    by (intro exI [of _ golden_capsule] exI [of _ "cap_plan golden_capsule"] exI [of _ "fixtureLatency golden_capsule"] exI [of _ ?out]) simp
qed

lemma worker_run: "table_get (st_runs worker_store) ''r'' = Some (sample_run ''r'')" "run_status (sample_run ''r'') = ReplayRunCreated"
  "run_isolation (sample_run ''r'') = None" "run_kind (sample_run ''r'') = RunTypeBaseline"
  by (simp_all add: worker_store_eq table_get_def sample_run_def)

lemma calm_env_calm: "calm calm_env"
  by (simp add: calm_def calm_env_def sample_now_ok)

lemma golden_processed:
  "\<exists>r s'. processRun sample_hasher calm_env (Some golden_pack) (Some (golden_runner False)) ''r'' 0 worker_store = ((r, None), s')
    \<and> run_status r = ReplayRunCompleted"
  using processRun_completes [OF worker_store_reachable calm_env_calm worker_run(1,2,3) golden_ready, of 0] by blast

end
