(* ===== verification/WorkerProps.thy ===== *)
theory WorkerProps
  imports WorkerLive
begin

text \<open>
  What the replay worker guarantees: the repository is kept, a completed run is earned, a ready run is completed; and
  the two ways in which a run is lost.
\<close>

section \<open>The poll loop\<close>

lemma fail_orphans_evolves: "run_id ` set runs \<subseteq> ks \<Longrightarrow> evolves ks s (snd (fail_orphans v n runs s))"
proof (induction runs arbitrary: n s)
  case (Cons run runs)
  obtain x s1 where f: "FinalizeOrphan (TransitionRun (env_cancelled v n)) (env_now v n) run s = (x, s1)" by fastforce
  have "evolves ks s s1"
    using evolves_mono [OF replay_evolves(3) [of run s "env_cancelled v n" "env_now v n"]] Cons.prems f by simp
  from evolves_trans [OF this Cons.IH] Cons.prems f show ?case
    by (auto split: prod.split option.split) (metis snd_conv)+
qed simp

lemma process_first_evolves:
  "store_ok s \<Longrightarrow> run_id ` set runs \<subseteq> ks \<Longrightarrow> evolves ks s (snd (process_first h vs n packs runners lease runs s))"
proof (induction runs arbitrary: n s)
  case (Cons run runs)
  obtain r e s1 where p: "processRun h (vs n) packs runners (run_id run) lease s = ((r, e), s1)" by (metis prod.exhaust)
  have ev: "evolves ks s s1"
    using evolves_mono [OF processRun_evolves [OF Cons.prems(1), of "run_id run" h "vs n" packs runners lease]] Cons.prems(2) p by simp
  show ?case
  proof (cases e)
    case None
    with p ev show ?thesis by simp
  next
    case (Some x)
    have "evolves ks s1 (snd (process_first h vs (Suc n) packs runners lease runs s1))"
      using Cons.IH [OF evolves_ok [OF ev Cons.prems(1)]] Cons.prems(2) by simp
    from evolves_trans [OF ev this] p Some show ?thesis by simp
  qed
qed simp

lemma reclaimOrphans_evolves: "evolves UNIV s (snd (reclaimOrphans v s))"
  using fail_orphans_evolves [where ks = UNIV]
  by (auto simp: reclaimOrphans_def split: sum.split prod.split) (metis snd_conv)

lemma poll_round_evolves:
  assumes "store_ok s"
  shows "evolves UNIV s (snd (poll_round h vs packs runners lease s))"
proof -
  let ?s = "snd (reclaimOrphans (vs 0) s)"
  note ev = reclaimOrphans_evolves [of s "vs 0"]
  have "evolves UNIV ?s (snd (process_first h vs 2 packs runners lease runs ?s))" for runs
    by (rule process_first_evolves [OF evolves_ok [OF ev assms]]) simp
  with ev evolves_trans [OF ev] show ?thesis by (auto simp: poll_round_def Let_def split: sum.split)
qed

definition poll_rounds :: "hasher \<Rightarrow> ((nat \<Rightarrow> env) \<times> system_pack option \<times> runner option \<times> int) list \<Rightarrow> store \<Rightarrow> store" where
  "poll_rounds h rounds s = fold (\<lambda>(vs, packs, runners, lease) s. snd (poll_round h vs packs runners lease s)) rounds s"

lemma poll_rounds_evolves: "store_ok s \<Longrightarrow> evolves UNIV s (poll_rounds h rounds s)"
proof (induction rounds arbitrary: s)
  case (Cons x rounds)
  obtain vs packs runners lease where x: "x = (vs, packs, runners, lease)" by (metis prod.exhaust)
  note ev = poll_round_evolves [OF Cons.prems, of h vs packs runners lease]
  from evolves_trans [OF ev Cons.IH [OF evolves_ok [OF ev Cons.prems]]] show ?case by (simp add: poll_rounds_def x)
qed (simp add: poll_rounds_def)


lemma extends_run: "extends s s' \<Longrightarrow> table_get (st_runs s) k = Some r \<Longrightarrow> table_get (st_runs s') k = Some r' \<Longrightarrow> run_later r r'"
  unfolding extends_def by (metis option.inject)

section \<open>What a completed run stands for\<close>

text \<open>C7: a worker that drives a stored run and reports no error has stored the run it returns, in a terminal state.
  When the run is COMPLETED, the worker has earned it: the stored capsule carries its digest and is accepted by the
  pack, the plan is replay-only, the runner tore down and produced events, all tagged with the run and all stored,
  the isolation evidence is safe, and the outcome is the verdict of the pack on those events.\<close>

theorem completed_run_earned:
  assumes "reachable s" and "table_get (st_runs s) k = Some run" and "\<not> isTerminal (run_status run)"
    and "processRun h v (Some pack) (Some runner) k lease s = ((r, None), s')"
  shows "isTerminal (run_status r) \<and> table_get (st_runs s') k = Some r \<and> run_later run r
    \<and> (run_status r = ReplayRunCompleted \<longrightarrow> earned h pack runner r s')"
proof -
  note ok = reachable_ok [OF assms(1)]
  have id: "run_id run = k" using store_ok_get_run [OF ok assms(2)] by (simp add: run_row_def)
  have d: "drives h pack runner run s ((r, None), s')"
    using processRun_drives [OF ok assms(2,3), of h pack runner v lease] assms(4) by simp
  then have r: "isTerminal (run_status r)" "table_get (st_runs s') k = Some r" "run_status r = ReplayRunCompleted \<longrightarrow> earned h pack runner r s'"
      and "evolves {run_id run} s s'"
    by (auto simp: drives_def driven_def id)
  from extends_run [OF evolves_extends [OF this(4) ok] assms(2) r(2)] have "run_later run r" .
  with r show ?thesis by simp
qed

text \<open>C37: nothing stands in the way of a replay. In a reachable store, when no call is cancelled, a CREATED run whose
  capsule is stored with its digest, accepted by the pack and safe, whose runner delivers fresh valid events tagged
  with the run and passing isolation evidence, and whose events the pack can judge, is driven to COMPLETED, with
  the outcome that follows from the verdict, and is stored so. A what-if run needs no further condition: its baseline
  was checked when it was stored.\<close>

theorem replay_completes:
  assumes "reachable s" and "calm v" and run: "table_get (st_runs s) k = Some run" "run_status run = ReplayRunCreated"
      "run_isolation run = None"
    and ready: "replay_ready h pack runner run s orc"
  shows "\<exists>r s'. processRun h v (Some pack) (Some runner) k lease s = ((r, None), s')
    \<and> table_get (st_runs s') k = Some r \<and> run_status r = ReplayRunCompleted \<and> run_oracle r = Some orc
    \<and> run_outcome r = deriveOutcome (run_kind run) (or_matched orc)"
  by (rule processRun_completes [OF assms])

theorem replay_completes_witness:
  "\<exists>r s'. processRun sample_hasher calm_env (Some golden_pack) (Some (golden_runner False)) ''r'' 0 worker_store = ((r, None), s')
    \<and> table_get (st_runs s') ''r'' = Some r \<and> run_status r = ReplayRunCompleted \<and> run_outcome r = ReplayOutcomeReproduced"
  using replay_completes [OF worker_store_reachable calm_env_calm worker_run(1,2,3) golden_ready, of 0] worker_run(4) golden_verdict_valid
  by (auto simp: deriveOutcome_def)

theorem completed_run_earned_witness:
  "\<exists>r s'. processRun sample_hasher calm_env (Some golden_pack) (Some (golden_runner False)) ''r'' 0 worker_store = ((r, None), s')
    \<and> earned sample_hasher golden_pack (golden_runner False) r s'"
proof -
  from golden_processed obtain r s' where r: "processRun sample_hasher calm_env (Some golden_pack) (Some (golden_runner False)) ''r'' 0 worker_store = ((r, None), s')"
      "run_status r = ReplayRunCompleted" by blast
  with completed_run_earned [OF worker_store_reachable worker_run(1) _ r(1)] worker_run(2) show ?thesis by (auto simp: isTerminal_def)
qed

section \<open>Runs that are lost\<close>

lemma orphan_validating:
  assumes "run_validate run = None" and "run_status run = ReplayRunValidating"
  shows "\<exists>e. FinalizeOrphan transition now run s = ((run, Some (ReplayInvalid e)), s)"
proof -
  have "run_started_at run = []"
    using assms by (auto simp: run_validate_None_iff run_times_check_def split: if_splits)
  then have "run_times_check (run\<lparr>run_status := ReplayRunFailed, run_outcome := NoOutcome, run_error_field := Some (orphan_error run),
            run_completed_at := or_now (run_completed_at run) now\<rparr>) \<noteq> None"
    by (simp add: run_times_check_def)
  then have "run_validate (run\<lparr>run_status := ReplayRunFailed, run_outcome := NoOutcome, run_error_field := Some (orphan_error run),
            run_completed_at := or_now (run_completed_at run) now\<rparr>) \<noteq> None"
    by (simp only: run_validate_None_iff) blast
  then show ?thesis by (auto simp: FinalizeOrphan_def Let_def split: option.split)
qed

lemma fail_orphans_validating:
  assumes "run_status r = ReplayRunValidating" and "run_validate r = None"
  shows "table_get (st_runs s) k = Some r \<Longrightarrow> \<forall>x\<in>set runs. run_id x = k \<longrightarrow> x = r
    \<Longrightarrow> table_get (st_runs (snd (fail_orphans v n runs s))) k = Some r"
proof (induction runs arbitrary: n s)
  case (Cons run runs)
  obtain y e s1 where f: "FinalizeOrphan (TransitionRun (env_cancelled v n)) (env_now v n) run s = ((y, e), s1)" by (metis prod.exhaust)
  have "table_get (st_runs s1) k = Some r"
  proof (cases "run_id run = k")
    case True
    with Cons.prems(2) have "run = r" by simp
    with orphan_validating [OF assms(2,1), of "TransitionRun (env_cancelled v n)" "env_now v n" s] f Cons.prems(1) show ?thesis by auto
  next
    case False
    with evolves_frame [OF replay_evolves(3) [of run s "env_cancelled v n" "env_now v n"], of k] f Cons.prems(1) show ?thesis by simp
  qed
  then have "table_get (st_runs (snd (fail_orphans v (Suc n) runs s1))) k = Some r" using Cons by simp
  with f show ?case by (cases e; cases "fail_orphans v (Suc n) runs s1") simp_all
qed simp


lemma poll_round_validating:
  assumes ok: "store_ok s" and r: "table_get (st_runs s) k = Some r" "run_status r = ReplayRunValidating"
  shows "table_get (st_runs (snd (poll_round h vs packs runners lease s))) k = Some r"
proof -
  let ?s = "snd (reclaimOrphans (vs 0) s)"
  note ok1 = evolves_ok [OF reclaimOrphans_evolves ok]
  have keep: "table_get (st_runs ?s) k = Some r"
  proof (cases "ReclaimExpiredRuns (env_cancelled (vs 0) 0) (civil_instant (env_now (vs 0) 0)) s")
    case (Inr expired)
    have "run_validate r = None" using store_ok_get_run [OF ok r(1)] by (simp add: run_row_def)
    moreover have "\<forall>x\<in>set expired. run_id x = k \<longrightarrow> x = r"
    proof (intro ballI impI)
      fix x
      assume x: "x \<in> set expired" "run_id x = k"
      with Inr have "x \<in> set (table_rows (st_runs s))"
        by (auto simp: ReclaimExpiredRuns_def table_rows_def split: if_splits)
      then obtain j where "table_get (st_runs s) j = Some x" "run_row s j x"
        using ok tab.all_entries_rows [of "run_row s" "st_runs s" x] by (auto simp: store_ok_def)
      with x(2) r(1) show "x = r" by (simp add: run_row_def)
    qed
    ultimately show ?thesis
      using fail_orphans_validating [OF r(2) _ r(1), of expired "vs 0" 1] Inr
      by (simp add: reclaimOrphans_def split: prod.split) (metis snd_conv)
  qed (use r in \<open>simp add: reclaimOrphans_def\<close>)
  show ?thesis
  proof (cases "ListRuns (env_cancelled (vs 1) 0) ReplayRunCreated ?s")
    case (Inl e)
    with keep show ?thesis by (simp add: poll_round_def Let_def)
  next
    case (Inr runs)
    have "run_id x \<noteq> k" if x: "x \<in> set runs" for x
    proof -
      from x Inr have "x \<in> set (table_rows (st_runs ?s))" "run_status x = ReplayRunCreated"
        by (auto simp: ListRuns_def split: if_splits)
      then obtain j where "table_get (st_runs ?s) j = Some x" "run_row ?s j x"
        using ok1 tab.all_entries_rows [of "run_row ?s" "st_runs ?s" x] by (auto simp: store_ok_def)
      with keep r(2) \<open>run_status x = ReplayRunCreated\<close> show ?thesis by (auto simp: run_row_def)
    qed
    then have "k \<notin> run_id ` set runs" by blast
    with evolves_frame [OF process_first_evolves [OF ok1 subset_refl]] keep Inr show ?thesis
      by (simp add: poll_round_def Let_def)
  qed
qed


text \<open>C39: a RUNNING run whose replay is found unsafe, or whose teardown fails, cannot be recorded as BLOCKED: a blocked
  run with such an error needs isolation evidence, and the worker attaches none. The contract check refuses the
  target, and the stored run stays RUNNING.\<close>

theorem unsafe_replay_not_recorded:
  assumes "run_isolation run = None" and "e = ErrTeardown \<or> (\<exists>m. e = ErrUnsafeReplay m)"
  shows "\<exists>x. finalizeExecuteError v run e s = ((run, Some (FinalizeInvalid x)), s)"
proof -
  have "\<exists>x. finalizeTerminal v run ReplayRunBlocked code m s = ((run, Some (FinalizeInvalid x)), s)"
    if "code = IsolationViolation \<or> code = DestinationBlocked" for code m
  proof -
    let ?t = "run\<lparr>run_status := ReplayRunBlocked, run_outcome := NoOutcome,
            run_error_field := Some \<lparr>err_code = code, err_message = m, err_retryable = False,
              err_details = run_details run\<rparr>,
            run_completed_at := nowRFC3339 (env_now v 21)\<rparr>"
    have "run_error_check ?t \<noteq> None" using that assms(1) by (simp add: run_error_check_def)
    then have "run_validate ?t \<noteq> None" by (simp only: run_validate_None_iff) blast
    then show ?thesis by (auto simp: finalizeTerminal_def Let_def split: option.split)
  qed
  with assms(2) show ?thesis by (auto simp: finalizeExecuteError_def finalizeBlocked_def)
qed


definition stranded_store :: store where
  "stranded_store = apply_ops [OpClaim False zero_time ''r'' 1] worker_store"


theorem unsafe_replay_not_recorded_witness:
  "\<exists>x. finalizeExecuteError calm_env (running (nowRFC3339 sample_now) (sample_run ''r'')) ErrTeardown worker_store
    = ((running (nowRFC3339 sample_now) (sample_run ''r''), Some (FinalizeInvalid x)), worker_store)"
  by (rule unsafe_replay_not_recorded) (simp_all add: running_def sample_run_def)

end
