(* ===== verification/StoreRefine.thy ===== *)
theory StoreRefine
  imports StoreProps
begin

text \<open>
  An abstract repository: one map per kind of record, to which records are added, and runs that move along their
  life cycle. The in-memory repository, with its tables, checks and leases, refines it.
\<close>

section \<open>The abstract repository\<close>

record repository =
  rp_events :: "string \<rightharpoonup> execution_event"
  rp_incidents :: "string \<rightharpoonup> incident"
  rp_graphs :: "string \<rightharpoonup> execution_graph"
  rp_capsules :: "string \<rightharpoonup> replay_capsule"
  rp_runs :: "string \<rightharpoonup> replay_run"
  rp_diffs :: "string \<rightharpoonup> replay_diff"

definition empty_repository :: repository where
  "empty_repository = \<lparr>rp_events = Map.empty, rp_incidents = Map.empty, rp_graphs = Map.empty,
     rp_capsules = Map.empty, rp_runs = Map.empty, rp_diffs = Map.empty\<rparr>"

text \<open>The baseline of a what-if run is a completed, reproduced run on the same capsule.\<close>

definition baseline_known :: "repository \<Rightarrow> replay_run \<Rightarrow> bool" where
  "baseline_known a r \<longleftrightarrow> (run_kind r = RunTypeWhatIf \<longrightarrow> (\<exists>b. rp_runs a (run_baseline r) = Some b \<and> eligible_baseline b r))"

inductive repo_step :: "repository \<Rightarrow> repository \<Rightarrow> bool" where
  event: "event_validate e = None \<Longrightarrow> rp_events a (ev_id e) = None
    \<Longrightarrow> repo_step a (a\<lparr>rp_events := (rp_events a)(ev_id e \<mapsto> e)\<rparr>)"
| incident: "incident_validate i = None \<Longrightarrow> graph_validate g = None \<Longrightarrow> inc_graph i = graph_id g \<Longrightarrow> graph_incident g = inc_id i
    \<Longrightarrow> rp_incidents a (inc_id i) = None \<Longrightarrow> rp_graphs a (graph_id g) = None
    \<Longrightarrow> repo_step a (a\<lparr>rp_incidents := (rp_incidents a)(inc_id i \<mapsto> i), rp_graphs := (rp_graphs a)(graph_id g \<mapsto> g)\<rparr>)"
| capsule: "capsule_validate c = None \<Longrightarrow> rp_capsules a (cap_id c) = None
    \<Longrightarrow> repo_step a (a\<lparr>rp_capsules := (rp_capsules a)(cap_id c \<mapsto> c)\<rparr>)"
| diff: "diff_validate d = None \<Longrightarrow> rp_diffs a (diff_id d) = None
    \<Longrightarrow> repo_step a (a\<lparr>rp_diffs := (rp_diffs a)(diff_id d \<mapsto> d)\<rparr>)"
| create: "run_validate r = None \<Longrightarrow> rp_runs a (run_id r) = None \<Longrightarrow> baseline_known a r
    \<Longrightarrow> repo_step a (a\<lparr>rp_runs := (rp_runs a)(run_id r \<mapsto> r)\<rparr>)"
| advance: "rp_runs a (run_id r) = Some r0 \<Longrightarrow> CanTransitionReplayRun (run_status r0) (run_status r) \<Longrightarrow> same_identity r0 r
    \<Longrightarrow> run_validate r = None \<Longrightarrow> repo_step a (a\<lparr>rp_runs := (rp_runs a)(run_id r \<mapsto> r)\<rparr>)"
| clear: "repo_step a empty_repository"

definition abs_store :: "store \<Rightarrow> repository" where
  "abs_store s = \<lparr>rp_events = table_get (st_events s), rp_incidents = table_get (st_incidents s),
     rp_graphs = table_get (st_graphs s), rp_capsules = table_get (st_capsules s), rp_runs = table_get (st_runs s),
     rp_diffs = table_get (st_diffs s)\<rparr>"

lemma get_put: "table_get (table_put k v t) = (table_get t)(k \<mapsto> v)"
  by (simp add: fun_eq_iff)

lemma get_Nil: "table_get [] = Map.empty"
  by (simp add: fun_eq_iff)

lemmas abs_simps = abs_store_def get_put baseline_known_def run_backed_def

lemma refine_records:
  "abs_store (snd (IngestEvent c e s)) = abs_store s \<or> repo_step (abs_store s) (abs_store (snd (IngestEvent c e s)))"
  "abs_store (snd (PutIncident c i g s)) = abs_store s \<or> repo_step (abs_store s) (abs_store (snd (PutIncident c i g s)))"
  "abs_store (snd (PutCapsule c p s)) = abs_store s \<or> repo_step (abs_store s) (abs_store (snd (PutCapsule c p s)))"
  "abs_store (snd (PutDiff c d s)) = abs_store s \<or> repo_step (abs_store s) (abs_store (snd (PutDiff c d s)))"
proof -
  show "abs_store (snd (IngestEvent c e s)) = abs_store s \<or> repo_step (abs_store s) (abs_store (snd (IngestEvent c e s)))"
    using IngestEvent_cases [of c e s] repo_step.event [of e "abs_store s"] by (auto simp: abs_simps)
  show "abs_store (snd (PutIncident c i g s)) = abs_store s \<or> repo_step (abs_store s) (abs_store (snd (PutIncident c i g s)))"
    using PutIncident_cases [of c i g s] repo_step.incident [of i g "abs_store s"] by (auto simp: abs_simps)
  show "abs_store (snd (PutCapsule c p s)) = abs_store s \<or> repo_step (abs_store s) (abs_store (snd (PutCapsule c p s)))"
    using PutCapsule_cases [of c p s] repo_step.capsule [of p "abs_store s"] by (auto simp: abs_simps)
  show "abs_store (snd (PutDiff c d s)) = abs_store s \<or> repo_step (abs_store s) (abs_store (snd (PutDiff c d s)))"
    using PutDiff_cases [of c d s] repo_step.diff [of d "abs_store s"] by (auto simp: abs_simps)
qed

lemma refine_runs:
  assumes ok: "store_ok s"
  shows "abs_store (snd (PutRun c r s)) = abs_store s \<or> repo_step (abs_store s) (abs_store (snd (PutRun c r s)))"
    and "abs_store (snd (TransitionRun c st r s)) = abs_store s \<or> repo_step (abs_store s) (abs_store (snd (TransitionRun c st r s)))"
    and "abs_store (snd (ClaimRun c now k l s)) = abs_store s \<or> repo_step (abs_store s) (abs_store (snd (ClaimRun c now k l s)))"
    and "abs_store (snd (RenewLease c now k l s)) = abs_store s"
    and "abs_store (snd (Reset c s)) = abs_store s \<or> repo_step (abs_store s) (abs_store (snd (Reset c s)))"
proof -
  show "abs_store (snd (PutRun c r s)) = abs_store s \<or> repo_step (abs_store s) (abs_store (snd (PutRun c r s)))"
    using PutRun_cases [of c r s] repo_step.create [of r "abs_store s"] by (auto simp: abs_simps)
  show "abs_store (snd (TransitionRun c st r s)) = abs_store s \<or> repo_step (abs_store s) (abs_store (snd (TransitionRun c st r s)))"
    using TransitionRun_cases [of c st r s] repo_step.advance [of "abs_store s" r] by (auto simp: abs_simps)
  show "abs_store (snd (ClaimRun c now k l s)) = abs_store s \<or> repo_step (abs_store s) (abs_store (snd (ClaimRun c now k l s)))"
    using ClaimRun_cases [of c now k l s]
  proof (elim disjE exE conjE)
    fix r :: replay_run
    let ?r = "r\<lparr>run_status := ReplayRunValidating\<rparr>"
    assume r: "table_get (st_runs s) k = Some r" "run_status r = ReplayRunCreated"
      and step: "ClaimRun c now k l s = (Inr ?r, s\<lparr>st_runs := table_put k ?r (st_runs s),
          st_leases := table_put k (add_nanos now l) (st_leases s)\<rparr>)"
    have "run_id r = k" "run_validate r = None" using store_ok_get_run [OF ok r(1)] by (simp_all add: run_row_def)
    then have "repo_step (abs_store s) (abs_store s\<lparr>rp_runs := (rp_runs (abs_store s))(k \<mapsto> ?r)\<rparr>)"
      using repo_step.advance [of "abs_store s" ?r r] r claimed_valid [of r]
      by (simp add: abs_store_def same_identity_def)
    with step show ?thesis by (simp add: abs_store_def get_put)
  qed simp
  show "abs_store (snd (RenewLease c now k l s)) = abs_store s"
    using RenewLease_cases [of c now k l s] by (auto simp: abs_store_def)
  show "abs_store (snd (Reset c s)) = abs_store s \<or> repo_step (abs_store s) (abs_store (snd (Reset c s)))"
    using repo_step.clear [of "abs_store s"] by (cases c) (simp_all add: Reset_def abs_store_def empty_repository_def get_Nil)
qed

text \<open>C20: the in-memory repository implements the abstract one. It starts empty, and from every reachable store each
  operation either leaves the maps alone (an error, or a renewed lease) or performs one step of the abstract
  repository: it adds one valid record under a new id, creates a run whose baseline is known, or moves one run one
  step along its life cycle with its identity kept, or clears everything.\<close>

theorem store_refines_repository:
  assumes "reachable s"
  shows "abs_store NewStore = empty_repository
    \<and> (abs_store (apply_op op s) = abs_store s \<or> repo_step (abs_store s) (abs_store (apply_op op s)))"
proof -
  note ok = reachable_ok [OF assms]
  have "abs_store (apply_op op s) = abs_store s \<or> repo_step (abs_store s) (abs_store (apply_op op s))"
    by (cases op) (simp_all only: apply_op.simps refine_records refine_runs [OF ok] simp_thms)
  then show ?thesis by (simp add: abs_store_def NewStore_def empty_repository_def get_Nil)
qed

theorem store_refines_repository_witness:
  "repo_step (abs_store sample_store) (abs_store (apply_op (OpClaim False zero_time ''r'' 1) sample_store))"
proof -
  have st: "run_status (the (table_get (st_runs (apply_op (OpClaim False zero_time ''r'' 1) sample_store)) ''r'')) = ReplayRunValidating"
      "run_status (the (table_get (st_runs sample_store) ''r'')) = ReplayRunCreated"
    by code_simp+
  have "abs_store (apply_op (OpClaim False zero_time ''r'' 1) sample_store) \<noteq> abs_store sample_store"
  proof
    assume "abs_store (apply_op (OpClaim False zero_time ''r'' 1) sample_store) = abs_store sample_store"
    then have "table_get (st_runs (apply_op (OpClaim False zero_time ''r'' 1) sample_store)) = table_get (st_runs sample_store)"
      by (simp add: abs_store_def)
    with st show False by (metis replay_run_status.distinct(1))
  qed
  with store_refines_repository [OF sample_reachable, of "OpClaim False zero_time ''r'' 1"] show ?thesis by blast
qed

end
