(* ===== verification/CoreApi.thy ===== *)
theory CoreApi
  imports Capsule Replay "HOL-Library.Word"
begin

text \<open>
  cmd/core-api: the HTTP routes (main.go) and the detection of incidents (detect.go), over the in-memory
  repository. A request is a method, a clean path, the query and the body; JSON decoding with
  \<open>contracts.DecodeStrict\<close> and the cursor codec are parameters, and a response is a status with the value that is
  encoded. A handler that panics answers nothing (\<open>None\<close>).
\<close>

section \<open>Detecting incidents (detect.go)\<close>

datatype detect_error =
    DetectLoad store_error
  | DetectOracle string
  | DetectGraph graph_error
  | DetectPersist store_error
  | DetectPanic

text \<open>The incident and the graph of an execution whose oracle matched; the events are not empty.\<close>

definition detected_incident :: "system_pack \<Rightarrow> civil \<Rightarrow> string \<Rightarrow> execution_event list \<Rightarrow> oracle_result \<Rightarrow> incident" where
  "detected_incident pack now x es orc =
     \<lparr>inc_schema = ContractVersion, inc_id = ''inc-'' @ x, inc_status = IncidentReady, inc_block_reason = None,
       inc_oracle = or_oracle orc, inc_pack = pk_descriptor pack, inc_trace = ev_trace (hd es),
       inc_execution = x, inc_detected_at = nowRFC3339 now, inc_summary = or_explanation orc,
       inc_evidence = elems (or_evidence orc), inc_graph = ''graph-'' @ x, inc_sanitization = SanitizationPass\<rparr>"

definition detected_graph :: "string \<Rightarrow> graph_node list \<Rightarrow> graph_edge list \<Rightarrow> execution_graph" where
  "detected_graph x ns edges =
     \<lparr>graph_schema = ContractVersion, graph_id = ''graph-'' @ x, graph_incident = ''inc-'' @ x,
       graph_policy = ContractVersion, graph_nodes = ns, graph_edges = edges\<rparr>"

text \<open>Sites: 1 loads the execution, 2 stores the incident.\<close>

definition detectAndPersistIncident :: "env \<Rightarrow> (nat \<Rightarrow> degrees \<Rightarrow> degrees) \<Rightarrow> system_pack option \<Rightarrow> string \<Rightarrow> store
    \<Rightarrow> detect_error option \<times> store" where
  "detectAndPersistIncident v ord packs x s =
     (case packs of None \<Rightarrow> (None, s)
      | Some pack \<Rightarrow>
     (case EventsForExecution (env_cancelled v 1) x s of
        Inl e \<Rightarrow> (Some (DetectLoad e), s)
      | Inr es \<Rightarrow>
        if es = [] then (None, s)
        else case pk_detect pack es of
            Inl PackPanic \<Rightarrow> (Some DetectPanic, s)
          | Inl (PackError m) \<Rightarrow> (Some (DetectOracle m), s)
          | Inr orc \<Rightarrow>
            if \<not> or_matched orc then (None, s)
            else (let edges = parentChildEdges es
              in case BuildNodes ord es edges of
                Inl e \<Rightarrow> (Some (DetectGraph e), s)
              | Inr ns \<Rightarrow>
                (case PutIncident (env_cancelled v 2) (detected_incident pack (env_now v 2) x es orc)
                        (detected_graph x ns edges) s of
                   (None, s') \<Rightarrow> (None, s')
                 | (Some ErrConflict, s') \<Rightarrow> (None, s')
                 | (Some e, s') \<Rightarrow> (Some (DetectPersist e), s')))))"

section \<open>Requests and responses\<close>

record decoders =
  dec_event :: "string \<Rightarrow> execution_event option"
  dec_create_run :: "string \<Rightarrow> create_run_request option"
  dec_create_diff :: "string \<Rightarrow> create_diff_request option"
  dec_reset :: "string \<Rightarrow> string option"

record api_deps =
  dp_pack :: "system_pack option"
  dp_hasher :: hasher
  dp_decoders :: decoders
  dp_marshal :: "cursor \<Rightarrow> string"
  dp_unmarshal :: "string \<Rightarrow> cursor option"
  dp_visit :: "nat \<Rightarrow> degrees \<Rightarrow> degrees"

record api_request =
  rq_method :: string
  rq_path :: string
  rq_query :: "(string \<times> string list) list"
  rq_body :: string

datatype api_body =
    BodyAccepted string
  | BodyIncidents "incident list" string
  | BodyDetail incident execution_graph "execution_event list"
  | BodyCapsule replay_capsule
  | BodyRun replay_run
  | BodyDiff replay_diff
  | BodyReset reset_result
  | BodyError error_code string
  | BodyText string

type_synonym response = "(int \<times> api_body) option"

text \<open>The process: its repository and the counter of \<open>nextID\<close>.\<close>

record api =
  ap_store :: store
  ap_counter :: "64 word"

definition nextID :: "string \<Rightarrow> api \<Rightarrow> string \<times> api" where
  "nextID prefix a =
     (let n = ap_counter a + 1 in (prefix @ int_dec (sint n), a\<lparr>ap_counter := n\<rparr>))"

definition writeContractError :: "int \<Rightarrow> error_code \<Rightarrow> string \<Rightarrow> response" where
  "writeContractError status code m = Some (status, BodyError code m)"

definition writeNotFound :: response where
  "writeNotFound = writeContractError 404 SchemaInvalid ''resource not found''"

definition bad_request :: response where
  "bad_request = writeContractError 400 SchemaInvalid ''request does not match the contract''"

definition writeMappedError :: "store_error \<Rightarrow> error_code \<Rightarrow> response" where
  "writeMappedError e safetyCode =
     (if e = ErrInvalidLifecycle then writeContractError 409 SchemaInvalid ''invalid lifecycle transition''
      else if safetyCode = SanitizationFailed \<or> safetyCode = IsolationViolation \<or> safetyCode = DestinationBlocked
      then writeContractError 422 safetyCode ''request blocked by safety policy''
      else if e = ErrNotFound then writeContractError 404 SchemaInvalid ''resource not found''
      else if e = ErrConflict then writeContractError 400 SchemaInvalid ''request does not match the contract''
      else writeContractError 500 InternalFailure ''internal failure'')"

abbreviation no_code :: error_code where
  "no_code \<equiv> UnknownErrorCode []"

definition writeCapsuleError :: "capsule_error \<Rightarrow> response" where
  "writeCapsuleError e =
     (case e of
        ErrNotReady \<Rightarrow> writeContractError 400 SchemaInvalid ''incident is not READY''
      | ErrIntegrityMismatch \<Rightarrow> writeContractError 422 IntegrityMismatch ''replay capsule integrity mismatch''
      | ErrPackRejects _ \<Rightarrow> writeContractError 422 SanitizationFailed ''replay capsule failed pack validation''
      | ErrExtract PackPanic \<Rightarrow> None
      | ErrPlan PackPanic \<Rightarrow> None
      | _ \<Rightarrow> writeContractError 500 InternalFailure ''replay capsule could not be compiled'')"

section \<open>Queries\<close>

text \<open>\<open>strconv.Atoi\<close> on 64 bits.\<close>

definition atoi :: "string \<Rightarrow> int option" where
  "atoi s =
     (let (neg, ds) = (case s of [] \<Rightarrow> (False, []) | c # cs \<Rightarrow>
            if c = CHR ''-'' then (True, cs) else if c = CHR ''+'' then (False, cs) else (False, s));
          n = (if neg then - digits_value 0 ds else digits_value 0 ds)
      in if ds \<noteq> [] \<and> list_all is_digit ds \<and> - (2 ^ 63) \<le> n \<and> n < 2 ^ 63 then Some n else None)"

definition incident_status_of :: "string \<Rightarrow> incident_status" where
  "incident_status_of s =
     (if s = ''DETECTED'' then IncidentDetected else if s = ''READY'' then IncidentReady
      else if s = ''BLOCKED'' then IncidentBlocked else UnknownIncidentStatus s)"

text \<open>\<open>url.Values.Get\<close>: the first value, or the empty string.\<close>

definition query_get :: "(string \<times> string list) list \<Rightarrow> string \<Rightarrow> string" where
  "query_get q k = (case map_of q k of Some (x # _) \<Rightarrow> x | _ \<Rightarrow> [])"

definition incidentListQuery :: "(string \<times> string list) list \<Rightarrow> incident_query option" where
  "incidentListQuery q =
     (let status = query_get q ''status''; raw = query_get q ''limit'';
          base = \<lparr>iq_status = incident_status_of status, iq_limit = None, iq_cursor = query_get q ''cursor''\<rparr>
      in if list_ex (\<lambda>(k, vs). k \<notin> {''status'', ''cursor'', ''limit''} \<or> length vs \<noteq> 1) q then None
      else if status \<noteq> [] \<and> incident_status_of status = UnknownIncidentStatus status then None
      else if raw = [] then Some base
      else (case atoi raw of None \<Rightarrow> None
            | Some n \<Rightarrow> if n < 1 \<or> 100 < n then None else Some (base\<lparr>iq_limit := Some n\<rparr>)))"

section \<open>Handlers\<close>

text \<open>Sites: 0 is the first repository call of a handler; 1 and 2 are taken by the detection.\<close>

definition postEvent :: "env \<Rightarrow> api_deps \<Rightarrow> string \<Rightarrow> api \<Rightarrow> response \<times> api" where
  "postEvent v d body a =
     (case dec_event (dp_decoders d) body of
        None \<Rightarrow> (bad_request, a)
      | Some event \<Rightarrow>
        (case IngestEvent (env_cancelled v 0) event (ap_store a) of
           (Some ErrConflict, s') \<Rightarrow> (bad_request, a\<lparr>ap_store := s'\<rparr>)
         | (Some (ErrContract _), s') \<Rightarrow> (bad_request, a\<lparr>ap_store := s'\<rparr>)
         | (Some e, s') \<Rightarrow> (writeMappedError e no_code, a\<lparr>ap_store := s'\<rparr>)
         | (None, s') \<Rightarrow>
           (case detectAndPersistIncident v (dp_visit d) (dp_pack d) (ev_execution event) s' of
              (Some DetectPanic, s'') \<Rightarrow> (None, a\<lparr>ap_store := s''\<rparr>)
            | (_, s'') \<Rightarrow> (Some (202, BodyAccepted (ev_id event)), a\<lparr>ap_store := s''\<rparr>))))"

definition getIncidents :: "env \<Rightarrow> api_deps \<Rightarrow> (string \<times> string list) list \<Rightarrow> api \<Rightarrow> response" where
  "getIncidents v d q a =
     (case incidentListQuery q of None \<Rightarrow> bad_request
      | Some query \<Rightarrow>
        (case ListIncidents (dp_marshal d) (dp_unmarshal d) (env_cancelled v 0) query (ap_store a) of
           Inl e \<Rightarrow> writeMappedError e no_code
         | Inr (items, cursor) \<Rightarrow> Some (200, BodyIncidents items cursor)))"

definition getIncident :: "env \<Rightarrow> string \<Rightarrow> api \<Rightarrow> response" where
  "getIncident v k a =
     (case GetIncidentDetail (env_cancelled v 0) k (ap_store a) of
        Inl e \<Rightarrow> writeMappedError e no_code
      | Inr (i, g, es) \<Rightarrow> Some (200, BodyDetail i g es))"

definition capsule_source_of :: "incident \<Rightarrow> capsule_source" where
  "capsule_source_of i = \<lparr>src_incident = inc_id i, src_trace = inc_trace i, src_execution = inc_execution i,
     src_environment = CaptureDemo, src_captured_at = inc_detected_at i\<rparr>"

definition postCapsule :: "env \<Rightarrow> api_deps \<Rightarrow> string \<Rightarrow> api \<Rightarrow> response \<times> api" where
  "postCapsule v d incidentID a =
     (case dp_pack d of
        None \<Rightarrow> (writeContractError 422 PackUnavailable ''replay capsule requires a System Pack'', a)
      | Some pack \<Rightarrow>
        (case GetIncidentDetail (env_cancelled v 0) incidentID (ap_store a) of
           Inl e \<Rightarrow> (writeMappedError e no_code, a)
         | Inr (i, _, es) \<Rightarrow>
           (let capsuleID = ''cap-'' @ incidentID @ ''-1''
            in case GetCapsule (env_cancelled v 1) capsuleID (ap_store a) of
                Inr existing \<Rightarrow> (Some (201, BodyCapsule existing), a)
              | Inl _ \<Rightarrow>
                (case Compile (dp_hasher d) pack (inc_pack i) i es (capsule_source_of i)
                        \<lparr>trig_request = Some [], trig_headers = Some []\<rparr> capsuleID (inc_graph i)
                        (nowRFC3339 (env_now v 1)) of
                   Inl e \<Rightarrow> (writeCapsuleError e, a)
                 | Inr c \<Rightarrow>
                   (case PutCapsule (env_cancelled v 2) c (ap_store a) of
                      (Some e, s') \<Rightarrow> (writeMappedError e no_code, a\<lparr>ap_store := s'\<rparr>)
                    | (None, s') \<Rightarrow> (Some (201, BodyCapsule c), a\<lparr>ap_store := s'\<rparr>))))))"

definition postRun :: "env \<Rightarrow> api_deps \<Rightarrow> string \<Rightarrow> string \<Rightarrow> api \<Rightarrow> response \<times> api" where
  "postRun v d capsuleID body a =
     (case dec_create_run (dp_decoders d) body of
        None \<Rightarrow> (bad_request, a)
      | Some request \<Rightarrow>
        if create_run_validate request \<noteq> None then (bad_request, a)
        else (case GetCapsule (env_cancelled v 0) capsuleID (ap_store a) of
           Inl e \<Rightarrow> (writeMappedError e no_code, a)
         | Inr c \<Rightarrow>
           (case nextID ''run-'' a of (runID, a') \<Rightarrow>
             (case NewRun runID (''exec-replay-'' @ runID) (cap_id c) (int_digest (cap_integrity c))
                     (crr_type request) (crr_baseline request) (crr_intervention request) 1 of
                (_, Some _) \<Rightarrow> (bad_request, a')
              | (run, None) \<Rightarrow>
                (case PutRun (env_cancelled v 1) run (ap_store a') of
                   (Some e, s') \<Rightarrow> (writeMappedError e no_code, a'\<lparr>ap_store := s'\<rparr>)
                 | (None, s') \<Rightarrow> (Some (202, BodyRun run), a'\<lparr>ap_store := s'\<rparr>))))))"

text \<open>What \<open>differential.Build\<close> reads; each of the three queries has a site.\<close>

definition request_source :: "env \<Rightarrow> (nat \<Rightarrow> degrees \<Rightarrow> degrees) \<Rightarrow> store \<Rightarrow> diff_source" where
  "request_source v ord s = \<lparr>src_run = (\<lambda>k. GetRun (env_cancelled v 1) k s),
     src_events = (\<lambda>r. EventsForRun (env_cancelled v 2) r s),
     src_graph = (\<lambda>r. GraphsForRun ord (env_cancelled v 3) r s)\<rparr>"

definition writeDiffError :: "diff_error \<Rightarrow> response" where
  "writeDiffError e =
     (case e of
        Prerequisites _ \<Rightarrow> writeContractError 409 SchemaInvalid ''replay diff prerequisites not met''
      | DiffStore x \<Rightarrow> writeMappedError x no_code
      | NilPointer \<Rightarrow> None
      | DiffPack PackPanic \<Rightarrow> None
      | _ \<Rightarrow> writeMappedError ErrInternal no_code)"

definition postDiff :: "env \<Rightarrow> api_deps \<Rightarrow> string \<Rightarrow> api \<Rightarrow> response \<times> api" where
  "postDiff v d body a =
     (case dec_create_diff (dp_decoders d) body of
        None \<Rightarrow> (bad_request, a)
      | Some request \<Rightarrow>
        if create_diff_validate request \<noteq> None then (bad_request, a)
        else (case dp_pack d of
           None \<Rightarrow> (writeContractError 422 PackUnavailable ''differential analysis requires a System Pack'', a)
         | Some pack \<Rightarrow>
           (case nextID ''diff-'' a of (diffID, a') \<Rightarrow>
             (case Build (request_source v (dp_visit d) (ap_store a')) diffID (cdr_baseline request)
                     (cdr_comparison request) pack of
                Inl e \<Rightarrow> (writeDiffError e, a')
              | Inr diff \<Rightarrow>
                (case PutDiff (env_cancelled v 4) diff (ap_store a') of
                   (Some e, s') \<Rightarrow> (writeMappedError e no_code, a'\<lparr>ap_store := s'\<rparr>)
                 | (None, s') \<Rightarrow> (Some (201, BodyDiff diff), a'\<lparr>ap_store := s'\<rparr>))))))"

definition reset_answer :: "nat \<times> nat \<Rightarrow> reset_result" where
  "reset_answer counts = \<lparr>rr_schema = ContractVersion, rr_id = ''reset-1'', rr_status = ResetCompleted,
     rr_incidents = int (fst counts), rr_runs = int (snd counts), rr_ledger = 0, rr_fixture_version = ''1.0.0'',
     rr_latency = 350, rr_dedup = False, rr_next_op = ''checkout-8271'', rr_error = None\<rparr>"

definition postReset :: "env \<Rightarrow> api_deps \<Rightarrow> string \<Rightarrow> api \<Rightarrow> response \<times> api" where
  "postReset v d body a =
     (case dec_reset (dp_decoders d) body of
        None \<Rightarrow> (bad_request, a)
      | Some scenario \<Rightarrow>
        if reset_request_validate scenario \<noteq> None then (bad_request, a)
        else (case Reset (env_cancelled v 0) (ap_store a) of
           (Inl _, s') \<Rightarrow> (writeContractError 500 InternalFailure ''internal failure'', a\<lparr>ap_store := s'\<rparr>)
         | (Inr counts, s') \<Rightarrow> (Some (200, BodyReset (reset_answer counts)), a\<lparr>ap_store := s'\<rparr>)))"

section \<open>Routes\<close>

definition no_slash :: "string \<Rightarrow> bool" where
  "no_slash k \<longleftrightarrow> k \<noteq> [] \<and> CHR ''/'' \<notin> set k"

definition route_incident :: "env \<Rightarrow> api_deps \<Rightarrow> string \<Rightarrow> string \<Rightarrow> api \<Rightarrow> response \<times> api" where
  "route_incident v d m k a =
     (if k = [] then (writeNotFound, a)
      else if m = ''POST'' \<and> has_suffix k ''/capsules''
      then (let i = trim_suffix k ''/capsules''
            in if no_slash i then postCapsule v d i a else (writeNotFound, a))
      else if m \<noteq> ''GET'' \<or> CHR ''/'' \<in> set k then (writeNotFound, a)
      else (getIncident v k a, a))"

definition route_capsule :: "env \<Rightarrow> api_deps \<Rightarrow> string \<Rightarrow> string \<Rightarrow> string \<Rightarrow> api \<Rightarrow> response \<times> api" where
  "route_capsule v d m k body a =
     (if m \<noteq> ''POST'' \<or> k = [] \<or> \<not> has_suffix k ''/runs'' then (writeNotFound, a)
      else (let c = trim_suffix k ''/runs''
            in if no_slash c then postRun v d c body a else (writeNotFound, a)))"

text \<open>\<open>GET\<close> of one record under its id.\<close>

definition get_record :: "string \<Rightarrow> string \<Rightarrow> (store_error + 'v) \<Rightarrow> ('v \<Rightarrow> api_body) \<Rightarrow> response" where
  "get_record m k found body =
     (if m \<noteq> ''GET'' \<or> \<not> no_slash k then writeNotFound
      else case found of Inl e \<Rightarrow> writeMappedError e no_code | Inr x \<Rightarrow> Some (200, body x))"

text \<open>\<open>handlerWithDeps\<close>: an exact pattern, or the longest of the patterns that end in a slash.\<close>

definition handlerWithDeps :: "env \<Rightarrow> api_deps \<Rightarrow> api_request \<Rightarrow> api \<Rightarrow> response \<times> api" where
  "handlerWithDeps v d rq a =
     (let m = rq_method rq; p = rq_path rq; rest = (\<lambda>prefix. drop (length prefix) p)
      in if p = ''/v1/events''
         then (if m \<noteq> ''POST'' then (writeNotFound, a) else postEvent v d (rq_body rq) a)
         else if p = ''/v1/incidents''
         then (if m \<noteq> ''GET'' then (writeNotFound, a) else (getIncidents v d (rq_query rq) a, a))
         else if has_prefix p ''/v1/incidents/'' then route_incident v d m (rest ''/v1/incidents/'') a
         else if has_prefix p ''/v1/capsules/'' then route_capsule v d m (rest ''/v1/capsules/'') (rq_body rq) a
         else if has_prefix p ''/v1/runs/''
         then (let k = rest ''/v1/runs/'' in (get_record m k (GetRun (env_cancelled v 0) k (ap_store a)) BodyRun, a))
         else if p = ''/v1/diffs''
         then (if m \<noteq> ''POST'' then (writeNotFound, a) else postDiff v d (rq_body rq) a)
         else if has_prefix p ''/v1/diffs/''
         then (let k = rest ''/v1/diffs/'' in (get_record m k (GetDiff (env_cancelled v 0) k (ap_store a)) BodyDiff, a))
         else if p = ''/v1/demo/reset''
         then (if m \<noteq> ''POST'' then (writeNotFound, a) else postReset v d (rq_body rq) a)
         else (Some (404, BodyText ''404 page not found''), a))"

section \<open>Deployment\<close>

text \<open>packs.go and \<open>resolvePack\<close>: both packs are registered, and a token chooses one.\<close>

definition default_registry :: "system_pack \<Rightarrow> system_pack \<Rightarrow> registry" where
  "default_registry dev checkout =
     Register ''checkout_duplicate_effect'' (Some (\<lambda>_. Some checkout)) (Register ''dev'' (Some (\<lambda>_. Some dev)) [])"

definition resolvePack :: "registry \<Rightarrow> string \<Rightarrow> system_pack option" where
  "resolvePack r token = Resolve r token"

end
