(* ===== verification/CoreApiProps.thy ===== *)
theory CoreApiProps
  imports CoreApi WorkerLive
begin

text \<open>
  What the core API guarantees: detection stores at most one incident per execution, and what a request is
  answered with is stored.
\<close>

section \<open>Detection\<close>

lemma detect_cases:
  assumes "detectAndPersistIncident v ord packs x s = (e, s')"
  shows "s' = s \<or> (\<exists>pack es orc ns. packs = Some pack \<and> EventsForExecution False x s = Inr es \<and> es \<noteq> []
    \<and> pk_detect pack es = Inr orc \<and> or_matched orc \<and> BuildNodes ord es (parentChildEdges es) = Inr ns \<and> e = None
    \<and> PutIncident False (detected_incident pack (env_now v 2) x es orc) (detected_graph x ns (parentChildEdges es)) s = (None, s'))"
proof (cases packs)
  case None
  with assms show ?thesis by (simp add: detectAndPersistIncident_def)
next
  case (Some pack)
  show ?thesis
  proof (cases "EventsForExecution (env_cancelled v 1) x s")
    case (Inl err)
    with assms Some show ?thesis by (simp add: detectAndPersistIncident_def)
  next
    case (Inr es)
    then have es: "EventsForExecution False x s = Inr es" by (simp add: EventsForExecution_def split: if_splits)
    show ?thesis
    proof (cases "es \<noteq> [] \<and> (\<exists>orc ns. pk_detect pack es = Inr orc \<and> or_matched orc \<and> BuildNodes ord es (parentChildEdges es) = Inr ns)")
      case False
      with assms Some Inr show ?thesis
        by (auto simp: detectAndPersistIncident_def Let_def split: if_splits sum.splits pack_error.splits)
    next
      case True
      then obtain orc ns where m: "es \<noteq> []" "pk_detect pack es = Inr orc" "or_matched orc" "BuildNodes ord es (parentChildEdges es) = Inr ns"
        by blast
      let ?i = "detected_incident pack (env_now v 2) x es orc" and ?g = "detected_graph x ns (parentChildEdges es)"
      obtain f s1 where put: "PutIncident (env_cancelled v 2) ?i ?g s = (f, s1)" by fastforce
      have r: "(e, s') = (case f of None \<Rightarrow> (None, s1) | Some ErrConflict \<Rightarrow> (None, s1) | Some y \<Rightarrow> (Some (DetectPersist y), s1))"
        using assms Some Inr m put by (simp add: detectAndPersistIncident_def)
      show ?thesis
      proof (cases f)
        case None
        then have "\<not> env_cancelled v 2" using put by (auto simp: PutIncident_def)
        with None r put Some es m show ?thesis by auto
      next
        case (Some y)
        with PutIncident_cases [of "env_cancelled v 2" ?i ?g s] put have "s1 = s" by auto
        with r Some show ?thesis by (cases y) simp_all
      qed
    qed
  qed
qed

lemma detect_evolves: "detectAndPersistIncident v ord packs x s = (e, s') \<Longrightarrow> evolves ks s s'"
  using detect_cases [of v ord packs x s e s'] evolves_op [of "OpPutIncident False i g" ks s for i g]
  by (auto simp: is_reset_def) (metis snd_conv)

lemma detail_graph: "GetIncidentDetail c k s = Inr (i, g, out) \<Longrightarrow> table_get (st_graphs s) (inc_graph i) = Some g"
  by (simp add: GetIncidentDetail_def bind_result_Inr_iff split: if_split_asm option.split_asm)
    (elim exE conjE, simp split: sum.split_asm)

text \<open>C14: detection is idempotent. It touches the repository at most once per execution: an execution whose incident is
  stored is left alone, and when something is stored, the oracle of the pack matched on all events of the execution
  in order, and the stored incident is READY under the id derived from the execution, records the verdict and its
  evidence, and can be served with a timeline of exactly these events.\<close>

theorem detection_idempotent:
  assumes "reachable s" and "detectAndPersistIncident v ord packs x s = (e, s')" and "iteration_order ord"
  shows "reachable s' \<and> extends s s' \<and> (table_get (st_incidents s) (''inc-'' @ x) \<noteq> None \<longrightarrow> s' = s)
    \<and> (s' \<noteq> s \<longrightarrow> e = None \<and> (\<exists>pack es orc i g out. packs = Some pack \<and> EventsForExecution False x s = Inr es
        \<and> pk_detect pack es = Inr orc \<and> or_matched orc \<and> GetIncidentDetail False (''inc-'' @ x) s' = Inr (i, g, out)
        \<and> inc_status i = IncidentReady \<and> inc_execution i = x \<and> inc_oracle i = or_oracle orc
        \<and> inc_evidence i = elems (or_evidence orc) \<and> mset out = mset es))"
proof -
  note ok = reachable_ok [OF assms(1)] and ev = detect_evolves [OF assms(2), of "{}"]
  from detect_cases [OF assms(2)] show ?thesis
  proof (elim disjE exE conjE)
    assume "s' = s"
    then show ?thesis using assms(1) by simp
  next
    fix pack es orc ns
    let ?i = "detected_incident pack (env_now v 2) x es orc" and ?g = "detected_graph x ns (parentChildEdges es)"
    assume m: "packs = Some pack" "EventsForExecution False x s = Inr es" "pk_detect pack es = Inr orc" "or_matched orc" "e = None"
      and put: "PutIncident False ?i ?g s = (None, s')" and ns: "BuildNodes ord es (parentChildEdges es) = Inr ns"
    have id: "inc_id ?i = ''inc-'' @ x" "inc_graph ?i = graph_id ?g" by (simp_all add: detected_incident_def detected_graph_def)
    from PutIncident_cases [of False ?i ?g s] put id
    have new: "table_get (st_incidents s) (''inc-'' @ x) = None" and s': "s' = s\<lparr>st_incidents := table_put (inc_id ?i) ?i (st_incidents s),
        st_graphs := table_put (graph_id ?g) ?g (st_graphs s)\<rparr>" by auto
    note ok' = evolves_ok [OF ev ok] and reach = evolves_reachable [OF ev assms(1)]
    have "table_get (st_incidents s') (''inc-'' @ x) = Some ?i" using s' id by simp
    from stored_incident_served [OF reach this] obtain g out where served: "GetIncidentDetail False (''inc-'' @ x) s' = Inr (?i, g, out)"
        "set (map ev_id out) = set (node_ids (graph_nodes g))" "distinct (map ev_id out)"
        "\<forall>e\<in>set out. table_get (st_events s') (ev_id e) = Some e" by blast
    have "table_get (st_graphs s') (inc_graph ?i) = Some ?g" using s' id by simp
    with detail_graph [OF served(1)] have g: "g = ?g" by simp
    note built = built_ids [OF assms(3) ns]
    have ids: "set (map ev_id out) = set (map ev_id es)" using served(2) built(3) by (simp add: g detected_graph_def)
    have "mset out = mset es"
    proof -
      have stored: "table_get (st_events s') (ev_id a) = Some a" if a: "a \<in> set es" for a
      proof -
        from a m(2) have "a \<in> set (table_rows (st_events s))" by (auto simp: EventsForExecution_def stableOrder_def)
        then obtain k where "table_get (st_events s) k = Some a" "event_row k a"
          using ok tab.all_entries_rows [of event_row "st_events s" a] by (auto simp: store_ok_def)
        with s' show ?thesis by (simp add: event_row_def)
      qed
      have "set out = set es"
      proof (intro equalityI subsetI)
        fix a
        assume a: "a \<in> set out"
        with ids have "ev_id a \<in> ev_id ` set es" by (metis image_eqI list.set_map)
        then obtain b where b: "b \<in> set es" "ev_id b = ev_id a" by auto
        with a served(4) stored show "a \<in> set es" by (metis option.inject)
      next
        fix a
        assume a: "a \<in> set es"
        with ids have "ev_id a \<in> ev_id ` set out" by (metis image_eqI list.set_map)
        then obtain b where b: "b \<in> set out" "ev_id b = ev_id a" by auto
        with a served(4) stored show "a \<in> set out" by (metis option.inject)
      qed
      with served(3) built(2) show ?thesis by (simp add: set_eq_iff_mset_eq_distinct distinct_map)
    qed
    with m served(1) reach evolves_extends [OF ev ok] new show ?thesis
      by (intro conjI) (blast | simp add: detected_incident_def)+
  qed
qed

section \<open>Requests\<close>

text \<open>The record that a response carries is stored.\<close>

fun stored_answer :: "store \<Rightarrow> api_body \<Rightarrow> bool" where
  "stored_answer s (BodyAccepted k) = (table_get (st_events s) k \<noteq> None)"
| "stored_answer s (BodyCapsule c) = (table_get (st_capsules s) (cap_id c) = Some c)"
| "stored_answer s (BodyRun r) = (table_get (st_runs s) (run_id r) = Some r)"
| "stored_answer s (BodyDiff d) = (table_get (st_diffs s) (diff_id d) = Some d)"
| "stored_answer s body = True"

definition answered :: "response \<times> api \<Rightarrow> bool" where
  "answered out \<longleftrightarrow> reachable (ap_store (snd out))
     \<and> (case fst out of None \<Rightarrow> True | Some (_, body) \<Rightarrow> stored_answer (ap_store (snd out)) body)"

lemma answered_some [simp]:
  "answered (Some (n, body), a') \<longleftrightarrow> reachable (ap_store a') \<and> stored_answer (ap_store a') body"
  "answered (None, a') \<longleftrightarrow> reachable (ap_store a')"
  by (simp_all add: answered_def)

lemma errors_answered [simp]:
  "reachable (ap_store a') \<Longrightarrow> answered (writeContractError st code m, a')"
  "reachable (ap_store a') \<Longrightarrow> answered (bad_request, a')"
  "reachable (ap_store a') \<Longrightarrow> answered (writeNotFound, a')"
  "reachable (ap_store a') \<Longrightarrow> answered (writeMappedError e code, a')"
  "reachable (ap_store a') \<Longrightarrow> answered (writeCapsuleError ce, a')"
  "reachable (ap_store a') \<Longrightarrow> answered (writeDiffError de, a')"
  by (simp_all add: answered_def writeContractError_def bad_request_def writeNotFound_def writeMappedError_def
      writeCapsuleError_def writeDiffError_def split: capsule_error.split diff_error.split pack_error.split)

lemma op_reachable:
  "reachable s \<Longrightarrow> IngestEvent c e s = (x, s') \<Longrightarrow> reachable s'"
  "reachable s \<Longrightarrow> PutCapsule c p s = (x, s') \<Longrightarrow> reachable s'"
  "reachable s \<Longrightarrow> PutRun c r s = (x, s') \<Longrightarrow> reachable s'"
  "reachable s \<Longrightarrow> PutDiff c d s = (x, s') \<Longrightarrow> reachable s'"
  "reachable s \<Longrightarrow> Reset c s = (y, s') \<Longrightarrow> reachable s'"
  using reachable.step [of s "OpIngest c e"] reachable.step [of s "OpPutCapsule c p"] reachable.step [of s "OpPutRun c r"]
    reachable.step [of s "OpPutDiff c d"] reachable.step [of s "OpReset c"]
  by auto

lemma postEvent_answered:
  assumes "reachable (ap_store a)"
  shows "answered (postEvent v d body a)"
proof (cases "dec_event (dp_decoders d) body")
  case None
  with assms show ?thesis by (simp add: postEvent_def)
next
  case (Some event)
  obtain x s1 where ing: "IngestEvent (env_cancelled v 0) event (ap_store a) = (x, s1)" by fastforce
  note r1 = op_reachable(1) [OF assms ing]
  show ?thesis
  proof (cases x)
    case None
    then have k: "table_get (st_events s1) (ev_id event) = Some event"
      using ing IngestEvent_cases [of "env_cancelled v 0" event "ap_store a"] by auto
    obtain e s2 where det: "detectAndPersistIncident v (dp_visit d) (dp_pack d) (ev_execution event) s1 = (e, s2)" by fastforce
    note ev = detect_evolves [OF det, of "{}"]
    have "table_get (st_events s2) (ev_id event) = Some event"
      using evolves_extends [OF ev reachable_ok [OF r1]] k by (simp add: extends_def sub_table_def)
    with Some None ing det evolves_reachable [OF ev r1] show ?thesis
      by (auto simp: postEvent_def split: option.split detect_error.split)
  next
    case (Some y)
    with \<open>dec_event (dp_decoders d) body = Some event\<close> ing r1 show ?thesis by (cases y) (simp_all add: postEvent_def)
  qed
qed

lemma postCapsule_answered:
  assumes "reachable (ap_store a)"
  shows "answered (postCapsule v d i a)"
proof -
  have got: "cap_id c = k \<and> table_get (st_capsules (ap_store a)) k = Some c" if "GetCapsule b k (ap_store a) = Inr c" for b k c
    using that reachable_ok [OF assms] tab.all_entriesD [of capsule_row "st_capsules (ap_store a)" k c]
    by (auto simp: GetCapsule_def lookup_row_def store_ok_def capsule_row_def split: if_splits option.splits)
  have put: "answered (case PutCapsule b c (ap_store a) of (Some e, s') \<Rightarrow> (writeMappedError e no_code, a\<lparr>ap_store := s'\<rparr>)
      | (None, s') \<Rightarrow> (Some (201, BodyCapsule c), a\<lparr>ap_store := s'\<rparr>))" for b c
    using PutCapsule_cases [of b c "ap_store a"] assms op_reachable(2) [OF assms, of b c] by auto
  show ?thesis
    using assms by (auto simp: postCapsule_def Let_def put split: option.split sum.split dest!: got)
qed

lemma postRun_answered:
  assumes "reachable (ap_store a)"
  shows "answered (postRun v d k body a)"
proof -
  have put: "answered (case PutRun b r (ap_store a) of (Some e, s') \<Rightarrow> (writeMappedError e no_code, a'\<lparr>ap_store := s'\<rparr>)
      | (None, s') \<Rightarrow> (Some (202, BodyRun r), a'\<lparr>ap_store := s'\<rparr>))" for b r a'
    using PutRun_cases [of b r "ap_store a"] assms op_reachable(3) [OF assms, of b r] by auto
  show ?thesis
    using assms by (auto simp: postRun_def nextID_def Let_def put split: option.split sum.split prod.split)
qed

lemma postDiff_answered:
  assumes "reachable (ap_store a)"
  shows "answered (postDiff v d body a)"
proof -
  have put: "answered (case PutDiff b r (ap_store a) of (Some e, s') \<Rightarrow> (writeMappedError e no_code, a'\<lparr>ap_store := s'\<rparr>)
      | (None, s') \<Rightarrow> (Some (201, BodyDiff r), a'\<lparr>ap_store := s'\<rparr>))" for b r a'
    using PutDiff_cases [of b r "ap_store a"] assms op_reachable(4) [OF assms, of b r] by auto
  show ?thesis
    using assms by (auto simp: postDiff_def nextID_def Let_def put split: option.split sum.split)
qed

lemma postReset_answered:
  assumes "reachable (ap_store a)"
  shows "answered (postReset v d body a)"
  using assms by (auto simp: postReset_def
      split: option.split prod.split sum.split dest: op_reachable(5))

lemma get_record_answered:
  assumes "reachable (ap_store a)" and "\<And>x. found = Inr x \<Longrightarrow> stored_answer (ap_store a) (body x)"
  shows "answered (get_record m k found body, a)"
  using assms by (auto simp: get_record_def split: sum.split)

lemma routes_answered:
  assumes "reachable (ap_store a)"
  shows "answered (route_incident v d m k a)" "answered (route_capsule v d m k body a)"
    "answered (getIncidents v d q a, a)"
proof -
  show "answered (route_incident v d m k a)"
    using assms postCapsule_answered [OF assms]
    by (auto simp: route_incident_def getIncident_def Let_def split: sum.split)
  show "answered (route_capsule v d m k body a)"
    using assms postRun_answered [OF assms] by (simp add: route_capsule_def Let_def)
  show "answered (getIncidents v d q a, a)"
    using assms by (auto simp: getIncidents_def split: option.split sum.split)
qed


text \<open>The ids of runs start over with the process, the repository does not: after a restart, while the counter is behind
  the stored runs, a correct request to create a run is refused as malformed.\<close>

lemma NewRun_ok:
  "NewRun k x cap hash kind base iv trial = (run, None) \<Longrightarrow> run_id run = k \<and> run_validate run = None"
  by (auto simp: NewRun_def Let_def split: if_splits)

lemma restart_rejects_run:
  assumes "table_get (st_runs (ap_store a)) (''run-'' @ int_dec (sint (ap_counter a + 1))) \<noteq> None"
    and "dec_create_run (dp_decoders d) body = Some request" and "table_get (st_capsules (ap_store a)) k = Some c"
    and "\<not> env_cancelled v 0" "\<not> env_cancelled v 1"
  shows "fst (postRun v d k body a) = bad_request"
proof -
  let ?k = "''run-'' @ int_dec (sint (ap_counter a + 1))"
  obtain run e where new: "NewRun ?k (''exec-replay-'' @ ?k) (cap_id c) (int_digest (cap_integrity c))
      (crr_type request) (crr_baseline request) (crr_intervention request) 1 = (run, e)" by fastforce
  show ?thesis
  proof (cases e)
    case None
    with NewRun_ok [of ?k] new have "PutRun (env_cancelled v 1) run (ap_store a) = (Some ErrConflict, ap_store a)"
      using assms(1,5) by (simp add: PutRun_def)
    with new None assms show ?thesis
      by (simp add: postRun_def nextID_def Let_def GetCapsule_def lookup_row_def writeMappedError_def bad_request_def)
  next
    case (Some x)
    with new assms show ?thesis
      by (simp add: postRun_def nextID_def Let_def GetCapsule_def lookup_row_def)
  qed
qed

section \<open>A service at work\<close>

definition sample_decoders :: decoders where
  "sample_decoders = \<lparr>dec_event = (\<lambda>_. Some (sample_event ''a'' ''2026-01-01T00:00:00Z'' 1)), dec_create_run = (\<lambda>_. None),
     dec_create_diff = (\<lambda>_. None), dec_reset = (\<lambda>_. None)\<rparr>"

definition sample_deps :: api_deps where
  "sample_deps = \<lparr>dp_pack = None, dp_hasher = sample_hasher, dp_decoders = sample_decoders, dp_marshal = snd,
     dp_unmarshal = (\<lambda>_. None), dp_visit = (\<lambda>_ m. m)\<rparr>"

definition fresh_api :: api where
  "fresh_api = \<lparr>ap_store = NewStore, ap_counter = 0\<rparr>"

definition event_request :: api_request where
  "event_request = \<lparr>rq_method = ''POST'', rq_path = ''/v1/events'', rq_query = [], rq_body = []\<rparr>"


text \<open>An oracle that always matches.\<close>

definition eager_pack :: system_pack where
  "eager_pack = golden_pack\<lparr>pk_detect := (\<lambda>es. Inr ((sample_oracle True 2)\<lparr>or_evidence := Some (map ev_id es)\<rparr>))\<rparr>"

definition one_event_store :: store where
  "one_event_store = apply_ops [OpIngest False (sample_event ''a'' ''2026-01-01T00:00:00Z'' 1)] NewStore"

theorem detection_idempotent_witness:
  "\<exists>s' i g out. detectAndPersistIncident calm_env (\<lambda>_ m. m) (Some eager_pack) ''x'' one_event_store = (None, s')
     \<and> GetIncidentDetail False ''inc-x'' s' = Inr (i, g, out) \<and> inc_status i = IncidentReady
     \<and> snd (detectAndPersistIncident calm_env (\<lambda>_ m. m) (Some eager_pack) ''x'' s') = s'"
proof -
  let ?d = "detectAndPersistIncident calm_env (\<lambda>_ m. m) (Some eager_pack) ''x''"
  obtain e s' where d: "?d one_event_store = (e, s')" by fastforce
  have "st_incidents (snd (?d one_event_store)) \<noteq> [] \<and> st_incidents one_event_store = []" by code_simp
  with d have changed: "s' \<noteq> one_event_store" by auto
  have r: "reachable one_event_store" unfolding one_event_store_def by (rule reachable_apply_ops [OF reachable.start])
  from detection_idempotent [OF r d identity_iteration] changed
  obtain i g out where i: "reachable s'" "e = None" "GetIncidentDetail False (''inc-'' @ ''x'') s' = Inr (i, g, out)" "inc_status i = IncidentReady"
    by blast
  obtain e2 s2 where d2: "?d s' = (e2, s2)" by fastforce
  have "table_get (st_incidents s') (''inc-'' @ ''x'') \<noteq> None"
    using i(3) by (auto simp: GetIncidentDetail_def split: option.splits)
  with detection_idempotent [OF i(1) d2 identity_iteration] have "s2 = s'" by blast
  with d d2 i show ?thesis by auto
qed

end
