(* ===== verification/Capture.thy ===== *)
theory Capture
  imports Validation Clock "HOL-Library.Word"
begin

text \<open>
  internal/capture: the generator of ids (ids.go), the recorder that builds, checks and emits events (recorder.go)
  and the sinks (sink.go). A sink is a function on its own state. \<open>Record\<close> takes several locks one after the
  other; it is one step here. \<open>HTTPSink\<close> and the header
  names of propagation.go are in Http.
\<close>

section \<open>Ids (ids.go)\<close>

record id_generator =
  ig_seed :: int
  ig_next :: int
  ig_events :: "64 word"

definition ids_reset :: "id_generator \<Rightarrow> id_generator" where
  "ids_reset g = g\<lparr>ig_next := ig_seed g, ig_events := 0\<rparr>"

definition NewIDGenerator :: "int \<Rightarrow> id_generator" where
  "NewIDGenerator seed = ids_reset \<lparr>ig_seed = seed, ig_next = 0, ig_events = 0\<rparr>"

definition DefaultCheckoutSeed :: int where
  "DefaultCheckoutSeed = 8271"

definition NextCheckoutSeq :: "id_generator \<Rightarrow> int \<times> id_generator" where
  "NextCheckoutSeq g = (ig_next g, g\<lparr>ig_next := ig_next g + 1\<rparr>)"

definition LogicalOperationID :: "int \<Rightarrow> string" where
  "LogicalOperationID n = ''checkout-'' @ int_dec n"

definition TraceID :: "int \<Rightarrow> string" where
  "TraceID n = ''trace-'' @ int_dec n"

definition ExecutionID :: "int \<Rightarrow> string" where
  "ExecutionID n = ''exec-original-'' @ int_dec n"

definition PeekNextLogicalOperationID :: "id_generator \<Rightarrow> string" where
  "PeekNextLogicalOperationID g = LogicalOperationID (ig_next g)"

text \<open>The counter is a \<open>uint64\<close>.\<close>

definition event_id :: "string \<Rightarrow> 64 word \<Rightarrow> string" where
  "event_id component n = ''evt-'' @ component @ ''-'' @ nat_dec (unat n)"

definition NextEventID :: "string \<Rightarrow> id_generator \<Rightarrow> string \<times> id_generator" where
  "NextEventID component g =
     (let n = ig_events g + 1 in (event_id component n, g\<lparr>ig_events := n\<rparr>))"

section \<open>Recording (recorder.go)\<close>

record record_input =
  ri_execution :: string
  ri_trace :: string
  ri_parent :: string
  ri_run :: string
  ri_operation :: operation_ref
  ri_type :: event_type
  ri_attempt :: int
  ri_logical :: string
  ri_duration :: "int option"
  ri_status :: event_status
  ri_attributes :: go_object

record recorder =
  rec_component :: component_ref
  rec_seq :: "string \<Rightarrow> int"

definition NewRecorder :: "component_ref \<Rightarrow> recorder" where
  "NewRecorder c = \<lparr>rec_component = c, rec_seq = (\<lambda>_. 0)\<rparr>"

definition nextSequence :: "string \<Rightarrow> recorder \<Rightarrow> int \<times> recorder" where
  "nextSequence x r =
     (let key = x @ ''|'' @ comp_instance (rec_component r); n = rec_seq r key
      in (n, r\<lparr>rec_seq := (rec_seq r)(key := n + 1)\<rparr>))"

datatype record_error = AttemptBelowOne | InvalidEvent contract_error | EmitFailed string

type_synonym 'k sink = "execution_event \<Rightarrow> 'k \<Rightarrow> string option \<times> 'k"

definition build_event :: "record_input \<Rightarrow> component_ref \<Rightarrow> string \<Rightarrow> civil \<Rightarrow> int \<Rightarrow> execution_event" where
  "build_event i c k now n =
     \<lparr>ev_schema = ContractVersion, ev_id = k, ev_execution = ri_execution i, ev_trace = ri_trace i,
       ev_parent = ri_parent i, ev_run = ri_run i, ev_component = c, ev_operation = ri_operation i,
       ev_type = ri_type i, ev_attempt = ri_attempt i, ev_logical_op = ri_logical i,
       ev_occurred_at = nowRFC3339 now, ev_sequence = n, ev_duration = ri_duration i, ev_status = ri_status i,
       ev_attributes = (case ri_attributes i of None \<Rightarrow> Some [] | Some kvs \<Rightarrow> Some kvs)\<rparr>"

text \<open>The recorder, the generator and the sink after the call; a nil sink is \<open>None\<close>.\<close>

definition Record :: "'k sink option \<Rightarrow> civil \<Rightarrow> record_input \<Rightarrow> recorder \<Rightarrow> id_generator \<Rightarrow> 'k
    \<Rightarrow> (record_error + execution_event) \<times> recorder \<times> id_generator \<times> 'k" where
  "Record sink now i r g s =
     (if ri_attempt i < 1 then (Inl AttemptBelowOne, r, g, s)
      else (case NextEventID (comp_name (rec_component r)) g of (k, g') \<Rightarrow>
        (case nextSequence (ri_execution i) r of (n, r') \<Rightarrow>
          (let event = build_event i (rec_component r) k now n
           in case event_validate event of Some e \<Rightarrow> (Inl (InvalidEvent e), r', g', s)
           | None \<Rightarrow>
             (case sink of None \<Rightarrow> (Inr event, r', g', s)
              | Some emit \<Rightarrow>
                (case emit event s of
                   (Some m, s') \<Rightarrow> (Inl (EmitFailed m), r', g', s')
                 | (None, s') \<Rightarrow> (Inr event, r', g', s')))))))"

section \<open>Sinks (sink.go)\<close>

definition memory_emit :: "execution_event list sink" where
  "memory_emit e es = (None, es @ [e])"

definition memory_events :: "execution_event list \<Rightarrow> execution_event list" where
  "memory_events es = es"

definition memory_reset :: "execution_event list \<Rightarrow> execution_event list" where
  "memory_reset es = []"

text \<open>Every sink is tried; the first error is answered.\<close>

fun multi_emit :: "'k sink list \<Rightarrow> 'k list sink" where
  "multi_emit (f # fs) e (k # ks) =
     (case f e k of (err, k') \<Rightarrow>
       (case multi_emit fs e ks of (err', ks') \<Rightarrow> (if err \<noteq> None then err else err', k' # ks')))"
| "multi_emit fs e ks = (None, ks)"

section \<open>What a recorder promises\<close>

text \<open>What an emitted event keeps of the recorded one, as far as the oracle looks at it.\<close>

type_synonym signature = "string \<times> event_type \<times> operation_kind \<times> int \<times> go_value option"

definition signature :: "execution_event \<Rightarrow> signature" where
  "signature e = (ev_logical_op e, ev_type e, op_kind (ev_operation e), ev_attempt e,
     lookup_key (ev_attributes e) ''effect_committed'')"

definition input_signature :: "record_input \<Rightarrow> signature" where
  "input_signature i = (ri_logical i, ri_type i, op_kind (ri_operation i), ri_attempt i,
     lookup_key (ri_attributes i) ''effect_committed'')"

text \<open>The contract of a sink: it keeps every event it accepts, with its signature, and nothing of the ones it refuses.\<close>

locale event_sink =
  fixes emit :: "'k sink" and contents :: "'k \<Rightarrow> execution_event list"
  assumes accepts: "event_validate e = None \<Longrightarrow> emit e k = (None, k') \<Longrightarrow> \<exists>e'. contents k' = contents k @ [e'] \<and> signature e' = signature e
      \<and> event_validate e' = None"
    and refuses: "emit e k = (Some m, k') \<Longrightarrow> contents k' = contents k"
begin

lemma Record_cases:
  assumes "Record (Some emit) now i r g s = (res, r', g', s')"
  shows "(\<exists>err. res = Inl err) \<and> contents s' = contents s
    \<or> (\<exists>e e'. res = Inr e \<and> event_validate e = None \<and> contents s' = contents s @ [e'] \<and> event_validate e' = None
        \<and> signature e' = input_signature i)"
proof (cases "ri_attempt i < 1")
  case True
  with assms show ?thesis by (auto simp: Record_def)
next
  case False
  obtain k g1 where k: "NextEventID (comp_name (rec_component r)) g = (k, g1)" by fastforce
  obtain n r1 where n: "nextSequence (ri_execution i) r = (n, r1)" by fastforce
  let ?e = "build_event i (rec_component r) k now n"
  have sig: "signature ?e = input_signature i"
    by (simp add: signature_def input_signature_def build_event_def lookup_key_def split: option.split)
  show ?thesis
  proof (cases "event_validate ?e")
    case (Some err)
    with assms False k n show ?thesis by (auto simp: Record_def)
  next
    case None
    obtain x s1 where x: "emit ?e s = (x, s1)" by fastforce
    show ?thesis
    proof (cases x)
      case (Some m)
      with assms False k n None x refuses [of ?e s m s1] show ?thesis by (auto simp: Record_def)
    next
      case accepted: None
      with x accepts [OF None] obtain e' where "contents s1 = contents s @ [e']" "signature e' = signature ?e" "event_validate e' = None"
        by blast
      with assms False k n None x accepted sig show ?thesis by (auto simp: Record_def)
    qed
  qed
qed

end

interpretation memory: event_sink memory_emit memory_events
  by standard (auto simp: memory_emit_def memory_events_def)

end
