(* ===== verification/Services.thy ===== *)
theory Services
  imports Capture
begin

text \<open>
  The demo services (cmd/demo-payment, demo-ledger, demo-checkout and demo-gateway, package service): the state of
  each and its operations, and one checkout as a machine of interleaved steps. The goroutine of the request and the
  goroutines of the payment attempts take turns; a step is a critical section, one \<open>Record\<close>, or a choice of the
  \<open>select\<close>. The recorders are never nil; the HTTP handlers and clients that carry the calls between processes are
  in Http.
\<close>

section \<open>Payment\<close>

record payment =
  pay_latency :: int
  pay_attempts :: int

definition DefaultLatencyMs :: int where
  "DefaultLatencyMs = 350"

definition payment_reset :: "payment \<Rightarrow> payment" where
  "payment_reset p = p\<lparr>pay_latency := DefaultLatencyMs, pay_attempts := 0\<rparr>"

definition SetLatencyMs :: "int \<Rightarrow> payment \<Rightarrow> payment" where
  "SetLatencyMs ms p = p\<lparr>pay_latency := ms\<rparr>"

definition LatencyMs :: "payment \<Rightarrow> int" where
  "LatencyMs p = pay_latency p"

definition AttemptCount :: "payment \<Rightarrow> int" where
  "AttemptCount p = pay_attempts p"

section \<open>Ledger\<close>

record ledger =
  led_dedup :: bool
  led_effects :: "string list"
  led_first :: "string \<rightharpoonup> string"

definition DefaultDeduplicationEnabled :: bool where
  "DefaultDeduplicationEnabled = False"

definition ledger_reset :: "ledger \<Rightarrow> ledger" where
  "ledger_reset l = l\<lparr>led_dedup := DefaultDeduplicationEnabled, led_effects := [], led_first := Map.empty\<rparr>"

definition SetDeduplicationEnabled :: "bool \<Rightarrow> ledger \<Rightarrow> ledger" where
  "SetDeduplicationEnabled b l = l\<lparr>led_dedup := b\<rparr>"

definition DeduplicationEnabled :: "ledger \<Rightarrow> bool" where
  "DeduplicationEnabled l = led_dedup l"

definition EffectKey :: "string \<Rightarrow> int \<Rightarrow> string" where
  "EffectKey checkoutID attempt = checkoutID @ ''-'' @ int_dec attempt"

definition CommittedEffectCount :: "ledger \<Rightarrow> nat" where
  "CommittedEffectCount l = length (led_effects l)"

definition CommittedEffects :: "ledger \<Rightarrow> string list" where
  "CommittedEffects l = led_effects l"

text \<open>The critical section of \<open>Commit\<close>: whether the effect was committed, and the ledger after it.\<close>

definition commit_effect :: "string \<Rightarrow> int \<Rightarrow> ledger \<Rightarrow> bool \<times> ledger" where
  "commit_effect checkoutID attempt l =
     (let k = EffectKey checkoutID attempt;
          (committed, l1) = (if led_dedup l
            then (if led_first l checkoutID \<noteq> None then (False, l)
                  else (True, l\<lparr>led_first := (led_first l)(checkoutID \<mapsto> k)\<rparr>))
            else (True, l))
      in (committed, if committed then l1\<lparr>led_effects := led_effects l1 @ [k]\<rparr> else l1))"

section \<open>Checkout and gateway\<close>

record checkout =
  co_timeout :: int
  co_max :: int
  co_observed :: int

definition checkout_reset :: "checkout \<Rightarrow> checkout" where
  "checkout_reset c = c\<lparr>co_timeout := 200, co_max := 2, co_observed := 0\<rparr>"

definition AttemptsObserved :: "checkout \<Rightarrow> int" where
  "AttemptsObserved c = co_observed c"

record gateway_request =
  gq_checkout :: string
  gq_scenario :: string

record gateway_result =
  gr_trace :: string
  gr_execution :: string
  gr_logical :: string
  gr_attempts :: int

datatype service_error =
    ServiceError string
  | RecordFailed string record_error
  | LatencyControl string

definition normalizeCheckoutID :: "string \<Rightarrow> string" where
  "normalizeCheckoutID raw = trim_prefix raw ''checkout-''"

definition ScenarioHealthy :: string where
  "ScenarioHealthy = ''healthy''"

text \<open>The id of a checkout: as given, the control id for a healthy run, or the next of the generator.\<close>

definition allocate :: "gateway_request \<Rightarrow> id_generator \<Rightarrow> string \<times> id_generator" where
  "allocate rq g =
     (let k = normalizeCheckoutID (gq_checkout rq);
          k' = (if k = [] \<and> gq_scenario rq = ScenarioHealthy then ''ctrl-1'' else k)
      in if k' = [] then (case NextCheckoutSeq g of (n, g') \<Rightarrow> (int_dec n, g')) else (k', g))"

section \<open>The state of one checkout\<close>

datatype component = Gateway | Checkout | Payment | Ledger

text \<open>What the goroutines of a request know: the ids, the parents, the configuration that was read.\<close>

record call =
  ca_healthy :: bool
  ca_checkout :: string
  ca_gateway_start :: string
  ca_start :: string
  ca_timeout :: int
  ca_max :: int

definition ca_trace :: "call \<Rightarrow> string" where
  "ca_trace c = ''trace-'' @ ca_checkout c"

definition ca_execution :: "call \<Rightarrow> string" where
  "ca_execution c = ''exec-original-'' @ ca_checkout c"

definition ca_logical :: "call \<Rightarrow> string" where
  "ca_logical c = ''checkout-'' @ ca_checkout c"

text \<open>Where the goroutine of an attempt is, and where the goroutine of the request is.\<close>

datatype attempt_pc =
    NotLaunched
  | Authorizing
  | Admitted int
  | Sleeping int
  | Approved
  | Committed bool
  | Ended "service_error option"

datatype main_pc =
    GatewayEntry gateway_request
  | GatewayStart
  | ProcessStart
  | Selecting
  | TimerFired
  | Retrying
  | Collecting int
  | GatewayComplete int
  | Returned "service_error + gateway_result"

record 'k world =
  w_ids :: id_generator
  w_checkout_ids :: id_generator
  w_recs :: "component \<Rightarrow> recorder"
  w_sink :: 'k
  w_payment :: payment
  w_ledger :: ledger
  w_checkout :: checkout
  w_call :: call
  w_main :: main_pc
  w_attempt :: "int \<Rightarrow> attempt_pc"

definition record_as :: "'k sink \<Rightarrow> civil \<Rightarrow> component \<Rightarrow> record_input \<Rightarrow> 'k world
    \<Rightarrow> (record_error + execution_event) \<times> 'k world" where
  "record_as emit now c i w =
     (case Record (Some emit) now i (w_recs w c) (w_ids w) (w_sink w) of
        (res, r, g, s) \<Rightarrow> (res, w\<lparr>w_recs := (w_recs w)(c := r), w_ids := g, w_sink := s\<rparr>))"

definition base_input :: "call \<Rightarrow> string \<Rightarrow> string \<Rightarrow> operation_kind \<Rightarrow> event_type \<Rightarrow> event_status \<Rightarrow> int \<Rightarrow> record_input" where
  "base_input c parent name kind ty st a =
     \<lparr>ri_execution = ca_execution c, ri_trace = ca_trace c, ri_parent = parent, ri_run = [],
       ri_operation = \<lparr>op_name = name, op_kind = kind\<rparr>, ri_type = ty, ri_attempt = a,
       ri_logical = ca_logical c, ri_duration = None, ri_status = st, ri_attributes = None\<rparr>"

definition go_int :: "int \<Rightarrow> go_value" where
  "go_int n = VInt KInt n"

section \<open>An attempt: Authorize, then Commit\<close>

definition payment_start_input :: "call \<Rightarrow> int \<Rightarrow> int \<Rightarrow> record_input" where
  "payment_start_input c a latency =
     (base_input c (ca_start c) ''authorize'' OperationDependency EventStart EventRunning a)
       \<lparr>ri_attributes := Some [(''configured_latency_ms'', go_int latency)]\<rparr>"

definition payment_complete_input :: "call \<Rightarrow> int \<Rightarrow> int \<Rightarrow> record_input" where
  "payment_complete_input c a latency =
     (base_input c (ca_start c) ''authorize'' OperationDependency EventComplete EventSuccess a)
       \<lparr>ri_duration := Some latency\<rparr>"

definition effect_input :: "call \<Rightarrow> int \<Rightarrow> bool \<Rightarrow> record_input" where
  "effect_input c a committed =
     (base_input c (ca_start c) ''ledger.commit'' OperationSideEffect EventEffect
        (if committed then EventSuccess else EventBlocked) a)
       \<lparr>ri_attributes := Some [(''effect_id'', VStr (EffectKey (ca_checkout c) a)), (''effect_committed'', VBool committed)]\<rparr>"

definition set_attempt :: "int \<Rightarrow> attempt_pc \<Rightarrow> 'k world \<Rightarrow> 'k world" where
  "set_attempt a pc w = w\<lparr>w_attempt := (w_attempt w)(a := pc)\<rparr>"

text \<open>The next step of attempt \<open>a\<close>; the program counter says which.\<close>

definition attempt_step :: "'k sink \<Rightarrow> civil \<Rightarrow> int \<Rightarrow> 'k world \<Rightarrow> 'k world" where
  "attempt_step emit now a w =
     (case w_attempt w a of
        Authorizing \<Rightarrow>
          (if a < 1 then set_attempt a (Ended (Some (ServiceError ''payment: attempt must be >= 1''))) w
           else set_attempt a (Admitted (pay_latency (w_payment w)))
             (w\<lparr>w_payment := (w_payment w)\<lparr>pay_attempts := pay_attempts (w_payment w) + 1\<rparr>\<rparr>))
      | Admitted latency \<Rightarrow>
          (case record_as emit now Payment (payment_start_input (w_call w) a latency) w of
             (Inl e, w') \<Rightarrow> set_attempt a (Ended (Some (RecordFailed ''payment: record start event'' e))) w'
           | (Inr _, w') \<Rightarrow> set_attempt a (Sleeping latency) w')
      | Sleeping latency \<Rightarrow>
          (case record_as emit now Payment (payment_complete_input (w_call w) a latency) w of
             (Inl e, w') \<Rightarrow> set_attempt a (Ended (Some (RecordFailed ''payment: record complete event'' e))) w'
           | (Inr _, w') \<Rightarrow> set_attempt a Approved w')
      | Approved \<Rightarrow>
          (if a < 1 then set_attempt a (Ended (Some (ServiceError ''ledger: attempt must be >= 1''))) w
           else (case commit_effect (ca_checkout (w_call w)) a (w_ledger w) of
             (committed, l) \<Rightarrow> set_attempt a (Committed committed) (w\<lparr>w_ledger := l\<rparr>)))
      | Committed committed \<Rightarrow>
          (case record_as emit now Ledger (effect_input (w_call w) a committed) w of
             (Inl e, w') \<Rightarrow> set_attempt a (Ended (Some (RecordFailed ''ledger: record effect event'' e))) w'
           | (Inr _, w') \<Rightarrow> set_attempt a (Ended None) w')
      | _ \<Rightarrow> w)"

section \<open>The request: Checkout of the gateway, Process of the checkout\<close>

text \<open>The controller of the payment latency, when one is attached.\<close>

type_synonym latency_control = "(int \<Rightarrow> payment \<Rightarrow> string option \<times> payment) option"

text \<open>The gateway returns; a healthy run restores the latency, and an error of that is only logged.\<close>

definition gateway_return :: "latency_control \<Rightarrow> service_error + gateway_result \<Rightarrow> 'k world \<Rightarrow> 'k world" where
  "gateway_return ctl res w =
     (case ctl of
        Some set_latency \<Rightarrow>
          (if ca_healthy (w_call w) then w\<lparr>w_main := Returned res, w_payment := snd (set_latency 350 (w_payment w))\<rparr>
           else w\<lparr>w_main := Returned res\<rparr>)
      | None \<Rightarrow> w\<lparr>w_main := Returned res\<rparr>)"

definition gateway_enter :: "latency_control \<Rightarrow> gateway_request \<Rightarrow> 'k world \<Rightarrow> 'k world" where
  "gateway_enter ctl rq w =
     (case allocate rq (w_checkout_ids w) of (k, g) \<Rightarrow>
       (let healthy = (gq_scenario rq = ScenarioHealthy);
            w1 = w\<lparr>w_checkout_ids := g, w_call := (w_call w)\<lparr>ca_checkout := k, ca_healthy := False\<rparr>\<rparr>
        in if \<not> healthy then w1\<lparr>w_main := GatewayStart\<rparr>
        else case ctl of
            None \<Rightarrow> w1\<lparr>w_main := Returned (Inl (ServiceError ''gateway: healthy control requires a payment latency controller''))\<rparr>
          | Some set_latency \<Rightarrow>
              (case set_latency 50 (w_payment w1) of
                 (Some m, p) \<Rightarrow> w1\<lparr>w_payment := p, w_main := Returned (Inl (LatencyControl m))\<rparr>
               | (None, p) \<Rightarrow> w1\<lparr>w_payment := p, w_call := (w_call w1)\<lparr>ca_healthy := True\<rparr>, w_main := GatewayStart\<rparr>)))"

definition gateway_start :: "'k sink \<Rightarrow> civil \<Rightarrow> latency_control \<Rightarrow> 'k world \<Rightarrow> 'k world" where
  "gateway_start emit now ctl w =
     (case record_as emit now Gateway
          (base_input (w_call w) [] ''checkout'' OperationEntrypoint EventStart EventRunning 1) w of
        (Inl e, w') \<Rightarrow> gateway_return ctl (Inl (RecordFailed ''gateway: record entrypoint start event'' e)) w'
      | (Inr ev, w') \<Rightarrow> w'\<lparr>w_call := (w_call w')\<lparr>ca_gateway_start := ev_id ev\<rparr>, w_main := ProcessStart\<rparr>)"

definition launch :: "int \<Rightarrow> 'k world \<Rightarrow> 'k world" where
  "launch a w = set_attempt a Authorizing
     (w\<lparr>w_checkout := (w_checkout w)\<lparr>co_observed := co_observed (w_checkout w) + 1\<rparr>\<rparr>)"

definition timeout_attributes :: "call \<Rightarrow> go_object" where
  "timeout_attributes c = Some [(''checkout_timeout_ms'', go_int (ca_timeout c))]"

text \<open>The configuration is read, the start is recorded, the first attempt is launched.\<close>

definition process_start :: "'k sink \<Rightarrow> civil \<Rightarrow> latency_control \<Rightarrow> 'k world \<Rightarrow> 'k world" where
  "process_start emit now ctl w =
     (let c = (w_call w)\<lparr>ca_timeout := co_timeout (w_checkout w), ca_max := co_max (w_checkout w)\<rparr>
      in case record_as emit now Checkout
          ((base_input c (ca_gateway_start c) ''checkout.process'' OperationInternal EventStart EventRunning 1)
             \<lparr>ri_attributes := timeout_attributes c\<rparr>) w of
        (Inl e, w') \<Rightarrow> gateway_return ctl (Inl (RecordFailed ''checkout: record start event'' e)) w'
      | (Inr ev, w') \<Rightarrow> (launch 1 (w'\<lparr>w_call := c\<lparr>ca_start := ev_id ev\<rparr>\<rparr>))\<lparr>w_main := Selecting\<rparr>)"

definition record_timeout :: "'k sink \<Rightarrow> civil \<Rightarrow> latency_control \<Rightarrow> 'k world \<Rightarrow> 'k world" where
  "record_timeout emit now ctl w =
     (case record_as emit now Checkout
          ((base_input (w_call w) (ca_start (w_call w)) ''checkout.process'' OperationControl EventTimeout EventTimedOut 1)
             \<lparr>ri_attributes := timeout_attributes (w_call w)\<rparr>) w of
        (Inl e, w') \<Rightarrow> gateway_return ctl (Inl (RecordFailed ''checkout: record timeout event'' e)) w'
      | (Inr _, w') \<Rightarrow> w'\<lparr>w_main := (if 1 < ca_max (w_call w') then Retrying else Collecting 1)\<rparr>)"

definition record_retry :: "'k sink \<Rightarrow> civil \<Rightarrow> latency_control \<Rightarrow> 'k world \<Rightarrow> 'k world" where
  "record_retry emit now ctl w =
     (case record_as emit now Checkout
          (base_input (w_call w) (ca_start (w_call w)) ''checkout.process'' OperationControl EventRetry EventRunning 2) w of
        (Inl e, w') \<Rightarrow> gateway_return ctl (Inl (RecordFailed ''checkout: record retry event'' e)) w'
      | (Inr _, w') \<Rightarrow> (launch 2 w')\<lparr>w_main := Collecting 2\<rparr>)"

text \<open>All launched attempts are in: one of their errors is returned, or the completion is recorded.\<close>

definition process_complete :: "'k sink \<Rightarrow> civil \<Rightarrow> latency_control \<Rightarrow> int \<Rightarrow> 'k world \<Rightarrow> 'k world" where
  "process_complete emit now ctl n w =
     (case record_as emit now Checkout
          (base_input (w_call w) (ca_start (w_call w)) ''checkout.process'' OperationInternal EventComplete EventSuccess n) w of
        (Inl e, w') \<Rightarrow> gateway_return ctl (Inl (RecordFailed ''checkout: record complete event'' e)) w'
      | (Inr _, w') \<Rightarrow> w'\<lparr>w_main := GatewayComplete n\<rparr>)"

definition gateway_complete :: "'k sink \<Rightarrow> civil \<Rightarrow> latency_control \<Rightarrow> int \<Rightarrow> 'k world \<Rightarrow> 'k world" where
  "gateway_complete emit now ctl n w =
     (case record_as emit now Gateway
          (base_input (w_call w) (ca_gateway_start (w_call w)) ''checkout'' OperationEntrypoint EventComplete EventSuccess n) w of
        (Inl e, w') \<Rightarrow> gateway_return ctl (Inl (RecordFailed ''gateway: record entrypoint complete event'' e)) w'
      | (Inr _, w') \<Rightarrow> gateway_return ctl (Inr \<lparr>gr_trace = ca_trace (w_call w'), gr_execution = ca_execution (w_call w'),
          gr_logical = ca_logical (w_call w'), gr_attempts = n\<rparr>) w')"

section \<open>Steps\<close>

definition running_attempt :: "attempt_pc \<Rightarrow> bool" where
  "running_attempt pc \<longleftrightarrow> pc \<noteq> NotLaunched \<and> (\<forall>e. pc \<noteq> Ended e)"

definition launched :: "int \<Rightarrow> int set" where
  "launched n = {1..n}"

text \<open>Every step may read the clock, which shows a date of the calendar.\<close>

inductive step :: "'k sink \<Rightarrow> latency_control \<Rightarrow> 'k world \<Rightarrow> 'k world \<Rightarrow> bool" for emit ctl where
  enter: "w_main w = GatewayEntry rq \<Longrightarrow> step emit ctl w (gateway_enter ctl rq w)"
| start: "w_main w = GatewayStart \<Longrightarrow> civil_ok now \<Longrightarrow> step emit ctl w (gateway_start emit now ctl w)"
| process: "w_main w = ProcessStart \<Longrightarrow> civil_ok now \<Longrightarrow> step emit ctl w (process_start emit now ctl w)"
| first_done: "w_main w = Selecting \<Longrightarrow> w_attempt w 1 = Ended e \<Longrightarrow> step emit ctl w (w\<lparr>w_main := Collecting 1\<rparr>)"
| timer: "w_main w = Selecting \<Longrightarrow> step emit ctl w (w\<lparr>w_main := TimerFired\<rparr>)"
| timed_out: "w_main w = TimerFired \<Longrightarrow> civil_ok now \<Longrightarrow> step emit ctl w (record_timeout emit now ctl w)"
| retry: "w_main w = Retrying \<Longrightarrow> civil_ok now \<Longrightarrow> step emit ctl w (record_retry emit now ctl w)"
| failed: "w_main w = Collecting n \<Longrightarrow> \<forall>a\<in>launched n. \<exists>e. w_attempt w a = Ended e \<Longrightarrow> a \<in> launched n
    \<Longrightarrow> w_attempt w a = Ended (Some err) \<Longrightarrow> step emit ctl w (gateway_return ctl (Inl err) w)"
| collected: "w_main w = Collecting n \<Longrightarrow> \<forall>a\<in>launched n. w_attempt w a = Ended None
    \<Longrightarrow> civil_ok now \<Longrightarrow> step emit ctl w (process_complete emit now ctl n w)"
| complete: "w_main w = GatewayComplete n \<Longrightarrow> civil_ok now \<Longrightarrow> step emit ctl w (gateway_complete emit now ctl n w)"
| attempt: "running_attempt (w_attempt w a) \<Longrightarrow> civil_ok now \<Longrightarrow> step emit ctl w (attempt_step emit now a w)"

text \<open>The request with nothing set, and a world before a request: fresh services and recorders.\<close>

definition plain_request :: gateway_request where
  "plain_request = \<lparr>gq_checkout = [], gq_scenario = []\<rparr>"

definition component_name :: "component \<Rightarrow> string" where
  "component_name c = (case c of Gateway \<Rightarrow> ''gateway'' | Checkout \<Rightarrow> ''checkout'' | Payment \<Rightarrow> ''payment'' | Ledger \<Rightarrow> ''ledger'')"

definition component_of :: "component \<Rightarrow> component_ref" where
  "component_of c = \<lparr>comp_name = component_name c, comp_instance = component_name c @ ''-1''\<rparr>"

definition new_call :: call where
  "new_call = \<lparr>ca_healthy = False, ca_checkout = [], ca_gateway_start = [], ca_start = [], ca_timeout = 0, ca_max = 0\<rparr>"

definition new_world :: "id_generator \<Rightarrow> 'k \<Rightarrow> int \<Rightarrow> bool \<Rightarrow> gateway_request \<Rightarrow> 'k world" where
  "new_world g s latency dedup rq =
     \<lparr>w_ids = g, w_checkout_ids = NewIDGenerator DefaultCheckoutSeed,
       w_recs = (\<lambda>c. NewRecorder (component_of c)), w_sink = s,
       w_payment = SetLatencyMs latency (payment_reset \<lparr>pay_latency = 0, pay_attempts = 0\<rparr>),
       w_ledger = SetDeduplicationEnabled dedup (ledger_reset \<lparr>led_dedup = False, led_effects = [], led_first = Map.empty\<rparr>),
       w_checkout = checkout_reset \<lparr>co_timeout = 0, co_max = 0, co_observed = 0\<rparr>,
       w_call = new_call, w_main = GatewayEntry rq, w_attempt = (\<lambda>_. NotLaunched)\<rparr>"

end
