(* ===== verification/ServicesSteps.thy ===== *)
theory ServicesSteps
  imports Services CheckoutPack
begin

text \<open>
  The steps of one checkout, case by case, and what every step keeps: which goroutines run at which point of the
  request, what the ledger holds, and which events the sink has received.
\<close>

section \<open>Program counters\<close>

text \<open>Which goroutines exist at which point of the request.\<close>

definition before_commit :: "attempt_pc \<Rightarrow> bool" where
  "before_commit pc \<longleftrightarrow> (case pc of Committed _ \<Rightarrow> False | Ended _ \<Rightarrow> False | _ \<Rightarrow> True)"

definition collected_pcs :: "int \<Rightarrow> 'k world \<Rightarrow> bool" where
  "collected_pcs n w \<longleftrightarrow> w_attempt w 1 = Ended None
     \<and> (n = 1 \<and> w_attempt w 2 = NotLaunched \<or> n = 2 \<and> w_attempt w 2 = Ended None)"

definition pcs_ok :: "'k world \<Rightarrow> bool" where
  "pcs_ok w \<longleftrightarrow> co_max (w_checkout w) = 2 \<and> (\<forall>a. a \<noteq> 1 \<and> a \<noteq> 2 \<longrightarrow> w_attempt w a = NotLaunched)
     \<and> (case w_main w of
          GatewayEntry _ \<Rightarrow> w_attempt w 1 = NotLaunched \<and> w_attempt w 2 = NotLaunched
        | GatewayStart \<Rightarrow> w_attempt w 1 = NotLaunched \<and> w_attempt w 2 = NotLaunched
        | ProcessStart \<Rightarrow> w_attempt w 1 = NotLaunched \<and> w_attempt w 2 = NotLaunched
        | Selecting \<Rightarrow> w_attempt w 1 \<noteq> NotLaunched \<and> w_attempt w 2 = NotLaunched \<and> ca_max (w_call w) = 2
        | TimerFired \<Rightarrow> w_attempt w 1 \<noteq> NotLaunched \<and> w_attempt w 2 = NotLaunched \<and> ca_max (w_call w) = 2
        | Retrying \<Rightarrow> w_attempt w 1 \<noteq> NotLaunched \<and> w_attempt w 2 = NotLaunched
        | Collecting n \<Rightarrow> w_attempt w 1 \<noteq> NotLaunched
            \<and> (n = 1 \<and> w_attempt w 2 = NotLaunched \<or> n = 2 \<and> w_attempt w 2 \<noteq> NotLaunched)
        | GatewayComplete n \<Rightarrow> collected_pcs n w
        | Returned (Inr r) \<Rightarrow> collected_pcs (gr_attempts r) w
        | Returned (Inl _) \<Rightarrow> w_attempt w 1 = NotLaunched \<longrightarrow> w_attempt w 2 = NotLaunched)"

text \<open>A record changes the recorder, the generator and the sink only.\<close>

definition recorded_in :: "'k world \<Rightarrow> 'k world \<Rightarrow> bool" where
  "recorded_in w w' \<longleftrightarrow> w_payment w' = w_payment w \<and> w_ledger w' = w_ledger w \<and> w_checkout w' = w_checkout w
     \<and> w_call w' = w_call w \<and> w_main w' = w_main w \<and> w_attempt w' = w_attempt w \<and> w_checkout_ids w' = w_checkout_ids w"

lemma record_as_frame: "record_as emit now c i w = (res, w') \<Longrightarrow> recorded_in w w'"
  by (auto simp: record_as_def recorded_in_def split: prod.splits)

lemma gateway_return_frame [simp]:
  "w_main (gateway_return ctl res w) = Returned res" "w_attempt (gateway_return ctl res w) = w_attempt w"
  "w_checkout (gateway_return ctl res w) = w_checkout w" "w_ledger (gateway_return ctl res w) = w_ledger w"
  "w_sink (gateway_return ctl res w) = w_sink w" "w_call (gateway_return ctl res w) = w_call w"
  "w_ids (gateway_return ctl res w) = w_ids w"
  by (simp_all add: gateway_return_def split: option.split)

lemma launched_sets [simp]: "launched 1 = {1}" "launched 2 = {1, 2}"
  by (auto simp: launched_def)

text \<open>What a step of an attempt does, by its program counter.\<close>

lemma attempt_step_cases:
  assumes "running_attempt (w_attempt w a)" and "1 \<le> a"
  obtains (admit) w1 where "w_attempt w a = Authorizing"
      "attempt_step emit now a w = set_attempt a (Admitted (pay_latency (w_payment w))) w1"
      "w1 = w\<lparr>w_payment := (w_payment w)\<lparr>pay_attempts := pay_attempts (w_payment w) + 1\<rparr>\<rparr>"
  | (commit) b l w1 where "w_attempt w a = Approved" "commit_effect (ca_checkout (w_call w)) a (w_ledger w) = (b, l)"
      "attempt_step emit now a w = set_attempt a (Committed b) w1" "w1 = w\<lparr>w_ledger := l\<rparr>"
  | (fails) c i e w1 err where "record_as emit now c i w = (Inl e, w1)" "recorded_in w w1"
      "attempt_step emit now a w = set_attempt a (Ended (Some err)) w1"
  | (emits) c i ev w1 pc where "record_as emit now c i w = (Inr ev, w1)" "recorded_in w w1"
      "attempt_step emit now a w = set_attempt a pc w1"
      "(\<exists>l. w_attempt w a = Admitted l \<and> i = payment_start_input (w_call w) a l \<and> pc = Sleeping l)
       \<or> (\<exists>l. w_attempt w a = Sleeping l \<and> i = payment_complete_input (w_call w) a l \<and> pc = Approved)
       \<or> (\<exists>b. w_attempt w a = Committed b \<and> i = effect_input (w_call w) a b \<and> pc = Ended None)"
proof (cases "w_attempt w a")
  case Authorizing
  then show ?thesis using admit assms(2) by (simp add: attempt_step_def)
next
  case (Admitted l)
  obtain res w1 where r: "record_as emit now Payment (payment_start_input (w_call w) a l) w = (res, w1)" by fastforce
  show ?thesis
  proof (cases res)
    case (Inl e)
    show ?thesis by (rule fails [OF r [unfolded Inl] record_as_frame [OF r]]) (use Admitted r Inl in \<open>simp add: attempt_step_def\<close>)
  next
    case (Inr ev)
    show ?thesis by (rule emits [OF r [unfolded Inr] record_as_frame [OF r], of "Sleeping l"]) (use Admitted r Inr in \<open>simp_all add: attempt_step_def\<close>)
  qed
next
  case (Sleeping l)
  obtain res w1 where r: "record_as emit now Payment (payment_complete_input (w_call w) a l) w = (res, w1)" by fastforce
  show ?thesis
  proof (cases res)
    case (Inl e)
    show ?thesis by (rule fails [OF r [unfolded Inl] record_as_frame [OF r]]) (use Sleeping r Inl in \<open>simp add: attempt_step_def\<close>)
  next
    case (Inr ev)
    show ?thesis by (rule emits [OF r [unfolded Inr] record_as_frame [OF r], of Approved]) (use Sleeping r Inr in \<open>simp_all add: attempt_step_def\<close>)
  qed
next
  case Approved
  obtain b l where "commit_effect (ca_checkout (w_call w)) a (w_ledger w) = (b, l)" by fastforce
  then show ?thesis using commit Approved assms(2) by (simp add: attempt_step_def)
next
  case (Committed b)
  obtain res w1 where r: "record_as emit now Ledger (effect_input (w_call w) a b) w = (res, w1)" by fastforce
  show ?thesis
  proof (cases res)
    case (Inl e)
    show ?thesis by (rule fails [OF r [unfolded Inl] record_as_frame [OF r]]) (use Committed r Inl in \<open>simp add: attempt_step_def\<close>)
  next
    case (Inr ev)
    show ?thesis by (rule emits [OF r [unfolded Inr] record_as_frame [OF r], of "Ended None"]) (use Committed r Inr in \<open>simp_all add: attempt_step_def\<close>)
  qed
qed (use assms(1) in \<open>simp_all add: running_attempt_def\<close>)

lemma attempt_step_shape:
  assumes "running_attempt (w_attempt w a)" and "1 \<le> a"
  shows "\<exists>w1 pc. attempt_step emit now a w = set_attempt a pc w1 \<and> pc \<noteq> NotLaunched \<and> w_main w1 = w_main w
    \<and> w_attempt w1 = w_attempt w \<and> w_checkout w1 = w_checkout w \<and> w_call w1 = w_call w"
  using assms
proof (cases w a rule: attempt_step_cases [where emit = emit and now = now])
  case (admit w1)
  then show ?thesis by (intro exI [of _ w1]) auto
next
  case (commit b l w1)
  then show ?thesis by (intro exI [of _ w1]) auto
next
  case (fails c i e w1 err)
  then show ?thesis by (intro exI [of _ w1] exI [of _ "Ended (Some err)"]) (simp add: recorded_in_def)
next
  case (emits c i ev w1 pc)
  then have "pc \<noteq> NotLaunched" by auto
  with emits show ?thesis by (intro exI [of _ w1] exI [of _ pc]) (simp add: recorded_in_def)
qed

lemma pcs_ok_attempt:
  assumes ok: "pcs_ok w" and run: "running_attempt (w_attempt w a)" and pc: "pc \<noteq> NotLaunched"
    and w': "w_main w' = w_main w" "w_checkout w' = w_checkout w" "w_call w' = w_call w" "w_attempt w' = (w_attempt w)(a := pc)"
  shows "pcs_ok w'"
proof -
  have a: "a = 1 \<or> a = 2" using run ok by (auto simp: pcs_ok_def running_attempt_def)
  have r: "w_attempt w a \<noteq> NotLaunched" "\<forall>e. w_attempt w a \<noteq> Ended e" using run by (simp_all add: running_attempt_def)
  show ?thesis
  proof (cases "w_main w")
    case (Returned res)
    then show ?thesis using ok a r pc w' by (cases res) (auto simp: pcs_ok_def collected_pcs_def)
  qed (use ok a r pc w' in \<open>auto simp: pcs_ok_def collected_pcs_def\<close>)
qed

text \<open>What a step of the request does: it gives up, chooses, or records an event and moves on.\<close>

definition main_signature :: "string \<Rightarrow> operation_kind \<Rightarrow> event_type \<Rightarrow> int \<Rightarrow> signature" where
  "main_signature k kind ty a = (k, ty, kind, a, None)"

lemma base_signature [simp]:
  "input_signature (base_input c p nm kind ty st a) = main_signature (ca_logical c) kind ty a"
  "input_signature ((base_input c p nm kind ty st a)\<lparr>ri_attributes := timeout_attributes c'\<rparr>) = main_signature (ca_logical c) kind ty a"
  by (simp_all add: input_signature_def base_input_def main_signature_def lookup_key_def timeout_attributes_def)

lemma ca_logical_update [simp]:
  "ca_logical (c\<lparr>ca_timeout := t, ca_max := m\<rparr>) = ca_logical c" "ca_logical (c\<lparr>ca_start := p\<rparr>) = ca_logical c"
  "ca_logical (c\<lparr>ca_gateway_start := p\<rparr>) = ca_logical c" "ca_logical (c\<lparr>ca_start := p, ca_timeout := t, ca_max := m\<rparr>) = ca_logical c"
  by (simp_all add: ca_logical_def)

definition gave_up :: "'k world \<Rightarrow> 'k world \<Rightarrow> bool" where
  "gave_up w w' \<longleftrightarrow> (\<exists>err. w_main w' = Returned (Inl err)) \<and> w_attempt w' = w_attempt w \<and> w_checkout w' = w_checkout w
     \<and> w_ledger w' = w_ledger w \<and> (w_call w' = w_call w \<or> (\<exists>rq. w_main w = GatewayEntry rq))"

definition refused_in :: "'k sink \<Rightarrow> 'k world \<Rightarrow> 'k world \<Rightarrow> bool" where
  "refused_in emit w w' \<longleftrightarrow> w_sink w' = w_sink w \<or> (\<exists>now c i e w1. record_as emit now c i w = (Inl e, w1) \<and> w_sink w' = w_sink w1)"

lemma refused_inI: "record_as emit now c i w = (Inl e, w1) \<Longrightarrow> w_sink w' = w_sink w1 \<Longrightarrow> refused_in emit w w'"
  unfolding refused_in_def by blast

lemma refused_in_same: "w_sink w' = w_sink w \<Longrightarrow> refused_in emit w w'"
  by (simp add: refused_in_def)

definition entered :: "'k world \<Rightarrow> 'k world \<Rightarrow> bool" where
  "entered w w' \<longleftrightarrow> (\<exists>rq. w_main w = GatewayEntry rq) \<and> w_main w' = GatewayStart \<and> w_attempt w' = w_attempt w
     \<and> w_checkout w' = w_checkout w \<and> w_ledger w' = w_ledger w \<and> w_sink w' = w_sink w \<and> w_ids w' = w_ids w"

definition chosen :: "'k world \<Rightarrow> 'k world \<Rightarrow> bool" where
  "chosen w w' \<longleftrightarrow> w_main w = Selecting \<and> (w' = w\<lparr>w_main := TimerFired\<rparr> \<or> w' = w\<lparr>w_main := Collecting 1\<rparr>)"

text \<open>The move of the request after a successful record with signature \<open>sg\<close>.\<close>

definition moved :: "'k world \<Rightarrow> signature \<Rightarrow> 'k world \<Rightarrow> bool" where
  "moved w sg w' \<longleftrightarrow> (let k = ca_logical (w_call w) in
     w_main w = GatewayStart \<and> w_main w' = ProcessStart \<and> sg = main_signature k OperationEntrypoint EventStart 1
       \<and> w_attempt w' = w_attempt w
     \<or> w_main w = ProcessStart \<and> w_main w' = Selecting \<and> sg = main_signature k OperationInternal EventStart 1
       \<and> w_attempt w' = (w_attempt w)(1 := Authorizing) \<and> ca_max (w_call w') = co_max (w_checkout w)
     \<or> w_main w = TimerFired \<and> w_main w' = (if 1 < ca_max (w_call w) then Retrying else Collecting 1)
       \<and> sg = main_signature k OperationControl EventTimeout 1 \<and> w_attempt w' = w_attempt w
     \<or> w_main w = Retrying \<and> w_main w' = Collecting 2 \<and> sg = main_signature k OperationControl EventRetry 2
       \<and> w_attempt w' = (w_attempt w)(2 := Authorizing)
     \<or> (\<exists>n. w_main w = Collecting n \<and> w_main w' = GatewayComplete n \<and> (\<forall>a\<in>launched n. w_attempt w a = Ended None)
         \<and> sg = main_signature k OperationInternal EventComplete n \<and> w_attempt w' = w_attempt w)
     \<or> (\<exists>n r. w_main w = GatewayComplete n \<and> w_main w' = Returned (Inr r) \<and> gr_attempts r = n
         \<and> sg = main_signature k OperationEntrypoint EventComplete n \<and> w_attempt w' = w_attempt w))"

lemma step_cases:
  assumes "step emit ctl w w'"
  obtains (gave_up) "gave_up w w'"
    "refused_in emit w w'"
  | (entered) "entered w w'"
  | (chosen) "chosen w w'"
  | (moved) now c i ev w1 where "record_as emit now c i w = (Inr ev, w1)" "moved w (input_signature i) w'"
      "w_sink w' = w_sink w1" "w_ledger w' = w_ledger w" "ca_checkout (w_call w') = ca_checkout (w_call w)"
      "co_max (w_checkout w') = co_max (w_checkout w)"
  | (works) a now where "running_attempt (w_attempt w a)" "w' = attempt_step emit now a w" "civil_ok now"
  using assms
proof (cases rule: step.cases)
  case (enter rq)
  obtain k g where al: "allocate rq (w_checkout_ids w) = (k, g)" by fastforce
  have e: "(w_main w' = GatewayStart \<or> (\<exists>err. w_main w' = Returned (Inl err))) \<and> w_attempt w' = w_attempt w
      \<and> w_checkout w' = w_checkout w \<and> w_ledger w' = w_ledger w \<and> w_sink w' = w_sink w \<and> w_ids w' = w_ids w"
    unfolding enter(1) by (simp add: gateway_enter_def Let_def al split: option.split prod.split)
  show ?thesis
  proof (cases "w_main w' = GatewayStart")
    case True
    show ?thesis by (rule entered) (use e True enter in \<open>auto simp: entered_def\<close>)
  next
    case False
    show ?thesis by (rule gave_up [OF _ refused_in_same]) (use e False enter in \<open>auto simp: gave_up_def\<close>)
  qed
next
  case (start now)
  obtain res w1 where r: "record_as emit now Gateway
      (base_input (w_call w) [] ''checkout'' OperationEntrypoint EventStart EventRunning 1) w = (res, w1)" by fastforce
  note fr = record_as_frame [OF r, unfolded recorded_in_def]
  show ?thesis
  proof (cases res)
    case (Inl e)
    show ?thesis by (rule gave_up [OF _ refused_inI [OF r [unfolded Inl]]]) (use start r Inl fr in \<open>auto simp: gateway_start_def gave_up_def\<close>)
  next
    case (Inr ev)
    show ?thesis by (rule moved [OF r [unfolded Inr]]) (use start r Inr fr in \<open>simp_all add: gateway_start_def moved_def Let_def\<close>)
  qed
next
  case (process now)
  let ?c = "(w_call w)\<lparr>ca_timeout := co_timeout (w_checkout w), ca_max := co_max (w_checkout w)\<rparr>"
  obtain res w1 where r: "record_as emit now Checkout
      ((base_input ?c (ca_gateway_start ?c) ''checkout.process'' OperationInternal EventStart EventRunning 1)
         \<lparr>ri_attributes := timeout_attributes ?c\<rparr>) w = (res, w1)" by fastforce
  note fr = record_as_frame [OF r, unfolded recorded_in_def]
  show ?thesis
  proof (cases res)
    case (Inl e)
    show ?thesis by (rule gave_up [OF _ refused_inI [OF r [unfolded Inl]]]) (use process r Inl fr in \<open>auto simp: process_start_def Let_def gave_up_def\<close>)
  next
    case (Inr ev)
    show ?thesis by (rule moved [OF r [unfolded Inr]])
      (use process r Inr fr in \<open>simp_all add: process_start_def moved_def Let_def launch_def set_attempt_def\<close>)
  qed
next
  case (first_done e)
  then show ?thesis using chosen by (simp add: chosen_def)
next
  case timer
  then show ?thesis using chosen by (simp add: chosen_def)
next
  case (timed_out now)
  obtain res w1 where r: "record_as emit now Checkout
      ((base_input (w_call w) (ca_start (w_call w)) ''checkout.process'' OperationControl EventTimeout EventTimedOut 1)
         \<lparr>ri_attributes := timeout_attributes (w_call w)\<rparr>) w = (res, w1)" by fastforce
  note fr = record_as_frame [OF r, unfolded recorded_in_def]
  show ?thesis
  proof (cases res)
    case (Inl e)
    show ?thesis by (rule gave_up [OF _ refused_inI [OF r [unfolded Inl]]]) (use timed_out r Inl fr in \<open>auto simp: record_timeout_def gave_up_def\<close>)
  next
    case (Inr ev)
    show ?thesis by (rule moved [OF r [unfolded Inr]]) (use timed_out r Inr fr in \<open>simp_all add: record_timeout_def moved_def Let_def\<close>)
  qed
next
  case (retry now)
  obtain res w1 where r: "record_as emit now Checkout
      (base_input (w_call w) (ca_start (w_call w)) ''checkout.process'' OperationControl EventRetry EventRunning 2) w = (res, w1)" by fastforce
  note fr = record_as_frame [OF r, unfolded recorded_in_def]
  show ?thesis
  proof (cases res)
    case (Inl e)
    show ?thesis by (rule gave_up [OF _ refused_inI [OF r [unfolded Inl]]]) (use retry r Inl fr in \<open>auto simp: record_retry_def gave_up_def\<close>)
  next
    case (Inr ev)
    show ?thesis by (rule moved [OF r [unfolded Inr]])
      (use retry r Inr fr in \<open>simp_all add: record_retry_def moved_def Let_def launch_def set_attempt_def\<close>)
  qed
next
  case (failed n a err)
  show ?thesis by (rule gave_up [OF _ refused_in_same]) (use failed in \<open>auto simp: gave_up_def\<close>)
next
  case (collected n now)
  obtain res w1 where r: "record_as emit now Checkout
      (base_input (w_call w) (ca_start (w_call w)) ''checkout.process'' OperationInternal EventComplete EventSuccess n) w = (res, w1)" by fastforce
  note fr = record_as_frame [OF r, unfolded recorded_in_def]
  show ?thesis
  proof (cases res)
    case (Inl e)
    show ?thesis by (rule gave_up [OF _ refused_inI [OF r [unfolded Inl]]]) (use collected r Inl fr in \<open>auto simp: process_complete_def gave_up_def\<close>)
  next
    case (Inr ev)
    show ?thesis by (rule moved [OF r [unfolded Inr]]) (use collected r Inr fr in \<open>simp_all add: process_complete_def moved_def Let_def\<close>)
  qed
next
  case (complete n now)
  obtain res w1 where r: "record_as emit now Gateway
      (base_input (w_call w) (ca_gateway_start (w_call w)) ''checkout'' OperationEntrypoint EventComplete EventSuccess n) w = (res, w1)" by fastforce
  note fr = record_as_frame [OF r, unfolded recorded_in_def]
  show ?thesis
  proof (cases res)
    case (Inl e)
    show ?thesis by (rule gave_up [OF _ refused_inI [OF r [unfolded Inl]]]) (use complete r Inl fr in \<open>auto simp: gateway_complete_def gave_up_def\<close>)
  next
    case (Inr ev)
    show ?thesis by (rule moved [OF r [unfolded Inr]]) (use complete r Inr fr in \<open>simp_all add: gateway_complete_def moved_def Let_def\<close>)
  qed
next
  case (attempt a now)
  then show ?thesis using works by blast
qed

lemma step_pcs:
  assumes "step emit ctl w w'" and ok: "pcs_ok w"
  shows "pcs_ok w'"
  using assms(1)
proof (cases rule: step_cases)
  case gave_up
  then show ?thesis using ok by (auto simp: gave_up_def pcs_ok_def collected_pcs_def split: main_pc.splits sum.splits)
next
  case entered
  then show ?thesis using ok by (auto simp: entered_def pcs_ok_def)
next
  case chosen
  then show ?thesis using ok by (auto simp: chosen_def pcs_ok_def)
next
  case (moved now c i ev w1)
  from moved(2) show ?thesis unfolding moved_def Let_def
    using ok moved(6) by (elim disjE exE conjE) (simp_all add: pcs_ok_def collected_pcs_def, auto)
next
  case (works a now)
  have a: "a = 1 \<or> a = 2" using works(1) ok by (auto simp: pcs_ok_def running_attempt_def)
  then have a1: "1 \<le> a" by auto
  obtain w1 pc where w1: "attempt_step emit now a w = set_attempt a pc w1" "pc \<noteq> NotLaunched"
    "w_main w1 = w_main w" "w_attempt w1 = w_attempt w" "w_checkout w1 = w_checkout w" "w_call w1 = w_call w"
    using attempt_step_shape [OF works(1) a1, of emit now] by (elim exE conjE)
  show ?thesis unfolding works(2)
    by (rule pcs_ok_attempt [OF ok works(1) w1(2)]) (simp_all add: w1 set_attempt_def)
qed

section \<open>The ledger\<close>

lemma effect_keys [simp]: "EffectKey k 1 \<noteq> EffectKey k 2" "EffectKey k 2 \<noteq> EffectKey k 1"
proof -
  have "int_dec 1 \<noteq> int_dec 2" by code_simp
  then show "EffectKey k 1 \<noteq> EffectKey k 2" "EffectKey k 2 \<noteq> EffectKey k 1" by (auto simp: EffectKey_def)
qed

definition effect_key :: "'k world \<Rightarrow> int \<Rightarrow> string" where
  "effect_key w a = EffectKey (ca_checkout (w_call w)) a"

definition after_commit :: "attempt_pc \<Rightarrow> bool" where
  "after_commit pc \<longleftrightarrow> pc = Ended None \<or> (\<exists>b. pc = Committed b)"

definition attempt_ledger :: "'k world \<Rightarrow> int \<Rightarrow> bool" where
  "attempt_ledger w a \<longleftrightarrow> (before_commit (w_attempt w a) \<longrightarrow> effect_key w a \<notin> set (led_effects (w_ledger w)))
     \<and> (\<forall>b. w_attempt w a = Committed b \<longrightarrow> b = (effect_key w a \<in> set (led_effects (w_ledger w))))
     \<and> (after_commit (w_attempt w a) \<longrightarrow>
          (if led_dedup (w_ledger w) then led_effects (w_ledger w) \<noteq> [] else effect_key w a \<in> set (led_effects (w_ledger w))))"

lemma before_commit_simps [simp]:
  "before_commit NotLaunched" "before_commit Authorizing" "before_commit (Admitted l)" "before_commit (Sleeping l)"
  "before_commit Approved" "\<not> before_commit (Committed b)" "\<not> before_commit (Ended e)"
  "after_commit (Committed b)" "after_commit (Ended None)" "\<not> after_commit (Ended (Some err))"
  by (simp_all add: before_commit_def after_commit_def)

lemma before_not_after: "before_commit pc \<Longrightarrow> \<not> after_commit pc \<and> pc \<noteq> Committed b"
  by (auto simp: after_commit_def)

definition ledger_ok :: "'k world \<Rightarrow> bool" where
  "ledger_ok w \<longleftrightarrow> distinct (led_effects (w_ledger w)) \<and> set (led_effects (w_ledger w)) \<subseteq> {effect_key w 1, effect_key w 2}
     \<and> (led_dedup (w_ledger w) \<longrightarrow> length (led_effects (w_ledger w)) \<le> 1
          \<and> (led_first (w_ledger w) (ca_checkout (w_call w)) \<noteq> None \<longleftrightarrow> led_effects (w_ledger w) \<noteq> []))
     \<and> (w_attempt w 1 = NotLaunched \<longrightarrow> led_effects (w_ledger w) = [] \<and> led_first (w_ledger w) = Map.empty)
     \<and> attempt_ledger w 1 \<and> attempt_ledger w 2"

text \<open>A step that leaves the ledger alone: an attempt may begin, move on, fail, or end after its commit.\<close>

definition quiet :: "attempt_pc \<Rightarrow> attempt_pc \<Rightarrow> bool" where
  "quiet pc pc' \<longleftrightarrow> pc' = pc \<or> (\<exists>e. pc' = Ended (Some e)) \<or> before_commit pc \<and> before_commit pc' \<and> pc' \<noteq> NotLaunched
     \<or> (\<exists>b. pc = Committed b \<and> pc' = Ended None)"

lemma ledger_ok_quiet:
  assumes ok: "ledger_ok w" and same: "w_ledger w' = w_ledger w" "ca_checkout (w_call w') = ca_checkout (w_call w)"
    and q: "quiet (w_attempt w 1) (w_attempt w' 1)" "quiet (w_attempt w 2) (w_attempt w' 2)"
  shows "ledger_ok w'"
proof -
  have key: "effect_key w' = effect_key w" using same by (simp add: effect_key_def fun_eq_iff)
  have att: "attempt_ledger w' a" if "attempt_ledger w a" "quiet (w_attempt w a) (w_attempt w' a)" for a
    using that unfolding attempt_ledger_def quiet_def key same(1)
    by (elim disjE exE conjE) (auto dest: before_not_after)
  have "w_attempt w 1 = NotLaunched" if "w_attempt w' 1 = NotLaunched" using q(1) that by (auto simp: quiet_def)
  with ok att q show ?thesis by (simp add: ledger_ok_def key same)
qed

text \<open>The commit of an attempt.\<close>

lemma ledger_ok_commit:
  assumes ok: "ledger_ok w" and a: "a = 1 \<or> a = 2" and pc: "w_attempt w a = Approved"
    and first: "w_attempt w 1 \<noteq> NotLaunched"
    and commit: "commit_effect (ca_checkout (w_call w)) a (w_ledger w) = (b, l)"
    and w': "w_ledger w' = l" "w_call w' = w_call w" "w_attempt w' = (w_attempt w)(a := Committed b)"
  shows "ledger_ok w' \<and> led_dedup l = led_dedup (w_ledger w)"
proof -
  have key: "effect_key w' = effect_key w" "EffectKey (ca_checkout (w_call w)) a = effect_key w a"
    using w' by (simp_all add: effect_key_def fun_eq_iff)
  let ?E = "led_effects (w_ledger w)" and ?k = "ca_checkout (w_call w)" and ?d = "led_dedup (w_ledger w)"
  have fresh: "effect_key w a \<notin> set ?E"
    using ok a pc by (auto simp: ledger_ok_def attempt_ledger_def)
  define c where "c = (if a = 1 then 2 else 1 :: int)"
  have c: "c \<noteq> a" "{a, c} = {1, 2}" "effect_key w c \<noteq> effect_key w a" using a by (auto simp: c_def effect_key_def)
  have okc: "attempt_ledger w c" "distinct ?E" "set ?E \<subseteq> {effect_key w 1, effect_key w 2}"
      "?d \<Longrightarrow> length ?E \<le> 1" "?d \<Longrightarrow> (led_first (w_ledger w) ?k \<noteq> None) = (?E \<noteq> [])"
    using ok a by (auto simp: ledger_ok_def c_def)
  have l: "led_dedup l = ?d" "led_effects l = (if b then ?E @ [effect_key w a] else ?E)"
    "b = (?d \<longrightarrow> ?E = [])" "?d \<Longrightarrow> led_first l ?k \<noteq> None"
    using commit key(2) okc(5) by (auto simp: commit_effect_def Let_def split: if_splits)
  have own: "attempt_ledger w' a"
    unfolding attempt_ledger_def key(1) w'(1,3) l using fresh l(3) by (cases ?d) auto
  have "attempt_ledger w' c"
    using okc(1) c(1,3) unfolding attempt_ledger_def key(1) w'(1,3) l by auto
  with own have att: "attempt_ledger w' 1 \<and> attempt_ledger w' 2" using a by (auto simp: c_def split: if_splits)
  have keys: "effect_key w a = effect_key w 1 \<or> effect_key w a = effect_key w 2" using a by auto
  have "distinct (led_effects l)" "set (led_effects l) \<subseteq> {effect_key w 1, effect_key w 2}" "?d \<Longrightarrow> length (led_effects l) \<le> 1"
      "?d \<Longrightarrow> (led_first l ?k \<noteq> None) = (led_effects l \<noteq> [])"
    using okc(2-5) l fresh keys by auto
  moreover have "w_attempt w' 1 \<noteq> NotLaunched" using first w'(3) by simp
  ultimately show ?thesis using att l(1) by (simp add: ledger_ok_def key(1) w')
qed


lemma ledger_ok_idle:
  assumes "ledger_ok w" and "w_ledger w' = w_ledger w" and "w_attempt w' = w_attempt w"
    and "w_attempt w 1 = NotLaunched" "w_attempt w 2 = NotLaunched"
  shows "ledger_ok w'"
  using assms by (simp add: ledger_ok_def attempt_ledger_def after_commit_def)

lemma quiet_refl [simp]: "quiet pc pc"
  by (simp add: quiet_def)

lemma step_ledger:
  assumes "step emit ctl w w'" and pcs: "pcs_ok w" and ok: "ledger_ok w"
  shows "ledger_ok w' \<and> led_dedup (w_ledger w') = led_dedup (w_ledger w)"
  using assms(1)
proof (cases rule: step_cases)
  case gave_up
  show ?thesis
  proof (cases "w_call w' = w_call w")
    case True
    with gave_up(1) ok show ?thesis by (auto simp: gave_up_def intro: ledger_ok_quiet)
  next
    case False
    with gave_up(1) pcs have "w_attempt w 1 = NotLaunched" "w_attempt w 2 = NotLaunched" by (auto simp: gave_up_def pcs_ok_def)
    with gave_up(1) ok show ?thesis by (auto simp: gave_up_def intro: ledger_ok_idle)
  qed
next
  case entered
  with pcs have "w_attempt w 1 = NotLaunched" "w_attempt w 2 = NotLaunched" by (auto simp: entered_def pcs_ok_def)
  with entered ok show ?thesis by (auto simp: entered_def intro: ledger_ok_idle)
next
  case chosen
  then have "w_ledger w' = w_ledger w" "w_call w' = w_call w" "w_attempt w' = w_attempt w" by (auto simp: chosen_def)
  with ok show ?thesis by (auto intro: ledger_ok_quiet)
next
  case (moved now c i ev w1)
  have "quiet (w_attempt w 1) (w_attempt w' 1) \<and> quiet (w_attempt w 2) (w_attempt w' 2)"
    using moved(2) pcs unfolding moved_def Let_def
    by (elim disjE exE conjE) (auto simp: pcs_ok_def quiet_def)
  with moved(4,5) ok show ?thesis by (auto intro: ledger_ok_quiet)
next
  case (works a now)
  have a: "a = 1 \<or> a = 2" using works(1) pcs by (auto simp: pcs_ok_def running_attempt_def)
  then have a1: "1 \<le> a" by auto
  have q: "quiet (w_attempt w 1) (w_attempt w' 1) \<and> quiet (w_attempt w 2) (w_attempt w' 2)"
    if "w' = set_attempt a pc w2" "w_attempt w2 = w_attempt w" "quiet (w_attempt w a) pc" for w2 :: "'a world" and pc
    using that a by (auto simp: set_attempt_def)
  from works(1) a1 show ?thesis
  proof (cases w a rule: attempt_step_cases [where emit = emit and now = now])
    case (admit w2)
    then have "quiet (w_attempt w a) (Admitted (pay_latency (w_payment w)))" by (simp add: quiet_def)
    with q [of _ w2] admit works(2) ok show ?thesis by (auto simp: set_attempt_def intro: ledger_ok_quiet)
  next
    case (commit b l w2)
    have "w_attempt w 1 \<noteq> NotLaunched" using pcs a commit(1) by (auto simp: pcs_ok_def collected_pcs_def split: main_pc.splits sum.splits)
    from ledger_ok_commit [OF ok a commit(1) this commit(2), of w'] commit works(2) show ?thesis by (simp add: set_attempt_def)
  next
    case (fails c i e w2 err)
    then have "quiet (w_attempt w a) (Ended (Some err))" by (simp add: quiet_def)
    with q [of _ w2] fails works(2) ok show ?thesis by (auto simp: set_attempt_def recorded_in_def intro: ledger_ok_quiet)
  next
    case (emits c i ev w2 pc)
    then have "quiet (w_attempt w a) pc" by (auto simp: quiet_def)
    with q [of _ w2] emits works(2) ok show ?thesis by (auto simp: set_attempt_def recorded_in_def intro: ledger_ok_quiet)
  qed
qed

end
