(* ===== verification/ServicesEvents.thy ===== *)
theory ServicesEvents
  imports ServicesSteps
begin

text \<open>
  What the sink has received at every point of one checkout: the operations of the request and of its attempts, each
  once, with the attempt and the outcome it had; every one of them a valid event.
\<close>

section \<open>The events\<close>

text \<open>What the sink has received when the request and its attempts are at given points and nothing has failed.\<close>

definition timeline :: "string \<Rightarrow> int \<Rightarrow> signature multiset" where
  "timeline k n = {#main_signature k OperationEntrypoint EventStart 1, main_signature k OperationInternal EventStart 1#}
     + (if n = 2 then {#main_signature k OperationControl EventTimeout 1, main_signature k OperationControl EventRetry 2#} else {#})"

fun main_signatures :: "string \<Rightarrow> main_pc \<Rightarrow> signature multiset" where
  "main_signatures k ProcessStart = {#main_signature k OperationEntrypoint EventStart 1#}"
| "main_signatures k Selecting = timeline k 1"
| "main_signatures k TimerFired = timeline k 1"
| "main_signatures k Retrying = timeline k 1 + {#main_signature k OperationControl EventTimeout 1#}"
| "main_signatures k (Collecting n) = timeline k n"
| "main_signatures k (GatewayComplete n) = timeline k n + {#main_signature k OperationInternal EventComplete n#}"
| "main_signatures k (Returned (Inr r)) = timeline k (gr_attempts r)
     + {#main_signature k OperationInternal EventComplete (gr_attempts r), main_signature k OperationEntrypoint EventComplete (gr_attempts r)#}"
| "main_signatures k _ = {#}"

definition effect_signature :: "string \<Rightarrow> int \<Rightarrow> bool \<Rightarrow> signature" where
  "effect_signature k a b = (k, EventEffect, OperationSideEffect, a, Some (VBool b))"

fun attempt_signatures :: "string \<Rightarrow> bool \<Rightarrow> int \<Rightarrow> attempt_pc \<Rightarrow> signature multiset" where
  "attempt_signatures k b a (Sleeping l) = {#main_signature k OperationDependency EventStart a#}"
| "attempt_signatures k b a Approved = {#main_signature k OperationDependency EventStart a, main_signature k OperationDependency EventComplete a#}"
| "attempt_signatures k b a (Committed c) = {#main_signature k OperationDependency EventStart a, main_signature k OperationDependency EventComplete a#}"
| "attempt_signatures k b a (Ended None) = {#main_signature k OperationDependency EventStart a, main_signature k OperationDependency EventComplete a,
     effect_signature k a b#}"
| "attempt_signatures k b a _ = {#}"

definition committed_by :: "'k world \<Rightarrow> int \<Rightarrow> bool" where
  "committed_by w a = (effect_key w a \<in> set (led_effects (w_ledger w)))"

definition sent :: "'k world \<Rightarrow> signature multiset" where
  "sent w = (let k = ca_logical (w_call w) in main_signatures k (w_main w)
     + attempt_signatures k (committed_by w 1) 1 (w_attempt w 1) + attempt_signatures k (committed_by w 2) 2 (w_attempt w 2))"

definition clean :: "'k world \<Rightarrow> bool" where
  "clean w \<longleftrightarrow> (\<forall>e. w_main w \<noteq> Returned (Inl e)) \<and> (\<forall>e. w_attempt w 1 \<noteq> Ended (Some e)) \<and> (\<forall>e. w_attempt w 2 \<noteq> Ended (Some e))"

lemma attempt_input_signatures [simp]:
  "input_signature (payment_start_input c a l) = main_signature (ca_logical c) OperationDependency EventStart a"
  "input_signature (payment_complete_input c a l) = main_signature (ca_logical c) OperationDependency EventComplete a"
  "input_signature (effect_input c a b) = effect_signature (ca_logical c) a b"
  by (simp_all add: payment_start_input_def payment_complete_input_def effect_input_def base_input_def input_signature_def
      main_signature_def effect_signature_def lookup_key_def)

lemma attempt_signatures_idle: "before_commit pc \<Longrightarrow> attempt_signatures k b a pc = attempt_signatures k c a pc"
  "attempt_signatures k b a (Committed d) = attempt_signatures k c a (Committed d)"
  by (cases pc) simp_all

lemma call_logical: "ca_checkout c = ca_checkout c' \<Longrightarrow> ca_logical c = ca_logical c'"
  by (simp add: ca_logical_def)

lemma sent_moved:
  assumes "pcs_ok w" and "moved w sg w'" and "w_ledger w' = w_ledger w" and "ca_checkout (w_call w') = ca_checkout (w_call w)"
  shows "sent w' = add_mset sg (sent w)"
proof -
  have c: "committed_by w' = committed_by w" using assms(3,4) by (simp add: committed_by_def effect_key_def fun_eq_iff)
  have k: "ca_logical (w_call w') = ca_logical (w_call w)" using call_logical [OF assms(4)] .
  show ?thesis
    using assms(2) unfolding moved_def Let_def
    by (elim disjE exE conjE)
      (use assms(1) in \<open>simp_all add: sent_def Let_def c k pcs_ok_def collected_pcs_def timeline_def\<close>)
qed


lemma sent_attempt:
  assumes a: "a = 1 \<or> a = 2" and run: "running_attempt (w_attempt w a)" and ok: "ledger_ok w"
  shows "\<And>pc w'. w_attempt w' = (w_attempt w)(a := pc) \<Longrightarrow> w_main w' = w_main w \<Longrightarrow> w_call w' = w_call w \<Longrightarrow> w_ledger w' = w_ledger w
      \<Longrightarrow> sent w' + attempt_signatures (ca_logical (w_call w)) (committed_by w a) a (w_attempt w a)
        = sent w + attempt_signatures (ca_logical (w_call w)) (committed_by w a) a pc"
proof -
  fix pc and w' :: "'b world"
  assume w': "w_attempt w' = (w_attempt w)(a := pc)" "w_main w' = w_main w" "w_call w' = w_call w" "w_ledger w' = w_ledger w"
  have c: "committed_by w' = committed_by w" using w' by (simp add: committed_by_def effect_key_def fun_eq_iff)
  show "sent w' + attempt_signatures (ca_logical (w_call w)) (committed_by w a) a (w_attempt w a)
        = sent w + attempt_signatures (ca_logical (w_call w)) (committed_by w a) a pc"
    using a w' by (auto simp: sent_def Let_def c)
qed

lemma sent_emit:
  assumes a: "a = 1 \<or> a = 2" and ok: "ledger_ok w" and run: "running_attempt (w_attempt w a)"
    and w': "w_attempt w' = (w_attempt w)(a := pc)" "w_main w' = w_main w" "w_call w' = w_call w" "w_ledger w' = w_ledger w"
    and i: "(\<exists>l. w_attempt w a = Admitted l \<and> i = payment_start_input (w_call w) a l \<and> pc = Sleeping l)
       \<or> (\<exists>l. w_attempt w a = Sleeping l \<and> i = payment_complete_input (w_call w) a l \<and> pc = Approved)
       \<or> (\<exists>b. w_attempt w a = Committed b \<and> i = effect_input (w_call w) a b \<and> pc = Ended None)"
  shows "sent w' = add_mset (input_signature i) (sent w)"
proof -
  have b: "w_attempt w a = Committed b \<Longrightarrow> b = committed_by w a" for b
    using ok a by (auto simp: ledger_ok_def attempt_ledger_def committed_by_def)
  show ?thesis using sent_attempt [OF a run ok w'] i b by (elim disjE exE conjE) auto
qed

lemma sent_commit:
  assumes a: "a = 1 \<or> a = 2" and ok: "ledger_ok w" and pc: "w_attempt w a = Approved"
    and commit: "commit_effect (ca_checkout (w_call w)) a (w_ledger w) = (b, l)"
    and w': "w_attempt w' = (w_attempt w)(a := Committed b)" "w_main w' = w_main w" "w_call w' = w_call w" "w_ledger w' = l"
  shows "sent w' = sent w"
proof -
  define c where "c = (if a = 1 then 2 else 1 :: int)"
  have c: "c \<noteq> a" "effect_key w c \<noteq> effect_key w a" using a by (auto simp: c_def effect_key_def)
  have "set (led_effects l) = set (led_effects (w_ledger w)) \<or> set (led_effects l) = insert (effect_key w a) (set (led_effects (w_ledger w)))"
    using commit by (auto simp: commit_effect_def effect_key_def Let_def split: if_splits)
  then have same: "committed_by w' c = committed_by w c" using c(2) w'(3,4) by (auto simp: committed_by_def effect_key_def)
  have k: "attempt_signatures k d a (Committed b) = attempt_signatures k d' a Approved" for k d d' by simp
  show ?thesis using a same w' pc by (auto simp: sent_def Let_def c_def)
qed

definition events_ok :: "('k \<Rightarrow> execution_event list) \<Rightarrow> 'k world \<Rightarrow> bool" where
  "events_ok contents w \<longleftrightarrow> (\<forall>e\<in>set (contents (w_sink w)). event_validate e = None)
     \<and> (clean w \<longrightarrow> mset (map signature (contents (w_sink w))) = sent w)"

lemma clean_before:
  assumes "step emit ctl w w'" and "pcs_ok w" and "clean w'"
  shows "clean w"
  using assms(1)
proof (cases rule: step_cases)
  case (works a now)
  then have a: "a = 1 \<or> a = 2" using assms(2) by (auto simp: pcs_ok_def running_attempt_def)
  then have a1: "1 \<le> a" by auto
  obtain w1 pc where w1: "attempt_step emit now a w = set_attempt a pc w1" "pc \<noteq> NotLaunched"
    "w_main w1 = w_main w" "w_attempt w1 = w_attempt w" "w_checkout w1 = w_checkout w" "w_call w1 = w_call w"
    using attempt_step_shape [OF works(1) a1, of emit now] by (elim exE conjE)
  with works assms(3) a show ?thesis by (auto simp: clean_def set_attempt_def running_attempt_def)
next
  case (moved now c i ev w1)
  from moved(2) show ?thesis unfolding moved_def Let_def
    using assms(2,3) by (elim disjE exE conjE) (auto simp: clean_def pcs_ok_def)
qed (use assms(3) in \<open>auto simp: clean_def gave_up_def entered_def chosen_def\<close>)


context event_sink
begin

lemma record_as_sink:
  assumes "record_as emit now c i w = (res, w1)" and "\<forall>e\<in>set (contents (w_sink w)). event_validate e = None"
  shows "(\<forall>e\<in>set (contents (w_sink w1)). event_validate e = None)
    \<and> mset (map signature (contents (w_sink w1))) =
      (case res of Inl _ \<Rightarrow> mset (map signature (contents (w_sink w)))
       | Inr _ \<Rightarrow> add_mset (input_signature i) (mset (map signature (contents (w_sink w)))))"
proof -
  obtain res' r g s where r: "Record (Some emit) now i (w_recs w c) (w_ids w) (w_sink w) = (res', r, g, s)" by (metis prod_cases4)
  with assms(1) have w1: "res' = res" "w_sink w1 = s" by (auto simp: record_as_def)
  from Record_cases [OF r] w1 assms(2) show ?thesis by auto
qed

text \<open>Every step keeps track of the events.\<close>

lemma step_events:
  assumes st: "step emit ctl w w'" and pcs: "pcs_ok w" and led: "ledger_ok w" and ok: "events_ok contents w"
  shows "events_ok contents w'"
proof -
  have valid: "\<forall>e\<in>set (contents (w_sink w)). event_validate e = None" using ok by (simp add: events_ok_def)
  have before: "mset (map signature (contents (w_sink w))) = sent w" if "clean w'"
    using ok clean_before [OF st pcs that] by (simp add: events_ok_def)
  from st show ?thesis
  proof (cases rule: step_cases)
    case gave_up
    then have "\<not> clean w'" by (auto simp: gave_up_def clean_def)
    moreover have "\<forall>e\<in>set (contents (w_sink w')). event_validate e = None"
      using gave_up(2) record_as_sink [OF _ valid] valid by (auto simp: refused_in_def)
    ultimately show ?thesis by (simp add: events_ok_def)
  next
    case entered
    then have "w_attempt w 1 = NotLaunched" "w_attempt w 2 = NotLaunched" using pcs by (auto simp: entered_def pcs_ok_def)
    with entered have "sent w' = sent w" by (auto simp: entered_def sent_def Let_def)
    with entered before valid show ?thesis by (auto simp: events_ok_def entered_def)
  next
    case chosen
    then have "sent w' = sent w" by (auto simp: chosen_def sent_def Let_def committed_by_def effect_key_def)
    with chosen before valid show ?thesis by (auto simp: events_ok_def chosen_def)
  next
    case (moved now c i ev w1)
    from sent_moved [OF pcs moved(2) moved(4,5)] record_as_sink [OF moved(1) valid] moved(3) before
    show ?thesis by (simp add: events_ok_def)
  next
    case (works a now)
    have a: "a = 1 \<or> a = 2" using works(1) pcs by (auto simp: pcs_ok_def running_attempt_def)
    then have a1: "1 \<le> a" by auto
    from works(1) a1 show ?thesis
    proof (cases w a rule: attempt_step_cases [where emit = emit and now = now])
      case (admit w2)
      from sent_attempt [OF a works(1) led, of w'] admit works(2)
      have "sent w' = sent w" by (simp add: set_attempt_def)
      with admit works(2) before valid show ?thesis by (simp add: events_ok_def set_attempt_def)
    next
      case (commit b l w2)
      have "sent w' = sent w"
        by (rule sent_commit [OF a led commit(1,2)]) (simp_all add: works(2) commit(3,4) set_attempt_def)
      with commit works(2) before valid show ?thesis by (simp add: events_ok_def set_attempt_def)
    next
      case (fails c i e w2 err)
      then have "\<not> clean w'" using a works(2) by (auto simp: clean_def set_attempt_def)
      with fails works(2) record_as_sink [OF fails(1) valid] show ?thesis by (simp add: events_ok_def set_attempt_def)
    next
      case (emits c i ev w2 pc)
      have "sent w' = add_mset (input_signature i) (sent w)"
        by (rule sent_emit [OF a led works(1) _ _ _ _ emits(4)])
          (use emits(2,3) works(2) in \<open>simp_all add: set_attempt_def recorded_in_def\<close>)
      with emits works(2) record_as_sink [OF emits(1) valid] before show ?thesis by (simp add: events_ok_def set_attempt_def)
    qed
  qed
qed

end

end
