(* ===== verification/ServicesProps.thy ===== *)
theory ServicesProps
  imports ServicesEvents
begin

text \<open>
  What the oracle of the checkout pack says of the events of one checkout: the answers of the demo services and the
  verdict of the oracle agree, at every interleaving of the goroutines, and every run of a request ends.
\<close>

section \<open>What the oracle reads\<close>

text \<open>The oracle reads the signatures of the events only.\<close>

fun committed_signature :: "signature \<Rightarrow> bool" where
  "committed_signature (k, ty, kind, a, v) \<longleftrightarrow> ty = EventEffect \<and> v = Some (VBool True)"

fun start_signature :: "signature \<Rightarrow> bool" where
  "start_signature (k, ty, kind, a, v) \<longleftrightarrow> ty = EventStart \<and> kind = OperationDependency"

lemma signature_commit: "committed_signature (signature e) = committed_effect e"
  by (simp add: signature_def committed_effect_def effect_committed_def split: option.splits go_value.splits)

lemma signature_start: "start_signature (signature e) = dependency_start e"
  by (simp add: signature_def dependency_start_def)

definition type_attempts :: "signature multiset \<Rightarrow> (event_type \<times> int) set" where
  "type_attempts M = (\<lambda>(k, ty, kind, a, v). (ty, a)) ` set_mset M"

lemma evaluate_signatures:
  assumes m: "mset (map signature es) = M" and k: "\<forall>s\<in>#M. fst s = k" and ne: "M \<noteq> {#}"
  obtains r where "evaluate es = Inr r"
    "or_matched r \<longleftrightarrow> (\<exists>a. (EventTimeout, a) \<in> type_attempts M) \<and> (\<exists>a. (EventRetry, a) \<in> type_attempts M)
       \<and> (\<exists>ty a. (ty, a) \<in> type_attempts M \<and> 2 \<le> a) \<and> 2 \<le> size (filter_mset committed_signature M)"
    "ledger_commits (or_effects r) = int (size (filter_mset committed_signature M))"
    "payment_attempts (or_effects r) = int (card ((\<lambda>s. fst (snd (snd (snd s)))) ` {s \<in> set_mset M. start_signature s}))"
proof -
  have set: "set_mset M = signature ` set es" using m by (metis set_map set_mset_mset)
  have "es \<noteq> []" using ne m by auto
  then obtain j where j: "selected_operation es j" "evaluate es = Inr (scan_result j es)" using evaluate_selected by blast
  have ids: "\<forall>e\<in>set es. ev_logical_op e = k" using k by (auto simp: set signature_def)
  with j(1) have [simp]: "j = k" by (auto simp: selected_operation_def)
  have all: "eventsForLogicalOperation es k = es" using ids by (auto simp: eventsForLogicalOperation_def)
  have "length (filter committed_effect es) = length (filter committed_signature (map signature es))"
    by (simp add: filter_map comp_def signature_commit)
  then have commits: "length (filter committed_effect es) = size (filter_mset committed_signature M)"
    using m by (metis mset_filter size_mset)
  have types: "type_attempts M = (\<lambda>e. (ev_type e, ev_attempt e)) ` set es"
    by (simp add: type_attempts_def set image_image signature_def)
  have attempts: "(\<lambda>s. fst (snd (snd (snd s)))) ` {s \<in> set_mset M. start_signature s} = ev_attempt ` {e \<in> set es. dependency_start e}"
  proof -
    have "{s \<in> set_mset M. start_signature s} = signature ` {e \<in> set es. dependency_start e}"
      unfolding set by (auto simp: signature_start)
    then show ?thesis by (simp add: image_image) (simp add: signature_def)
  qed
  show thesis
  proof (rule that [OF j(2)])
    have of_type: "(\<exists>a. (ty, a) \<in> type_attempts M) \<longleftrightarrow> (\<exists>e\<in>set es. ev_type e = ty)" for ty
      by (force simp: types)
    have "(\<exists>ty a. (ty, a) \<in> type_attempts M \<and> 2 \<le> a) \<longleftrightarrow> (\<exists>e\<in>set es. 2 \<le> ev_attempt e)"
      unfolding types by auto
    then show "or_matched (scan_result j es) \<longleftrightarrow> (\<exists>a. (EventTimeout, a) \<in> type_attempts M) \<and> (\<exists>a. (EventRetry, a) \<in> type_attempts M)
       \<and> (\<exists>ty a. (ty, a) \<in> type_attempts M \<and> 2 \<le> a) \<and> 2 \<le> size (filter_mset committed_signature M)"
      by (simp add: duplicate_effect_def all Let_def commits of_type)
  qed (simp_all add: scan_result_effects all commits attempts)
qed


section \<open>From a fresh world to the answer\<close>

definition started :: "bool \<Rightarrow> 'k world \<Rightarrow> bool" where
  "started dedup w \<longleftrightarrow> (\<exists>rq. w_main w = GatewayEntry rq) \<and> w_attempt w = (\<lambda>_. NotLaunched) \<and> co_max (w_checkout w) = 2
     \<and> led_effects (w_ledger w) = [] \<and> led_first (w_ledger w) = Map.empty \<and> led_dedup (w_ledger w) = dedup"

lemma new_world_started: "started dedup (new_world g s latency dedup rq)"
  by (simp add: started_def new_world_def checkout_reset_def ledger_reset_def SetDeduplicationEnabled_def)

lemma ledger_count:
  assumes "ledger_ok w"
  shows "length (led_effects (w_ledger w)) = of_bool (committed_by w 1) + of_bool (committed_by w 2)"
proof -
  let ?E = "led_effects (w_ledger w)"
  have e: "distinct ?E" "set ?E \<subseteq> {effect_key w 1, effect_key w 2}" "effect_key w 1 \<noteq> effect_key w 2"
    using assms by (auto simp: ledger_ok_def effect_key_def)
  have "length ?E = card (set ?E)" using e(1) by (simp add: distinct_card)
  also have "set ?E = (if committed_by w 1 then {effect_key w 1} else {}) \<union> (if committed_by w 2 then {effect_key w 2} else {})"
    using e(2) by (intro equalityI subsetI) (auto simp: committed_by_def split: if_splits)
  also have "card \<dots> = of_bool (committed_by w 1) + of_bool (committed_by w 2)" using e(3) by simp
  finally show ?thesis .
qed

lemma committed_counts:
  assumes ok: "ledger_ok w" and n: "collected_pcs n w"
  shows "n = 1 \<or> n = 2" and "n = 1 \<Longrightarrow> committed_by w 1 \<and> \<not> committed_by w 2"
    and "n = 2 \<Longrightarrow> if led_dedup (w_ledger w) then committed_by w 1 \<longleftrightarrow> \<not> committed_by w 2 else committed_by w 1 \<and> committed_by w 2"
proof -
  let ?E = "led_effects (w_ledger w)"
  show "n = 1 \<or> n = 2" using n by (auto simp: collected_pcs_def)
  have keys: "set ?E \<subseteq> {effect_key w 1, effect_key w 2}" using ok by (simp add: ledger_ok_def)
  have after: "if led_dedup (w_ledger w) then ?E \<noteq> [] else committed_by w 1"
    using ok n by (auto simp: ledger_ok_def attempt_ledger_def collected_pcs_def committed_by_def)
  have some: "committed_by w 1 \<or> committed_by w 2"
  proof (cases ?E)
    case Nil
    with after show ?thesis by (auto split: if_splits)
  next
    case (Cons x xs)
    with keys show ?thesis by (auto simp: committed_by_def)
  qed
  show "committed_by w 1 \<and> \<not> committed_by w 2" if "n = 1"
  proof -
    have "before_commit (w_attempt w 2)" using n that by (simp add: collected_pcs_def)
    with ok have "\<not> committed_by w 2" by (simp add: ledger_ok_def attempt_ledger_def committed_by_def)
    with some show ?thesis by blast
  qed
  show "if led_dedup (w_ledger w) then committed_by w 1 \<longleftrightarrow> \<not> committed_by w 2 else committed_by w 1 \<and> committed_by w 2" if two: "n = 2"
  proof (cases "led_dedup (w_ledger w)")
    case True
    then have "length ?E \<le> 1" using ok by (simp add: ledger_ok_def)
    then have "\<not> (committed_by w 1 \<and> committed_by w 2)" using ledger_count [OF ok] by auto
    with True some show ?thesis by auto
  next
    case False
    then show ?thesis using ok n two by (auto simp: ledger_ok_def attempt_ledger_def collected_pcs_def committed_by_def)
  qed
qed

lemma answered_sent:
  assumes "w_main w = Returned (Inr res)" and "collected_pcs (gr_attempts res) w"
  shows "sent w = (let k = ca_logical (w_call w); n = gr_attempts res in
      timeline k n + {#main_signature k OperationInternal EventComplete n, main_signature k OperationEntrypoint EventComplete n#}
      + {#main_signature k OperationDependency EventStart 1, main_signature k OperationDependency EventComplete 1, effect_signature k 1 (committed_by w 1)#}
      + (if n = 2 then {#main_signature k OperationDependency EventStart 2, main_signature k OperationDependency EventComplete 2,
           effect_signature k 2 (committed_by w 2)#} else {#}))"
  using assms by (auto simp: sent_def Let_def collected_pcs_def)

lemma committed_main [simp]: "committed_signature (main_signature k kind ty a) \<longleftrightarrow> False"
  "committed_signature (effect_signature k a b) \<longleftrightarrow> b"
  "start_signature (main_signature k kind ty a) \<longleftrightarrow> ty = EventStart \<and> kind = OperationDependency"
  "\<not> start_signature (effect_signature k a b)"
  "fst (main_signature k kind ty a) = k" "fst (effect_signature k a b) = k"
  by (auto simp: main_signature_def effect_signature_def)

context event_sink
begin

definition kept :: "bool \<Rightarrow> 'k world \<Rightarrow> bool" where
  "kept dedup w \<longleftrightarrow> pcs_ok w \<and> ledger_ok w \<and> events_ok contents w \<and> led_dedup (w_ledger w) = dedup"

lemma started_kept: "started dedup w \<Longrightarrow> contents (w_sink w) = [] \<Longrightarrow> kept dedup w"
  by (auto simp: kept_def started_def pcs_ok_def ledger_ok_def attempt_ledger_def events_ok_def sent_def Let_def after_commit_def)

lemma reached_kept:
  assumes "(step emit ctl)\<^sup>*\<^sup>* w w'" and "kept dedup w"
  shows "kept dedup w'"
  using assms
proof (induction rule: rtranclp_induct)
  case (step y z)
  then show ?case using step_pcs [OF step(2)] step_ledger [OF step(2)] step_events [OF step(2)] by (simp add: kept_def)
qed

text \<open>What the sink holds when the gateway has answered.\<close>

lemma answered:
  assumes ok: "kept dedup w" and ret: "w_main w = Returned (Inr res)"
  obtains r where "gr_attempts res = 1 \<or> gr_attempts res = 2" "evaluate (contents (w_sink w)) = Inr r"
    "or_matched r \<longleftrightarrow> gr_attempts res = 2 \<and> \<not> dedup"
    "or_effects r = \<lparr>payment_attempts = gr_attempts res, ledger_commits = (if dedup then 1 else gr_attempts res)\<rparr>"
    "int (length (led_effects (w_ledger w))) = (if dedup then 1 else gr_attempts res)"
proof -
  let ?n = "gr_attempts res" and ?k = "ca_logical (w_call w)"
  have col: "collected_pcs ?n w" using ok ret by (simp add: kept_def pcs_ok_def)
  have led: "ledger_ok w" "led_dedup (w_ledger w) = dedup" using ok by (simp_all add: kept_def)
  have "clean w" using ret col by (auto simp: clean_def collected_pcs_def)
  then have m: "mset (map signature (contents (w_sink w))) = sent w" using ok by (simp add: kept_def events_ok_def)
  note n = committed_counts [OF led(1) col]
  note s = answered_sent [OF ret col, unfolded Let_def]
  have one: "\<forall>x\<in>#sent w. fst x = ?k" unfolding s by (auto simp: timeline_def split: if_splits)
  have ne: "sent w \<noteq> {#}" unfolding s by simp
  have commits: "size (filter_mset committed_signature (sent w)) = of_bool (committed_by w 1) + of_bool (committed_by w 2)"
    unfolding s using n by (auto simp: timeline_def)
  have total: "int (of_bool (committed_by w 1) + of_bool (committed_by w 2)) = (if dedup then 1 else ?n)"
    using n led(2) by (auto split: if_splits)
  have types: "(\<exists>a. (EventTimeout, a) \<in> type_attempts (sent w)) \<longleftrightarrow> ?n = 2" "(\<exists>a. (EventRetry, a) \<in> type_attempts (sent w)) \<longleftrightarrow> ?n = 2"
    "?n = 2 \<Longrightarrow> (EventRetry, 2) \<in> type_attempts (sent w)"
    unfolding s type_attempts_def using n(1) by (auto simp: timeline_def main_signature_def effect_signature_def)
  have att: "{x \<in> set_mset (sent w). start_signature x} = (\<lambda>a. main_signature ?k OperationDependency EventStart a) ` {1..?n}"
  proof -
    have "{1..2} = {1, 2 :: int}" by auto
    then show ?thesis unfolding s using n(1) by (auto simp: timeline_def)
  qed
  obtain r where r: "evaluate (contents (w_sink w)) = Inr r"
    "or_matched r \<longleftrightarrow> (\<exists>a. (EventTimeout, a) \<in> type_attempts (sent w)) \<and> (\<exists>a. (EventRetry, a) \<in> type_attempts (sent w))
       \<and> (\<exists>ty a. (ty, a) \<in> type_attempts (sent w) \<and> 2 \<le> a) \<and> 2 \<le> size (filter_mset committed_signature (sent w))"
    "ledger_commits (or_effects r) = int (size (filter_mset committed_signature (sent w)))"
    "payment_attempts (or_effects r) = int (card ((\<lambda>x. fst (snd (snd (snd x)))) ` {x \<in> set_mset (sent w). start_signature x}))"
    by (rule evaluate_signatures [OF m one ne])
  have "(\<lambda>x. fst (snd (snd (snd x)))) ` {x \<in> set_mset (sent w). start_signature x} = {1..?n}"
    unfolding att by (simp add: image_image main_signature_def)
  then have pay: "payment_attempts (or_effects r) = ?n" using r(4) n(1) by auto
  have com: "ledger_commits (or_effects r) = (if dedup then 1 else ?n)" using r(3) commits total by simp
  have mat: "or_matched r \<longleftrightarrow> ?n = 2 \<and> \<not> dedup"
  proof -
    have "int (size (filter_mset committed_signature (sent w))) = (if dedup then 1 else ?n)" using commits total by simp
    then have "2 \<le> size (filter_mset committed_signature (sent w)) \<longleftrightarrow> ?n = 2 \<and> \<not> dedup" using n(1) by (auto split: if_splits)
    with r(2) types show ?thesis by auto
  qed
  show thesis
  proof (rule that [OF n(1) r(1) mat])
    show "or_effects r = \<lparr>payment_attempts = ?n, ledger_commits = (if dedup then 1 else ?n)\<rparr>"
      using pay com by (cases "or_effects r") simp
    show "int (length (led_effects (w_ledger w))) = (if dedup then 1 else ?n)"
      using ledger_count [OF led(1)] total by simp
  qed
qed

end

section \<open>Termination\<close>

text \<open>How many steps a goroutine has at most ahead of it.\<close>

fun attempt_weight :: "attempt_pc \<Rightarrow> nat" where
  "attempt_weight Authorizing = 5"
| "attempt_weight (Admitted _) = 4"
| "attempt_weight (Sleeping _) = 3"
| "attempt_weight Approved = 2"
| "attempt_weight (Committed _) = 1"
| "attempt_weight _ = 0"

fun main_weight :: "main_pc \<Rightarrow> nat" where
  "main_weight (GatewayEntry _) = 18"
| "main_weight GatewayStart = 17"
| "main_weight ProcessStart = 16"
| "main_weight Selecting = 10"
| "main_weight TimerFired = 9"
| "main_weight Retrying = 8"
| "main_weight (Collecting _) = 2"
| "main_weight (GatewayComplete _) = 1"
| "main_weight (Returned _) = 0"

definition steps_ahead :: "'k world \<Rightarrow> nat" where
  "steps_ahead w = main_weight (w_main w) + attempt_weight (w_attempt w 1) + attempt_weight (w_attempt w 2)"

lemma main_weight_positive: "(\<And>res. pc \<noteq> Returned res) \<Longrightarrow> 0 < main_weight pc"
  by (cases pc) auto

lemma attempt_ahead:
  assumes run: "running_attempt (w_attempt w a)" and pcs: "pcs_ok w"
  shows "steps_ahead (attempt_step emit now a w) < steps_ahead w"
proof -
  have a: "a = 1 \<or> a = 2" using run pcs by (auto simp: pcs_ok_def running_attempt_def)
  then have a1: "1 \<le> a" by auto
  have less: "steps_ahead w' < steps_ahead w"
    if "w' = set_attempt a pc w2" "w_main w2 = w_main w" "w_attempt w2 = w_attempt w" "attempt_weight pc < attempt_weight (w_attempt w a)"
    for w' w2 :: "'a world" and pc
    using that a by (auto simp: steps_ahead_def set_attempt_def)
  have some: "0 < attempt_weight (w_attempt w a)" using run by (cases "w_attempt w a") (auto simp: running_attempt_def)
  from run a1 show ?thesis
  proof (cases w a rule: attempt_step_cases [where emit = emit and now = now])
    case (admit w2)
    show ?thesis by (rule less [of _ _ w2]) (use admit in auto)
  next
    case (commit b l w2)
    show ?thesis by (rule less [of _ _ w2]) (use commit in auto)
  next
    case (fails c i e w2 err)
    show ?thesis by (rule less [of _ _ w2]) (use fails some in \<open>auto simp: recorded_in_def\<close>)
  next
    case (emits c i ev w2 pc)
    show ?thesis by (rule less [of _ _ w2]) (use emits in \<open>auto simp: recorded_in_def\<close>)
  qed
qed

lemma step_ahead:
  assumes st: "step emit ctl w w'" and pcs: "pcs_ok w"
  shows "steps_ahead w' < steps_ahead w"
proof (cases "\<exists>res. w_main w = Returned res")
  case True
  with st show ?thesis using attempt_ahead [OF _ pcs] by (cases rule: step.cases) auto
next
  case False
  from st show ?thesis
  proof (cases rule: step_cases)
    case gave_up
    then show ?thesis using main_weight_positive [of "w_main w"] False by (auto simp: gave_up_def steps_ahead_def)
  next
    case (moved now c i ev w1)
    from moved(2) show ?thesis unfolding moved_def Let_def
      using pcs by (elim disjE exE conjE) (auto simp: steps_ahead_def pcs_ok_def)
  next
    case (works a now)
    then show ?thesis using attempt_ahead [OF _ pcs] by simp
  qed (auto simp: entered_def chosen_def steps_ahead_def)
qed

lemma steps_bounded:
  assumes "(step emit ctl ^^ m) w w'" and "pcs_ok w"
  shows "pcs_ok w' \<and> m + steps_ahead w' \<le> steps_ahead w"
  using assms
proof (induction m arbitrary: w')
  case (Suc m)
  then obtain v where v: "(step emit ctl ^^ m) w v" "step emit ctl v w'" by auto
  with Suc step_ahead [OF v(2)] step_pcs [OF v(2)] show ?case by fastforce
qed simp

text \<open>A request that has not been answered, or an attempt that is still at work, has a step to take.\<close>

lemma step_exists:
  assumes pcs: "pcs_ok w" and open_run: "(\<forall>res. w_main w \<noteq> Returned res) \<or> running_attempt (w_attempt w a)"
  shows "\<exists>w'. step emit ctl w w'"
proof (cases "\<exists>a. running_attempt (w_attempt w a)")
  case True
  then show ?thesis using step.attempt sample_now_ok by blast
next
  case idle: False
  then have fin: "w_attempt w b = NotLaunched \<or> (\<exists>e. w_attempt w b = Ended e)" for b by (auto simp: running_attempt_def)
  show ?thesis
  proof (cases "w_main w")
    case (Collecting n)
    then have all: "\<forall>a\<in>launched n. \<exists>e. w_attempt w a = Ended e" using pcs fin [of 1] fin [of 2] by (auto simp: pcs_ok_def)
    show ?thesis
    proof (cases "\<forall>a\<in>launched n. w_attempt w a = Ended None")
      case True
      then show ?thesis using step.collected [OF Collecting _ sample_now_ok] by blast
    next
      case False
      then obtain b err where "b \<in> launched n" "w_attempt w b = Ended (Some err)" using all by (metis not_None_eq)
      then show ?thesis using step.failed [OF Collecting all] by blast
    qed
  next
    case (Returned res)
    then show ?thesis using open_run idle by blast
  qed (blast intro: step.enter step.start step.process step.timer step.timed_out step.retry step.complete sample_now_ok)+
qed

end
