(* ===== verification/ServicesLive.thy ===== *)
theory ServicesLive
  imports ServicesProps
begin

text \<open>
  Runs of a request that cannot fail: when the sink refuses no valid event, every record of the services succeeds, so
  a request is answered without an error. Schedules, which pick the goroutine that moves next, make runs concrete.
\<close>

section \<open>Records that succeed\<close>

text \<open>A sink that takes every valid event.\<close>

locale total_sink = event_sink +
  assumes takes: "event_validate e = None \<Longrightarrow> fst (emit e k) = None"

interpretation memory: total_sink memory_emit memory_events
  by standard (simp add: memory_emit_def)

definition input_fits :: "record_input \<Rightarrow> bool" where
  "input_fits i \<longleftrightarrow> 1 \<le> ri_attempt i \<and> ri_execution i \<noteq> [] \<and> ri_trace i \<noteq> [] \<and> ri_logical i \<noteq> []
     \<and> op_name (ri_operation i) \<noteq> [] \<and> validOperationKind (op_kind (ri_operation i)) \<and> validEventType (ri_type i)
     \<and> validEventStatus (ri_status i) \<and> (\<forall>d. ri_duration i = Some d \<longrightarrow> 0 \<le> d)
     \<and> (\<forall>kv\<in>set (elems (ri_attributes i)). attribute_check kv = None)"

definition recorders_fit :: "'k world \<Rightarrow> bool" where
  "recorders_fit w \<longleftrightarrow> (\<forall>c. recorder.rec_component (w_recs w c) = component_of c \<and> (\<forall>x. 0 \<le> rec_seq (w_recs w c) x))"

lemma component_named [simp]: "comp_name (component_of c) \<noteq> []" "comp_instance (component_of c) \<noteq> []"
  by (simp_all add: component_of_def component_name_def split: component.split)

context total_sink
begin

lemma Record_succeeds:
  assumes i: "input_fits i" and now: "civil_ok now" and r: "comp_name (recorder.rec_component r) \<noteq> []" "comp_instance (recorder.rec_component r) \<noteq> []"
    and seq: "\<forall>x. 0 \<le> rec_seq r x"
  obtains ev r' g' s' where "Record (Some emit) now i r g s = (Inr ev, r', g', s')" "recorder.rec_component r' = recorder.rec_component r"
    "\<forall>x. 0 \<le> rec_seq r' x"
proof -
  obtain k g1 where k: "NextEventID (comp_name (recorder.rec_component r)) g = (k, g1)" "k \<noteq> []"
    by (simp add: NextEventID_def event_id_def Let_def)
  obtain n r1 where n: "nextSequence (ri_execution i) r = (n, r1)" "0 \<le> n" "recorder.rec_component r1 = recorder.rec_component r" "\<forall>x. 0 \<le> rec_seq r1 x"
    using seq by (simp add: nextSequence_def Let_def)
  let ?e = "build_event i (recorder.rec_component r) k now n"
  have "event_validate ?e = None"
    using i r k(2) n(2) now_valid [OF now]
    by (auto simp: event_validate_None_iff build_event_def input_fits_def elems_def split: option.splits)
  moreover obtain x s1 where x: "emit ?e s = (x, s1)" by fastforce
  ultimately have "x = None" using takes [of ?e s] by simp
  with x \<open>event_validate ?e = None\<close> i k n that show thesis by (simp add: Record_def input_fits_def Let_def)
qed

lemma record_succeeds:
  assumes "recorders_fit w" and "civil_ok now" and "input_fits i"
  obtains ev w1 where "record_as emit now c i w = (Inr ev, w1)" "recorders_fit w1" "recorded_in w w1"
proof -
  let ?r = "w_recs w c"
  have r: "comp_name (recorder.rec_component ?r) \<noteq> []" "comp_instance (recorder.rec_component ?r) \<noteq> []" "\<forall>x. 0 \<le> rec_seq ?r x"
    using assms(1) by (auto simp: recorders_fit_def)
  obtain ev r' g' s' where rec: "Record (Some emit) now i ?r (w_ids w) (w_sink w) = (Inr ev, r', g', s')"
    "recorder.rec_component r' = recorder.rec_component ?r" "\<forall>x. 0 \<le> rec_seq r' x"
    using Record_succeeds [OF assms(3,2) r] by blast
  let ?w1 = "w\<lparr>w_recs := (w_recs w)(c := r'), w_ids := g', w_sink := s'\<rparr>"
  have "record_as emit now c i w = (Inr ev, ?w1)" using rec(1) by (simp add: record_as_def)
  moreover have "recorders_fit ?w1" using assms(1) rec(2,3) by (simp add: recorders_fit_def)
  moreover have "recorded_in w ?w1" by (simp add: recorded_in_def)
  ultimately show thesis by (rule that)
qed

end

section \<open>The state of a run that cannot fail\<close>

definition direct_control :: latency_control where
  "direct_control = Some (\<lambda>ms p. (None, SetLatencyMs ms p))"

definition control_fits :: "latency_control \<Rightarrow> gateway_request \<Rightarrow> bool" where
  "control_fits ctl rq \<longleftrightarrow> ctl = direct_control \<or> gq_scenario rq \<noteq> ScenarioHealthy"

definition attempt_fits :: "attempt_pc \<Rightarrow> bool" where
  "attempt_fits pc \<longleftrightarrow> (case pc of Admitted l \<Rightarrow> 0 \<le> l | Sleeping l \<Rightarrow> 0 \<le> l | Ended e \<Rightarrow> e = None | _ \<Rightarrow> True)"

definition main_fits :: "latency_control \<Rightarrow> call \<Rightarrow> main_pc \<Rightarrow> bool" where
  "main_fits ctl c pc \<longleftrightarrow> (case pc of
       GatewayEntry rq \<Rightarrow> control_fits ctl rq
     | Selecting \<Rightarrow> 0 < ca_timeout c
     | TimerFired \<Rightarrow> 0 < ca_timeout c
     | Collecting n \<Rightarrow> 1 \<le> n
     | GatewayComplete n \<Rightarrow> 1 \<le> n
     | Returned res \<Rightarrow> (\<forall>e. res \<noteq> Inl e)
     | _ \<Rightarrow> True)"

definition fit :: "latency_control \<Rightarrow> 'k world \<Rightarrow> bool" where
  "fit ctl w \<longleftrightarrow> recorders_fit w \<and> 0 \<le> pay_latency (w_payment w) \<and> 0 < co_timeout (w_checkout w)
     \<and> (\<forall>a. attempt_fits (w_attempt w a)) \<and> main_fits ctl (w_call w) (w_main w)
     \<and> (ca_healthy (w_call w) \<longrightarrow> ctl = direct_control)"

lemma fits_simps [simp]:
  "main_fits ctl c (GatewayEntry rq) = control_fits ctl rq" "main_fits ctl c GatewayStart" "main_fits ctl c ProcessStart"
  "main_fits ctl c Selecting = (0 < ca_timeout c)" "main_fits ctl c TimerFired = (0 < ca_timeout c)" "main_fits ctl c Retrying"
  "main_fits ctl c (Collecting n) = (1 \<le> n)" "main_fits ctl c (GatewayComplete n) = (1 \<le> n)"
  "main_fits ctl c (Returned (Inl e)) = False" "main_fits ctl c (Returned (Inr r))"
  "attempt_fits Authorizing" "attempt_fits NotLaunched" "attempt_fits Approved" "attempt_fits (Admitted l) = (0 \<le> l)"
  "attempt_fits (Sleeping l) = (0 \<le> l)" "attempt_fits (Ended x) = (x = None)" "attempt_fits (Committed b)"
  by (simp_all add: main_fits_def attempt_fits_def)

lemma ids_nonempty [simp]: "ca_trace c \<noteq> []" "ca_execution c \<noteq> []" "ca_logical c \<noteq> []"
  by (simp_all add: ca_trace_def ca_execution_def ca_logical_def)

lemma inputs_fit:
  "op = OperationEntrypoint \<or> op = OperationInternal \<or> op = OperationControl \<Longrightarrow> ty \<in> {EventStart, EventComplete, EventTimeout, EventRetry}
    \<Longrightarrow> st \<in> {EventRunning, EventSuccess, EventTimedOut} \<Longrightarrow> 1 \<le> a \<Longrightarrow> nm \<noteq> [] \<Longrightarrow> input_fits (base_input c p nm op ty st a)"
  "op = OperationEntrypoint \<or> op = OperationInternal \<or> op = OperationControl \<Longrightarrow> ty \<in> {EventStart, EventComplete, EventTimeout, EventRetry}
    \<Longrightarrow> st \<in> {EventRunning, EventSuccess, EventTimedOut} \<Longrightarrow> 1 \<le> a \<Longrightarrow> nm \<noteq> [] \<Longrightarrow> 0 < ca_timeout c'
    \<Longrightarrow> input_fits ((base_input c p nm op ty st a)\<lparr>ri_attributes := timeout_attributes c'\<rparr>)"
  "1 \<le> a \<Longrightarrow> 0 \<le> l \<Longrightarrow> input_fits (payment_start_input c a l)"
  "1 \<le> a \<Longrightarrow> 0 \<le> l \<Longrightarrow> input_fits (payment_complete_input c a l)"
  "1 \<le> a \<Longrightarrow> input_fits (effect_input c a b)"
  by (auto simp: input_fits_def base_input_def timeout_attributes_def payment_start_input_def payment_complete_input_def
      effect_input_def elems_def attribute_check_def go_int_def valid_enum_defs signed_kind_def)

section \<open>No step fails\<close>

lemma stuck_idle:
  assumes "pcs_ok w" and "\<nexists>w'. step emit ctl w w'"
  shows "(\<exists>res. w_main w = Returned res) \<and> (\<forall>a. \<not> running_attempt (w_attempt w a))"
  using step_exists [OF assms(1)] assms(2) by blast

lemma gateway_return_fit:
  assumes "fit ctl w"
  shows "fit ctl (gateway_return ctl (Inr res) w)"
  using assms by (auto simp: fit_def gateway_return_def direct_control_def SetLatencyMs_def recorders_fit_def split: option.split)

lemma gateway_enter_fit:
  assumes ok: "fit ctl w" and entry: "w_main w = GatewayEntry rq"
  shows "fit ctl (gateway_enter ctl rq w)"
proof -
  obtain k g where "allocate rq (w_checkout_ids w) = (k, g)" by fastforce
  with ok entry show ?thesis
    by (auto simp: gateway_enter_def Let_def fit_def recorders_fit_def control_fits_def direct_control_def SetLatencyMs_def)
qed

lemma fit_attempt:
  assumes "fit ctl w" and "recorders_fit w'" and "recorded_in w w'" and "attempt_fits pc"
  shows "fit ctl (set_attempt a pc w')"
  using assms by (auto simp: fit_def set_attempt_def recorded_in_def recorders_fit_def)

context total_sink
begin

lemma attempt_step_fit:
  assumes ok: "fit ctl w" and run: "running_attempt (w_attempt w a)" and a: "1 \<le> a" and now: "civil_ok now"
  shows "fit ctl (attempt_step emit now a w)"
proof -
  have rec: "recorders_fit w" and pay: "0 \<le> pay_latency (w_payment w)" and pc: "attempt_fits (w_attempt w a)"
    using ok by (simp_all add: fit_def)
  show ?thesis
  proof (cases "w_attempt w a")
    case Authorizing
    with a pay ok show ?thesis by (auto simp: attempt_step_def fit_def set_attempt_def recorders_fit_def)
  next
    case (Admitted l)
    then have "input_fits (payment_start_input (w_call w) a l)" using pc a by (simp add: inputs_fit)
    from record_succeeds [OF rec now this] obtain ev w1
      where "record_as emit now Payment (payment_start_input (w_call w) a l) w = (Inr ev, w1)" "recorders_fit w1" "recorded_in w w1" .
    with Admitted pc show ?thesis using fit_attempt [OF ok, of w1 "Sleeping l" a] by (simp add: attempt_step_def)
  next
    case (Sleeping l)
    then have "input_fits (payment_complete_input (w_call w) a l)" using pc a by (simp add: inputs_fit)
    from record_succeeds [OF rec now this] obtain ev w1
      where "record_as emit now Payment (payment_complete_input (w_call w) a l) w = (Inr ev, w1)" "recorders_fit w1" "recorded_in w w1" .
    with Sleeping show ?thesis using fit_attempt [OF ok, of w1 Approved a] by (simp add: attempt_step_def)
  next
    case Approved
    obtain b l where "commit_effect (ca_checkout (w_call w)) a (w_ledger w) = (b, l)" by fastforce
    with Approved a ok show ?thesis by (auto simp: attempt_step_def fit_def set_attempt_def recorders_fit_def)
  next
    case (Committed b)
    have "input_fits (effect_input (w_call w) a b)" using a by (simp add: inputs_fit)
    from record_succeeds [OF rec now this] obtain ev w1
      where "record_as emit now Ledger (effect_input (w_call w) a b) w = (Inr ev, w1)" "recorders_fit w1" "recorded_in w w1" .
    with Committed show ?thesis using fit_attempt [OF ok, of w1 "Ended None" a] by (simp add: attempt_step_def)
  qed (use run in \<open>simp_all add: running_attempt_def\<close>)
qed

lemma step_fit:
  assumes st: "step emit ctl w w'" and ok: "fit ctl w" and pcs: "pcs_ok w"
  shows "fit ctl w'"
proof -
  have rec: "recorders_fit w" using ok by (simp add: fit_def)
  note frame = recorded_in_def fit_def recorders_fit_def
  from st show ?thesis
  proof (cases rule: step.cases)
    case (enter rq)
    then show ?thesis using gateway_enter_fit [OF ok] by simp
  next
    case (start now)
    have "input_fits (base_input (w_call w) [] ''checkout'' OperationEntrypoint EventStart EventRunning 1)" by (simp add: inputs_fit)
    from record_succeeds [OF rec start(3) this] obtain ev w1 where
      "record_as emit now Gateway (base_input (w_call w) [] ''checkout'' OperationEntrypoint EventStart EventRunning 1) w = (Inr ev, w1)"
      "recorders_fit w1" "recorded_in w w1" .
    with start(1) ok show ?thesis by (auto simp: gateway_start_def frame)
  next
    case (process now)
    let ?c = "(w_call w)\<lparr>ca_timeout := co_timeout (w_checkout w), ca_max := co_max (w_checkout w)\<rparr>"
    let ?i = "(base_input ?c (ca_gateway_start ?c) ''checkout.process'' OperationInternal EventStart EventRunning 1)\<lparr>ri_attributes := timeout_attributes ?c\<rparr>"
    have "input_fits ?i" using ok by (intro inputs_fit(2)) (simp_all add: fit_def)
    from record_succeeds [OF rec process(3) this] obtain ev w1 where
      "record_as emit now Checkout ?i w = (Inr ev, w1)" "recorders_fit w1" "recorded_in w w1" .
    with process(1) ok show ?thesis by (auto simp: process_start_def Let_def frame launch_def set_attempt_def)
  next
    case (timed_out now)
    let ?i = "(base_input (w_call w) (ca_start (w_call w)) ''checkout.process'' OperationControl EventTimeout EventTimedOut 1)\<lparr>ri_attributes := timeout_attributes (w_call w)\<rparr>"
    have "input_fits ?i" using ok timed_out(2) by (intro inputs_fit(2)) (simp_all add: fit_def)
    from record_succeeds [OF rec timed_out(3) this] obtain ev w1 where
      "record_as emit now Checkout ?i w = (Inr ev, w1)" "recorders_fit w1" "recorded_in w w1" .
    with timed_out(1) ok show ?thesis by (auto simp: record_timeout_def frame)
  next
    case (retry now)
    let ?i = "base_input (w_call w) (ca_start (w_call w)) ''checkout.process'' OperationControl EventRetry EventRunning 2"
    have "input_fits ?i" by (simp add: inputs_fit)
    from record_succeeds [OF rec retry(3) this] obtain ev w1 where
      "record_as emit now Checkout ?i w = (Inr ev, w1)" "recorders_fit w1" "recorded_in w w1" .
    with retry(1) ok show ?thesis by (auto simp: record_retry_def frame launch_def set_attempt_def)
  next
    case (collected n now)
    let ?i = "base_input (w_call w) (ca_start (w_call w)) ''checkout.process'' OperationInternal EventComplete EventSuccess n"
    have n: "1 \<le> n" using ok collected(2) by (simp add: fit_def)
    then have "input_fits ?i" by (simp add: inputs_fit)
    from record_succeeds [OF rec collected(4) this] obtain ev w1 where
      "record_as emit now Checkout ?i w = (Inr ev, w1)" "recorders_fit w1" "recorded_in w w1" .
    with collected(1) ok n show ?thesis by (auto simp: process_complete_def frame)
  next
    case (complete n now)
    let ?i = "base_input (w_call w) (ca_gateway_start (w_call w)) ''checkout'' OperationEntrypoint EventComplete EventSuccess n"
    have "input_fits ?i" using ok complete(2) by (simp add: inputs_fit fit_def)
    from record_succeeds [OF rec complete(3) this] obtain ev w1 where
      r: "record_as emit now Gateway ?i w = (Inr ev, w1)" "recorders_fit w1" "recorded_in w w1" .
    then have "fit ctl w1" using ok by (auto simp: frame)
    with complete(1) r gateway_return_fit show ?thesis by (simp add: gateway_complete_def)
  next
    case (failed n a err)
    with ok show ?thesis by (metis fit_def fits_simps(16) option.distinct(1))
  next
    case (attempt a now)
    then have "a = 1 \<or> a = 2" using pcs by (auto simp: pcs_ok_def running_attempt_def)
    then have "1 \<le> a" by auto
    with attempt attempt_step_fit [OF ok] show ?thesis by simp
  qed (use ok in \<open>auto simp: frame\<close>)
qed

text \<open>A run that cannot go on has been answered.\<close>

lemma stuck_answered:
  assumes steps: "(step emit ctl)\<^sup>*\<^sup>* w w'" and kept: "kept dedup w" and fit: "fit ctl w" and stuck: "\<nexists>w''. step emit ctl w' w''"
  obtains res where "w_main w' = Returned (Inr res)" "kept dedup w'"
proof -
  have "fit ctl w' \<and> kept dedup w'"
    using steps kept fit
  proof (induction rule: rtranclp_induct)
    case (step y z)
    then show ?case using step_fit [OF step(2)] reached_kept [OF r_into_rtranclp [of "step emit ctl", OF step(2)]] by (simp add: kept_def)
  qed simp
  moreover from this have "\<exists>x. w_main w' = Returned x" using stuck_idle [OF _ stuck] unfolding kept_def by blast
  then obtain x where "w_main w' = Returned x" ..
  ultimately show thesis using that by (cases x) (auto simp: fit_def)
qed

end

section \<open>Runs exist\<close>

lemma run_ends: "pcs_ok w \<Longrightarrow> \<exists>w'. (step emit ctl)\<^sup>*\<^sup>* w w' \<and> (\<nexists>w''. step emit ctl w' w'')"
proof (induction "steps_ahead w" arbitrary: w rule: less_induct)
  case less
  show ?case
  proof (cases "\<exists>v. step emit ctl w v")
    case True
    then obtain v where v: "step emit ctl w v" ..
    from less(1) [OF step_ahead [OF v less(2)] step_pcs [OF v less(2)]] v show ?thesis
      by (meson converse_rtranclp_into_rtranclp)
  qed blast
qed

lemma second_stays:
  assumes "step emit ctl w w'" and "w_attempt w 2 \<noteq> NotLaunched" and pcs: "pcs_ok w"
  shows "w_attempt w' 2 \<noteq> NotLaunched"
  using assms(1)
proof (cases rule: step_cases)
  case (moved now c i ev w1)
  from moved(2) assms(2) show ?thesis unfolding moved_def Let_def by (elim disjE exE conjE) auto
next
  case (works a now)
  have "a = 1 \<or> a = 2" using works(1) pcs by (auto simp: pcs_ok_def running_attempt_def)
  then have "1 \<le> a" by auto
  from attempt_step_shape [OF works(1) this, of emit now] works(2) assms(2) show ?thesis by (auto simp: set_attempt_def split: if_splits)
qed (use assms(2) in \<open>auto simp: gave_up_def entered_def chosen_def\<close>)

lemma second_remains:
  assumes "(step emit ctl)\<^sup>*\<^sup>* w w'" and "w_attempt w 2 \<noteq> NotLaunched" and "pcs_ok w"
  shows "w_attempt w' 2 \<noteq> NotLaunched"
proof -
  have "w_attempt w' 2 \<noteq> NotLaunched \<and> pcs_ok w'"
    using assms by (induction rule: rtranclp_induct) (auto dest: second_stays step_pcs)
  then show ?thesis by simp
qed

text \<open>Where a step of the request leads when it does not give up.\<close>

lemma main_moves:
  "w_main (gateway_start emit now ctl w) = ProcessStart \<or> (\<exists>e. w_main (gateway_start emit now ctl w) = Returned (Inl e))"
  "w_main (process_start emit now ctl w) = Selecting \<or> (\<exists>e. w_main (process_start emit now ctl w) = Returned (Inl e))"
  "ca_max (w_call w) = 2 \<Longrightarrow> w_main (record_timeout emit now ctl w) = Retrying \<or> (\<exists>e. w_main (record_timeout emit now ctl w) = Returned (Inl e))"
  "w_attempt (record_retry emit now ctl w) 2 = Authorizing \<or> (\<exists>e. w_main (record_retry emit now ctl w) = Returned (Inl e))"
  "w_main (gateway_enter ctl rq w) = GatewayStart \<or> (\<exists>e. w_main (gateway_enter ctl rq w) = Returned (Inl e))"
  by (auto simp: gateway_start_def process_start_def record_timeout_def record_retry_def gateway_enter_def Let_def launch_def
      set_attempt_def recorded_in_def dest: record_as_frame split: prod.split sum.split option.split)

context total_sink
begin

lemma retry_reached:
  assumes ok: "fit ctl w" "pcs_ok w" and entry: "w_main w = GatewayEntry rq"
  obtains w' where "(step emit ctl)\<^sup>*\<^sup>* w w'" "w_attempt w' 2 \<noteq> NotLaunched" "fit ctl w'" "pcs_ok w'"
proof -
  have go: "fit ctl v' \<and> pcs_ok v'" if "step emit ctl v v'" "fit ctl v" "pcs_ok v" for v v'
    using that step_fit step_pcs by blast
  have no: "w_main v \<noteq> Returned (Inl e)" if "fit ctl v" for v e using that by (auto simp: fit_def)
  define w1 where "w1 = gateway_enter ctl rq w"
  have s1: "step emit ctl w w1" unfolding w1_def using step.enter [OF entry] .
  have ok1: "fit ctl w1" "pcs_ok w1" "w_main w1 = GatewayStart"
    using go [OF s1 ok] main_moves(5) [of ctl rq w] no [of w1] by (auto simp: w1_def)
  define w2 where "w2 = gateway_start emit sample_now ctl w1"
  have s2: "step emit ctl w1 w2" unfolding w2_def using step.start [OF ok1(3) sample_now_ok] .
  have ok2: "fit ctl w2" "pcs_ok w2" "w_main w2 = ProcessStart"
    using go [OF s2 ok1(1,2)] main_moves(1) [of emit sample_now ctl w1] no [of w2] by (auto simp: w2_def)
  define w3 where "w3 = process_start emit sample_now ctl w2"
  have s3: "step emit ctl w2 w3" unfolding w3_def using step.process [OF ok2(3) sample_now_ok] .
  have ok3: "fit ctl w3" "pcs_ok w3" "w_main w3 = Selecting"
    using go [OF s3 ok2(1,2)] main_moves(2) [of emit sample_now ctl w2] no [of w3] by (auto simp: w3_def)
  define w4 where "w4 = w3\<lparr>w_main := TimerFired\<rparr>"
  have s4: "step emit ctl w3 w4" unfolding w4_def using step.timer [OF ok3(3)] .
  have ok4: "fit ctl w4" "pcs_ok w4" "w_main w4 = TimerFired" using go [OF s4 ok3(1,2)] by (auto simp: w4_def)
  define w5 where "w5 = record_timeout emit sample_now ctl w4"
  have s5: "step emit ctl w4 w5" unfolding w5_def using step.timed_out [OF ok4(3) sample_now_ok] .
  have "ca_max (w_call w4) = 2" using ok4(2,3) by (simp add: pcs_ok_def)
  then have ok5: "fit ctl w5" "pcs_ok w5" "w_main w5 = Retrying"
    using go [OF s5 ok4(1,2)] main_moves(3) [of w4 emit sample_now ctl] no [of w5] by (auto simp: w5_def)
  define w6 where "w6 = record_retry emit sample_now ctl w5"
  have s6: "step emit ctl w5 w6" unfolding w6_def using step.retry [OF ok5(3) sample_now_ok] .
  have ok6: "fit ctl w6" "pcs_ok w6" "w_attempt w6 2 = Authorizing"
    using go [OF s6 ok5(1,2)] main_moves(4) [of emit sample_now ctl w5] no [of w6] by (auto simp: w6_def)
  have "(step emit ctl)\<^sup>*\<^sup>* w w6" using s1 s2 s3 s4 s5 s6 by (meson converse_rtranclp_into_rtranclp rtranclp.rtrancl_refl)
  with ok6 show thesis using that [of w6] by simp
qed

end

section \<open>Properties\<close>

lemma new_world_fit: "0 \<le> latency \<Longrightarrow> control_fits ctl rq \<Longrightarrow> fit ctl (new_world g s latency dedup rq)"
  by (simp add: fit_def recorders_fit_def new_world_def NewRecorder_def new_call_def SetLatencyMs_def checkout_reset_def)

lemma new_world_kept: "memory.kept dedup (new_world g [] latency dedup rq)"
  by (rule memory.started_kept [OF new_world_started]) (simp add: new_world_def memory_events_def)

lemma new_world_pcs: "pcs_ok (new_world g s latency dedup rq)"
  using new_world_started [of dedup g s latency rq] by (auto simp: started_def pcs_ok_def)

text \<open>C16: a checkout always ends. Whatever the sink answers, however the goroutines of the request and of the attempts
  take turns and whenever the timer fires, a request takes at most 18 steps, and when nothing can move any more the
  gateway has returned and no attempt is still at work: the machine never waits for an attempt that never comes.\<close>

theorem checkout_terminates:
  assumes "(step emit ctl ^^ m) (new_world g s latency dedup rq) w"
  shows "m \<le> 18 \<and> ((\<nexists>w'. step emit ctl w w') \<longrightarrow> (\<exists>res. w_main w = Returned res) \<and> (\<forall>a. \<not> running_attempt (w_attempt w a)))"
proof -
  have w: "pcs_ok w \<and> m + steps_ahead w \<le> steps_ahead (new_world g s latency dedup rq)"
    by (rule steps_bounded [OF assms new_world_pcs])
  moreover have "steps_ahead (new_world g s latency dedup rq) = 18" by (simp add: steps_ahead_def new_world_def)
  ultimately show ?thesis using stuck_idle [of w emit ctl] by simp
qed

definition golden_world :: "bool \<Rightarrow> execution_event list world" where
  "golden_world dedup = new_world (NewIDGenerator 1) [] 350 dedup plain_request"

lemma golden_fit: "fit None (golden_world dedup)" "control_fits None plain_request"
  unfolding golden_world_def
  by (intro new_world_fit; simp add: control_fits_def plain_request_def ScenarioHealthy_def)
    (simp add: control_fits_def plain_request_def ScenarioHealthy_def)

text \<open>A run in which the timer fires first.\<close>

lemma golden_run_exists:
  obtains w where "(step memory_emit None)\<^sup>*\<^sup>* (golden_world dedup) w" "\<nexists>w'. step memory_emit None w w'" "w_attempt w 2 \<noteq> NotLaunched"
proof -
  have "w_main (golden_world dedup) = GatewayEntry plain_request" by (simp add: golden_world_def new_world_def)
  moreover have "pcs_ok (golden_world dedup)" by (simp add: golden_world_def new_world_pcs)
  ultimately obtain v where v: "(step memory_emit None)\<^sup>*\<^sup>* (golden_world dedup) v" "w_attempt v 2 \<noteq> NotLaunched" "pcs_ok v"
    using memory.retry_reached [OF golden_fit(1)] by blast
  obtain w where w: "(step memory_emit None)\<^sup>*\<^sup>* v w" "\<nexists>w'. step memory_emit None w w'" using run_ends [OF v(3)] by blast
  show thesis
    by (rule that [OF rtranclp_trans [OF v(1) w(1)] w(2) second_remains [OF w(1) v(2,3)]])
qed

theorem checkout_terminates_witness:
  "\<exists>m w. (step memory_emit None ^^ m) (golden_world False) w \<and> m \<le> 18 \<and> (\<exists>res. w_main w = Returned res) \<and> w_attempt w 2 \<noteq> NotLaunched"
proof -
  obtain w where w: "(step memory_emit None)\<^sup>*\<^sup>* (golden_world False) w" "\<nexists>w'. step memory_emit None w w'" "w_attempt w 2 \<noteq> NotLaunched"
    by (rule golden_run_exists)
  from rtranclp_imp_relpowp [OF w(1)] obtain m where m: "(step memory_emit None ^^ m) (golden_world False) w" ..
  from checkout_terminates [OF m [unfolded golden_world_def]] w m show ?thesis by blast
qed

text \<open>C2: the demo services show what the oracle looks for, exactly. A request on fresh services with a sink in memory
  is answered without an error at every interleaving of the goroutines; it took one or two attempts, and the oracle
  of the checkout pack, run on the events of the sink, matches exactly when there were two attempts and the ledger
  did not deduplicate. It counts the attempts that were made and the effects the ledger committed: one with
  deduplication, one for every attempt without.\<close>

theorem checkout_verdict:
  assumes "0 \<le> latency" and "control_fits ctl rq"
    and "(step memory_emit ctl)\<^sup>*\<^sup>* (new_world g [] latency dedup rq) w" and "\<nexists>w'. step memory_emit ctl w w'"
  shows "\<exists>res r. w_main w = Returned (Inr res) \<and> (gr_attempts res = 1 \<or> gr_attempts res = 2)
     \<and> evaluate (memory_events (w_sink w)) = Inr r
     \<and> or_matched r = (gr_attempts res = 2 \<and> \<not> dedup)
     \<and> or_effects r = \<lparr>payment_attempts = gr_attempts res, ledger_commits = (if dedup then 1 else gr_attempts res)\<rparr>
     \<and> int (CommittedEffectCount (w_ledger w)) = ledger_commits (or_effects r)"
proof -
  obtain res where res: "w_main w = Returned (Inr res)" "memory.kept dedup w"
    using memory.stuck_answered [OF assms(3) new_world_kept new_world_fit [OF assms(1,2)] assms(4)] .
  obtain r where "gr_attempts res = 1 \<or> gr_attempts res = 2" "evaluate (memory_events (w_sink w)) = Inr r"
    "or_matched r \<longleftrightarrow> gr_attempts res = 2 \<and> \<not> dedup"
    "or_effects r = \<lparr>payment_attempts = gr_attempts res, ledger_commits = (if dedup then 1 else gr_attempts res)\<rparr>"
    "int (length (led_effects (w_ledger w))) = (if dedup then 1 else gr_attempts res)"
    by (rule memory.answered [OF res(2,1)])
  with res(1) show ?thesis by (intro exI [of _ res] exI [of _ r]) (simp add: CommittedEffectCount_def)
qed

theorem checkout_verdict_witness:
  "\<exists>w r. (step memory_emit None)\<^sup>*\<^sup>* (golden_world False) w \<and> evaluate (memory_events (w_sink w)) = Inr r \<and> or_matched r
     \<and> or_effects r = \<lparr>payment_attempts = 2, ledger_commits = 2\<rparr>"
proof -
  obtain w where w: "(step memory_emit None)\<^sup>*\<^sup>* (golden_world False) w" "\<nexists>w'. step memory_emit None w w'" "w_attempt w 2 \<noteq> NotLaunched"
    by (rule golden_run_exists)
  have "memory.kept False (golden_world False)" by (simp add: golden_world_def new_world_kept)
  then have "memory.kept False w" by (rule memory.reached_kept [OF w(1)])
  then have "pcs_ok w" by (simp add: memory.kept_def)
  obtain res r where res: "w_main w = Returned (Inr res)" "evaluate (memory_events (w_sink w)) = Inr r"
    "or_matched r = (gr_attempts res = 2 \<and> \<not> False)"
    "or_effects r = \<lparr>payment_attempts = gr_attempts res, ledger_commits = gr_attempts res\<rparr>"
    using checkout_verdict [OF _ golden_fit(2) w(1) [unfolded golden_world_def] w(2)] by auto
  have "gr_attempts res = 2" using \<open>pcs_ok w\<close> res(1) w(3) by (auto simp: pcs_ok_def collected_pcs_def)
  with res w(1) show ?thesis by auto
qed

end
