(* ===== verification/Runner.thy ===== *)
theory Runner
  imports ServicesLive Replay
begin

text \<open>
  cmd/replay-worker/runner.go: the runner of the replay worker. It checks the plan, loads the fixtures into fresh demo
  services, sends one checkout through them with a sink that marks every event with the run, and reports the events
  with evidence of isolation. One execution is a relation, for the goroutines of the services take turns freely.
\<close>

section \<open>The sink of a replay\<close>

record replay_sink =
  sk_run :: string
  sk_events :: "execution_event list"
  sk_error :: "contract_error option"

definition replay_event_id :: "string \<Rightarrow> string \<Rightarrow> string" where
  "replay_event_id run k = ''evt-'' @ run @ ''-'' @ trim_prefix k ''evt-''"

definition replay_event :: "string \<Rightarrow> execution_event \<Rightarrow> execution_event" where
  "replay_event run e = e\<lparr>ev_run := run, ev_id := replay_event_id run (ev_id e),
     ev_parent := (if ev_parent e \<noteq> [] then replay_event_id run (ev_parent e) else ev_parent e)\<rparr>"

definition contract_error_text :: "contract_error \<Rightarrow> string" where
  "contract_error_text x = (case x of ContractError m \<Rightarrow> m)"

definition replay_emit :: "replay_sink sink" where
  "replay_emit e s =
     (let e' = replay_event (sk_run s) e
      in case event_validate e' of
          Some x \<Rightarrow> (Some (contract_error_text x), s\<lparr>sk_error := Some x\<rparr>)
        | None \<Rightarrow> (None, s\<lparr>sk_events := sk_events s @ [e']\<rparr>))"

definition snapshot :: "replay_sink \<Rightarrow> execution_event list" where
  "snapshot s = sk_events s"

section \<open>Plan and fixtures\<close>

datatype runner_error =
    UnexpectedPlan string
  | RunnerCancelled
  | CheckoutFailed service_error
  | ReplayEventInvalid contract_error

definition runner_components :: "string list" where
  "runner_components = [''gateway'', ''checkout'', ''payment'', ''ledger'']"

definition validatePlan :: "replay_plan \<Rightarrow> fixture_set \<Rightarrow> runner_error option" where
  "validatePlan plan fs =
     (if plan_entrypoint plan \<noteq> ''gateway.checkout'' then Some (UnexpectedPlan ''entrypoint'')
      else if (\<exists>c\<in>set (elems (plan_components plan)). c \<notin> set runner_components) then Some (UnexpectedPlan ''component'')
      else if fs_state fs = [] \<or> fs_dependency fs = []
      then Some (UnexpectedPlan ''expected state and dependency fixtures'')
      else if (\<exists>f\<in>set (fs_dependency fs). df_dependency f \<noteq> DependencyPaymentSimulator)
      then Some (UnexpectedPlan ''dependency'') else None)"

text \<open>The maps from the id of a fixture: the last fixture with an id wins.\<close>

definition stateByID :: "fixture_set \<Rightarrow> string \<Rightarrow> state_fixture option" where
  "stateByID fs k = find (\<lambda>f. sf_id f = k) (rev (fs_state fs))"

definition depByID :: "fixture_set \<Rightarrow> string \<Rightarrow> dependency_fixture option" where
  "depByID fs k = find (\<lambda>f. df_id f = k) (rev (fs_dependency fs))"

fun load_each :: "fixture_set \<Rightarrow> string list \<Rightarrow> ledger \<times> payment \<Rightarrow> runner_error + ledger \<times> payment" where
  "load_each fs [] (l, p) = Inr (l, p)"
| "load_each fs (k # ks) (l, p) =
     (case stateByID fs k of
        Some f \<Rightarrow>
          (if sf_kind f \<noteq> StateFixturePostgresRowset \<or> sf_reset f \<noteq> FixtureTruncateAndLoad
           then Inl (UnexpectedPlan ''state fixture'') else load_each fs ks (ledger_reset l, p))
      | None \<Rightarrow>
        (case depByID fs k of
           Some f \<Rightarrow>
             (if df_dependency f \<noteq> DependencyPaymentSimulator then Inl (UnexpectedPlan ''dependency fixture'')
              else load_each fs ks (l, SetLatencyMs (df_latency f) p))
         | None \<Rightarrow> Inl (UnexpectedPlan ''unknown fixture in load order'')))"

definition loadFixtures :: "bool \<Rightarrow> replay_plan \<Rightarrow> fixture_set \<Rightarrow> int \<Rightarrow> ledger \<times> payment \<Rightarrow> runner_error + ledger \<times> payment" where
  "loadFixtures cancelled plan fs latency lp =
     (if cancelled then Inl RunnerCancelled
      else if latency < 0 then Inl (UnexpectedPlan ''negative effective latency'')
      else (case load_each fs (elems (plan_load_order plan)) (ledger_reset (fst lp), snd lp) of
          Inl e \<Rightarrow> Inl e
        | Inr (l, p) \<Rightarrow> Inr (l, SetLatencyMs latency p)))"

definition teardown :: "ledger \<Rightarrow> bool \<times> ledger" where
  "teardown l = (True, ledger_reset l)"

section \<open>One execution\<close>

text \<open>Fresh services and recorders over the generator of the runner, with the sink of the run.\<close>

definition fresh_services :: "id_generator \<Rightarrow> string \<Rightarrow> replay_sink world" where
  "fresh_services g run = new_world g \<lparr>sk_run = run, sk_events = [], sk_error = None\<rparr> DefaultLatencyMs DefaultDeduplicationEnabled plain_request"

definition loaded_services :: "bool \<Rightarrow> id_generator \<Rightarrow> runner_config \<Rightarrow> runner_error + replay_sink world" where
  "loaded_services cancelled g cfg =
     (case validatePlan (rc_plan cfg) (rc_fixtures cfg) of
        Some e \<Rightarrow> Inl e
      | None \<Rightarrow>
        (let w = fresh_services g (rc_run cfg)
         in case loadFixtures cancelled (rc_plan cfg) (rc_fixtures cfg) (rc_latency cfg) (w_ledger w, w_payment w) of
            Inl e \<Rightarrow> Inl e
          | Inr (l, p) \<Rightarrow> Inr (w\<lparr>w_ledger := l, w_payment := p\<rparr>)))"

definition report :: "runner_config \<Rightarrow> replay_sink world \<Rightarrow> runner_error + runner_output" where
  "report cfg w =
     (case sk_error (w_sink w) of
        Some x \<Rightarrow> Inl (ReplayEventInvalid x)
      | None \<Rightarrow>
        (let ok = fst (teardown (w_ledger w))
         in Inr \<lparr>ro_events = snapshot (w_sink w), ro_isolation = IsolationFor (rc_namespace cfg) ok, ro_teardown = \<not> ok\<rparr>))"

text \<open>The answers \<open>Run\<close> can give, with the generator after it. An error hides the result.\<close>

inductive demo_run :: "bool \<Rightarrow> id_generator \<Rightarrow> runner_config \<Rightarrow> runner_error + runner_output \<Rightarrow> id_generator \<Rightarrow> bool"
  for cancelled g cfg where
  rejected: "loaded_services cancelled g cfg = Inl e \<Longrightarrow> demo_run cancelled g cfg (Inl e) g"
| failed: "loaded_services cancelled g cfg = Inr w \<Longrightarrow> (step replay_emit None)\<^sup>*\<^sup>* w w' \<Longrightarrow> w_main w' = Returned (Inl e)
    \<Longrightarrow> demo_run cancelled g cfg (Inl (CheckoutFailed e)) (w_ids w')"
| answered: "loaded_services cancelled g cfg = Inr w \<Longrightarrow> (step replay_emit None)\<^sup>*\<^sup>* w w' \<Longrightarrow> w_main w' = Returned (Inr res)
    \<Longrightarrow> demo_run cancelled g cfg (report cfg w') (w_ids w')"

section \<open>The sink keeps what it takes\<close>

lemma replay_event_valid: "event_validate e = None \<Longrightarrow> event_validate (replay_event run e) = None"
  by (simp add: event_validate_None_iff replay_event_def replay_event_id_def)

lemma replay_event_signature: "signature (replay_event run e) = signature e"
  by (simp add: signature_def replay_event_def)

interpretation replay: total_sink replay_emit sk_events
  by standard (auto simp: replay_emit_def Let_def replay_event_valid replay_event_signature split: option.splits)

end
