(* ===== verification/RunnerEvents.thy ===== *)
theory RunnerEvents
  imports Runner
begin

text \<open>
  What a step of the services offers to the sink, and what the sink of a replay holds: events that belong to the run,
  under ids that differ in their number.
\<close>

section \<open>What a step records\<close>

lemma step_records:
  assumes "step emit ctl w w'"
  shows "w_sink w' = w_sink w \<and> w_ids w' = w_ids w
    \<or> (\<exists>now c i res w1. record_as emit now c i w = (res, w1) \<and> w_sink w' = w_sink w1 \<and> w_ids w' = w_ids w1)"
  using assms
proof (cases rule: step.cases)
  case (enter rq)
  obtain k g where "allocate rq (w_checkout_ids w) = (k, g)" by fastforce
  with enter show ?thesis by (auto simp: gateway_enter_def Let_def split: option.split prod.split)
next
  case (start now)
  obtain res w1 where "record_as emit now Gateway (base_input (w_call w) [] ''checkout'' OperationEntrypoint EventStart EventRunning 1) w = (res, w1)" by fastforce
  with start show ?thesis by (intro disjI2 exI conjI) (assumption, auto simp: gateway_start_def split: sum.split)
next
  case (process now)
  let ?c = "(w_call w)\<lparr>ca_timeout := co_timeout (w_checkout w), ca_max := co_max (w_checkout w)\<rparr>"
  obtain res w1 where "record_as emit now Checkout ((base_input ?c (ca_gateway_start ?c) ''checkout.process'' OperationInternal EventStart EventRunning 1)\<lparr>ri_attributes := timeout_attributes ?c\<rparr>) w = (res, w1)" by fastforce
  with process show ?thesis
    by (intro disjI2 exI conjI) (assumption, auto simp: process_start_def Let_def launch_def set_attempt_def split: sum.split)
next
  case (timed_out now)
  obtain res w1 where "record_as emit now Checkout ((base_input (w_call w) (ca_start (w_call w)) ''checkout.process'' OperationControl EventTimeout EventTimedOut 1)\<lparr>ri_attributes := timeout_attributes (w_call w)\<rparr>) w = (res, w1)" by fastforce
  with timed_out show ?thesis by (intro disjI2 exI conjI) (assumption, auto simp: record_timeout_def split: sum.split)
next
  case (retry now)
  obtain res w1 where "record_as emit now Checkout (base_input (w_call w) (ca_start (w_call w)) ''checkout.process'' OperationControl EventRetry EventRunning 2) w = (res, w1)" by fastforce
  with retry show ?thesis by (intro disjI2 exI conjI) (assumption, auto simp: record_retry_def launch_def set_attempt_def split: sum.split)
next
  case (collected n now)
  obtain res w1 where "record_as emit now Checkout (base_input (w_call w) (ca_start (w_call w)) ''checkout.process'' OperationInternal EventComplete EventSuccess n) w = (res, w1)" by fastforce
  with collected show ?thesis by (intro disjI2 exI conjI) (assumption, auto simp: process_complete_def split: sum.split)
next
  case (complete n now)
  obtain res w1 where "record_as emit now Gateway (base_input (w_call w) (ca_gateway_start (w_call w)) ''checkout'' OperationEntrypoint EventComplete EventSuccess n) w = (res, w1)" by fastforce
  with complete show ?thesis by (intro disjI2 exI conjI) (assumption, auto simp: gateway_complete_def split: sum.split)
next
  case (attempt a now)
  show ?thesis
  proof (cases "w_attempt w a")
    case (Admitted l)
    obtain res w1 where "record_as emit now Payment (payment_start_input (w_call w) a l) w = (res, w1)" by fastforce
    with Admitted attempt show ?thesis by (intro disjI2 exI conjI) (assumption, auto simp: attempt_step_def set_attempt_def split: sum.split)
  next
    case (Sleeping l)
    obtain res w1 where "record_as emit now Payment (payment_complete_input (w_call w) a l) w = (res, w1)" by fastforce
    with Sleeping attempt show ?thesis by (intro disjI2 exI conjI) (assumption, auto simp: attempt_step_def set_attempt_def split: sum.split)
  next
    case (Committed b)
    obtain res w1 where "record_as emit now Ledger (effect_input (w_call w) a b) w = (res, w1)" by fastforce
    with Committed attempt show ?thesis by (intro disjI2 exI conjI) (assumption, auto simp: attempt_step_def set_attempt_def split: sum.split)
  qed (use attempt in \<open>auto simp: attempt_step_def set_attempt_def split: prod.split\<close>)
qed auto

text \<open>One record takes at most one id, and offers the sink at most one valid event under it.\<close>

definition offers :: "'k sink \<Rightarrow> 'k world \<Rightarrow> 'k world \<Rightarrow> bool" where
  "offers emit w w' \<longleftrightarrow> w_sink w' = w_sink w \<and> w_ids w' = w_ids w
     \<or> ig_events (w_ids w') = ig_events (w_ids w) + 1 \<and> (w_sink w' = w_sink w
         \<or> (\<exists>e nm. event_validate e = None \<and> ev_id e = event_id nm (ig_events (w_ids w) + 1) \<and> w_sink w' = snd (emit e (w_sink w))))"

lemma record_offers:
  assumes "record_as emit now c i w = (res, w1)"
  shows "offers emit w w1"
proof -
  obtain k g1 where k: "NextEventID (comp_name (recorder.rec_component (w_recs w c))) (w_ids w) = (k, g1)"
    "k = event_id (comp_name (recorder.rec_component (w_recs w c))) (ig_events (w_ids w) + 1)" "ig_events g1 = ig_events (w_ids w) + 1"
    by (simp add: NextEventID_def Let_def)
  obtain n r1 where n: "nextSequence (ri_execution i) (w_recs w c) = (n, r1)" by fastforce
  let ?e = "build_event i (recorder.rec_component (w_recs w c)) k now n"
  have id: "ev_id ?e = k" by (simp add: build_event_def)
  obtain x s1 where x: "emit ?e (w_sink w) = (x, s1)" by fastforce
  consider "ri_attempt i < 1" | "\<not> ri_attempt i < 1" "event_validate ?e \<noteq> None" | "\<not> ri_attempt i < 1" "event_validate ?e = None" by blast
  then show ?thesis
  proof cases
    case 3
    have "w_sink w1 = snd (emit ?e (w_sink w))" "ig_events (w_ids w1) = ig_events (w_ids w) + 1"
      using 3 assms k n x by (auto simp: record_as_def Record_def Let_def split: option.splits)
    with 3(2) id k(2) show ?thesis unfolding offers_def by blast
  qed (use assms k n in \<open>auto simp: record_as_def Record_def Let_def offers_def\<close>)
qed

lemma step_offers: "step emit ctl w w' \<Longrightarrow> offers emit w w'"
  using step_records [of emit ctl w w'] record_offers unfolding offers_def by fastforce

section \<open>The events of a run\<close>

text \<open>The number of an event id: what follows its last hyphen.\<close>

definition event_number :: "string \<Rightarrow> string" where
  "event_number k = takeWhile (\<lambda>c. c \<noteq> CHR ''-'') (rev k)"

lemma no_hyphen: "\<not> is_digit (CHR ''-'')"
  by code_simp

lemma event_number_replay [simp]: "event_number (replay_event_id run (event_id nm n)) = rev (nat_dec (unat n))"
proof -
  let ?d = "nat_dec (unat n)"
  have id: "replay_event_id run (event_id nm n) = (''evt-'' @ run @ ''-'' @ nm) @ CHR ''-'' # ?d"
    by (simp add: replay_event_id_def event_id_def trim_prefix_append [of "''evt-''", simplified])
  have "\<And>c. c \<in> set (rev ?d) \<Longrightarrow> c \<noteq> CHR ''-''" using nat_dec_digits [of "unat n"] no_hyphen by (metis set_rev)
  from takeWhile_append2 [of "rev ?d" "\<lambda>c. c \<noteq> CHR ''-''", OF this] show ?thesis unfolding event_number_def id by simp
qed

definition run_sink_ok :: "string \<Rightarrow> replay_sink world \<Rightarrow> bool" where
  "run_sink_ok run w \<longleftrightarrow> sk_run (w_sink w) = run \<and> sk_error (w_sink w) = None
     \<and> (\<forall>e\<in>set (sk_events (w_sink w)). ev_run e = run
          \<and> (\<exists>nm n. ev_id e = replay_event_id run (event_id nm n) \<and> unat n \<le> unat (ig_events (w_ids w))))
     \<and> distinct (map (event_number \<circ> ev_id) (sk_events (w_sink w)))
     \<and> unat (ig_events (w_ids w)) + steps_ahead w < 2 ^ 64"

lemma run_sink_parts:
  assumes "run_sink_ok run w"
  shows "sk_run (w_sink w) = run" and "sk_error (w_sink w) = None"
    and "\<forall>e\<in>set (sk_events (w_sink w)). ev_run e = run
          \<and> (\<exists>nm n. ev_id e = replay_event_id run (event_id nm n) \<and> unat n \<le> unat (ig_events (w_ids w)))"
    and "distinct (map (event_number \<circ> ev_id) (sk_events (w_sink w)))"
    and "unat (ig_events (w_ids w)) + steps_ahead w < 2 ^ 64"
  using assms unfolding run_sink_ok_def by - (elim conjE, assumption)+

lemma step_run_sink:
  assumes st: "step replay_emit ctl w w'" and pcs: "pcs_ok w" and ok: "run_sink_ok run w"
  shows "run_sink_ok run w'"
proof -
  have ahead: "steps_ahead w' < steps_ahead w" by (rule step_ahead [OF st pcs])
  let ?n = "ig_events (w_ids w)"
  from step_offers [OF st] show ?thesis unfolding offers_def
  proof (elim disjE conjE exE)
    assume "w_sink w' = w_sink w" "w_ids w' = w_ids w"
    with ok ahead show ?thesis by (auto simp: run_sink_ok_def)
  next
    assume n: "ig_events (w_ids w') = ?n + 1"
    have lim: "unat ?n + 1 < 2 ^ 64" using run_sink_parts(5) [OF ok] ahead by simp
    then have suc: "unat (?n + 1) = unat ?n + 1" by (simp add: unat_add_lem [THEN iffD1])
    { assume "w_sink w' = w_sink w"
      with ok n suc ahead show ?thesis unfolding run_sink_ok_def by (fastforce intro: le_SucI) }
    { fix e nm
      assume e: "event_validate e = None" "ev_id e = event_id nm (?n + 1)" and sink: "w_sink w' = snd (replay_emit e (w_sink w))"
      let ?e = "replay_event run e"
      have "sk_run (w_sink w) = run" by (rule run_sink_parts(1) [OF ok])
      then have s: "sk_events (w_sink w') = sk_events (w_sink w) @ [?e]" "sk_run (w_sink w') = run" "sk_error (w_sink w') = sk_error (w_sink w)"
        using sink e(1) by (simp_all add: replay_emit_def Let_def replay_event_valid)
      have id: "ev_id ?e = replay_event_id run (event_id nm (?n + 1))" "ev_run ?e = run" using e(2) by (simp_all add: replay_event_def)
      have "event_number (ev_id ?e) \<noteq> event_number (ev_id x)" if x: "x \<in> set (sk_events (w_sink w))" for x
      proof -
        obtain c m where "ev_id x = replay_event_id run (event_id c m)" "unat m \<le> unat ?n"
          using run_sink_parts(3) [OF ok] x by metis
        moreover from this(2) suc have "unat (?n + 1) \<noteq> unat m" by linarith
        ultimately show ?thesis by (simp only: id(1) event_number_replay rev_is_rev_conv nat_dec_inj not_False_eq_True)
      qed
      then have "event_number (ev_id ?e) \<notin> set (map (event_number \<circ> ev_id) (sk_events (w_sink w)))" by (simp add: image_iff)
      moreover have "distinct (map (event_number \<circ> ev_id) (sk_events (w_sink w)))" by (rule run_sink_parts(4) [OF ok])
      ultimately have "distinct (map (event_number \<circ> ev_id) (sk_events (w_sink w')))"
        by (simp only: s(1) map_append distinct_append list.map) simp
      moreover have "\<exists>c m. ev_id x = replay_event_id run (event_id c m) \<and> unat m \<le> unat (ig_events (w_ids w'))"
        if "x \<in> set (sk_events (w_sink w'))" for x
      proof (cases "x = ?e")
        case True
        with id(1) n show ?thesis by auto
      next
        case False
        with that s(1) have "x \<in> set (sk_events (w_sink w))" by simp
        with run_sink_parts(3) [OF ok] obtain c m where "ev_id x = replay_event_id run (event_id c m)" "unat m \<le> unat ?n"
          by metis
        with n suc show ?thesis by (metis le_add1 le_trans)
      qed
      moreover have "\<forall>x\<in>set (sk_events (w_sink w)). ev_run x = run" using run_sink_parts(3) [OF ok] by metis
      then have "\<forall>x\<in>set (sk_events (w_sink w')). ev_run x = run" using id(2) by (simp add: s(1))
      moreover have "sk_error (w_sink w) = None" "unat (?n + 1) + steps_ahead w' < 2 ^ 64"
        using run_sink_parts(2,5) [OF ok] suc ahead by simp_all
      ultimately show ?thesis unfolding run_sink_ok_def n using s(2,3) by simp }
  qed
qed

end
