(* ===== verification/RunnerProps.thy ===== *)
theory RunnerProps
  imports RunnerEvents WorkerLive
begin

text \<open>
  What one execution of the replay runner reports, and the replay worker with this runner, end to end.
\<close>

section \<open>Loading the fixtures\<close>

lemma ledger_reset_twice [simp]: "ledger_reset (ledger_reset l) = ledger_reset l"
  by (simp add: ledger_reset_def)

lemma load_each_Inr:
  "load_each fs ks (ledger_reset l, p) = Inr (l', p') \<Longrightarrow> l' = ledger_reset l \<and> pay_attempts p' = pay_attempts p"
proof (induction ks arbitrary: p)
  case (Cons k ks)
  then show ?case by (auto simp: SetLatencyMs_def split: option.split_asm if_splits)
qed simp

definition replay_world :: "id_generator \<Rightarrow> runner_config \<Rightarrow> replay_sink world" where
  "replay_world g cfg = new_world g \<lparr>sk_run = rc_run cfg, sk_events = [], sk_error = None\<rparr> (rc_latency cfg) False plain_request"

lemma loaded_world:
  assumes "loaded_services cancelled g cfg = Inr w"
  shows "w = replay_world g cfg" and "0 \<le> rc_latency cfg"
proof -
  let ?w = "fresh_services g (rc_run cfg)"
  have lp: "w_ledger ?w = ledger_reset \<lparr>led_dedup = False, led_effects = [], led_first = Map.empty\<rparr>"
    "w_payment ?w = payment_reset \<lparr>pay_latency = 0, pay_attempts = 0\<rparr>"
    by (simp_all add: fresh_services_def new_world_def SetDeduplicationEnabled_def DefaultDeduplicationEnabled_def ledger_reset_def
        SetLatencyMs_def payment_reset_def DefaultLatencyMs_def)
  have "validatePlan (rc_plan cfg) (rc_fixtures cfg) = None"
    using assms by (cases "validatePlan (rc_plan cfg) (rc_fixtures cfg)") (simp_all add: loaded_services_def)
  with assms obtain l p where w: "loadFixtures cancelled (rc_plan cfg) (rc_fixtures cfg) (rc_latency cfg) (w_ledger ?w, w_payment ?w) = Inr (l, p)"
    "w = ?w\<lparr>w_ledger := l, w_payment := p\<rparr>"
    by (auto simp: loaded_services_def Let_def split: sum.split_asm)
  then obtain p0 where p0: "load_each (rc_fixtures cfg) (elems (plan_load_order (rc_plan cfg))) (ledger_reset (w_ledger ?w), w_payment ?w) = Inr (l, p0)"
    "p = SetLatencyMs (rc_latency cfg) p0"
    by (auto simp: loadFixtures_def split: if_splits sum.split_asm)
  show "0 \<le> rc_latency cfg" using w(1) by (auto simp: loadFixtures_def split: if_splits)
  have l: "l = w_ledger ?w" "pay_attempts p0 = 0" using load_each_Inr [OF p0(1)] by (simp_all add: lp payment_reset_def)
  have "p = \<lparr>pay_latency = rc_latency cfg, pay_attempts = 0\<rparr>" unfolding p0(2) SetLatencyMs_def using l(2) by (cases p0) simp
  with w(2) l(1) show "w = replay_world g cfg"
    by (simp add: replay_world_def fresh_services_def new_world_def SetDeduplicationEnabled_def DefaultDeduplicationEnabled_def
        ledger_reset_def SetLatencyMs_def payment_reset_def)
qed

text \<open>A capsule that passes its contract can be loaded.\<close>

lemma load_each_known:
  assumes "\<forall>k\<in>set ks. k \<in> sf_id ` set (fs_state fs) \<union> df_id ` set (fs_dependency fs)"
    and "\<forall>f\<in>set (fs_state fs). sf_kind f = StateFixturePostgresRowset \<and> sf_reset f = FixtureTruncateAndLoad"
    and "\<forall>f\<in>set (fs_dependency fs). df_dependency f = DependencyPaymentSimulator"
  shows "\<exists>l p. load_each fs ks lp = Inr (l, p)"
  using assms(1)
proof (induction ks arbitrary: lp)
  case (Cons k ks)
  obtain l p where lp: "lp = (l, p)" by (cases lp)
  show ?case
  proof (cases "stateByID fs k")
    case (Some f)
    then have "f \<in> set (fs_state fs)" unfolding stateByID_def by (metis find_Some_iff nth_mem set_rev)
    with Some lp Cons assms(2) show ?thesis by simp
  next
    case None
    then have "k \<notin> sf_id ` set (fs_state fs)" by (auto simp: stateByID_def find_None_iff)
    then have "k \<in> df_id ` set (fs_dependency fs)" using Cons.prems by simp
    then have "depByID fs k \<noteq> None" by (auto simp: depByID_def find_None_iff)
    then obtain f where f: "depByID fs k = Some f" by blast
    then have "f \<in> set (fs_dependency fs)" unfolding depByID_def by (metis find_Some_iff nth_mem set_rev)
    with None f lp Cons assms(3) show ?thesis by simp
  qed
next
  case Nil
  show ?case by (cases lp) simp
qed

lemma capsule_loads:
  assumes c: "capsule_validate c = None" and cfg: "rc_fixtures cfg = capsule_fixtures c" "0 \<le> rc_latency cfg"
    and plan: "plan_entrypoint (rc_plan cfg) = plan_entrypoint (cap_plan c)" "elems (plan_components (rc_plan cfg)) = elems (plan_components (cap_plan c))"
      "elems (plan_load_order (rc_plan cfg)) = elems (plan_load_order (cap_plan c))"
  shows "loaded_services False g cfg = Inr (replay_world g cfg)"
proof -
  note parts = capsule_valid_parts [OF c]
  have ok: "validatePlan (rc_plan cfg) (rc_fixtures cfg) = None"
  proof -
    have "elems (plan_components (rc_plan cfg)) = runner_components"
      using parts(6) unfolding plan by (simp add: runner_components_def p0_components_def elems_def)
    then show ?thesis using parts(7,9,10,11) by (simp add: validatePlan_def plan(1) cfg)
  qed
  let ?w = "fresh_services g (rc_run cfg)"
  have "\<forall>k\<in>set (elems (plan_load_order (cap_plan c))). k \<in> sf_id ` set (cap_state_fixtures c) \<union> df_id ` set (cap_dependency_fixtures c)"
    using parts(2) by (auto simp: fixture_ids_def elems_def)
  then obtain l p where "load_each (rc_fixtures cfg) (elems (plan_load_order (rc_plan cfg))) (ledger_reset (w_ledger ?w), w_payment ?w) = Inr (l, p)"
    using load_each_known [of "elems (plan_load_order (rc_plan cfg))" "rc_fixtures cfg" "(ledger_reset (w_ledger ?w), w_payment ?w)"]
      parts(8,9) by (simp add: plan cfg) blast
  then have "\<exists>w. loaded_services False g cfg = Inr w"
    using ok cfg(2) by (simp add: loaded_services_def loadFixtures_def Let_def)
  then show ?thesis using loaded_world by blast
qed

section \<open>What an execution reports\<close>

lemma replay_world_ok:
  assumes "0 \<le> rc_latency cfg"
  shows "replay.kept False (replay_world g cfg)" and "fit None (replay_world g cfg)"
    and "pcs_ok (replay_world g cfg)"
    and "unat (ig_events g) + 18 < 2 ^ 64 \<Longrightarrow> run_sink_ok (rc_run cfg) (replay_world g cfg)"
proof -
  show "replay.kept False (replay_world g cfg)" unfolding replay_world_def
    by (rule replay.started_kept [OF new_world_started]) (simp add: new_world_def)
  show "fit None (replay_world g cfg)" unfolding replay_world_def
    by (rule new_world_fit [OF assms]) (simp add: control_fits_def plain_request_def ScenarioHealthy_def)
  show "pcs_ok (replay_world g cfg)" unfolding replay_world_def by (rule new_world_pcs)
  show "run_sink_ok (rc_run cfg) (replay_world g cfg)" if "unat (ig_events g) + 18 < 2 ^ 64"
    using that by (simp add: run_sink_ok_def replay_world_def new_world_def steps_ahead_def)
qed

text \<open>Everything holds along the run.\<close>

lemma replay_reached:
  assumes "(step replay_emit None)\<^sup>*\<^sup>* w w'" and "replay.kept False w" "fit None w" "run_sink_ok run w"
  shows "replay.kept False w' \<and> fit None w' \<and> run_sink_ok run w'"
  using assms
proof (induction rule: rtranclp_induct)
  case (step y z)
  then have ok: "replay.kept False y" "fit None y" "run_sink_ok run y" by simp_all
  have pcs: "pcs_ok y" using ok(1) by (simp add: replay.kept_def)
  show ?case
    using replay.step_fit [OF step(2) ok(2) pcs] step_run_sink [OF step(2) pcs ok(3)]
      replay.reached_kept [OF r_into_rtranclp [of "step replay_emit None", OF step(2)] ok(1)] by blast
qed simp

definition replay_report :: "runner_config \<Rightarrow> int \<Rightarrow> oracle_result \<Rightarrow> runner_output \<Rightarrow> bool" where
  "replay_report cfg n r out \<longleftrightarrow> (n = 1 \<or> n = 2)
     \<and> ro_isolation out = IsolationFor (rc_namespace cfg) True \<and> \<not> ro_teardown out
     \<and> distinct (map ev_id (ro_events out))
     \<and> (\<forall>e\<in>set (ro_events out). ev_run e = rc_run cfg \<and> event_validate e = None \<and> has_prefix (ev_id e) (''evt-'' @ rc_run cfg @ ''-''))
     \<and> evaluate (ro_events out) = Inr r \<and> or_matched r = (n = 2) \<and> or_effects r = \<lparr>payment_attempts = n, ledger_commits = n\<rparr>"

lemma replay_id_prefix: "has_prefix (replay_event_id run k) (''evt-'' @ run @ ''-'')"
  using has_prefix_append [of "''evt-'' @ run @ ''-''" "trim_prefix k ''evt-''"] by (simp only: replay_event_id_def append_assoc)

lemma report_answered:
  assumes "replay.kept False w" "run_sink_ok (rc_run cfg) w" "w_main w = Returned (Inr res)"
  shows "\<exists>out r. report cfg w = Inr out \<and> replay_report cfg (gr_attempts res) r out"
proof -
  obtain r where r: "gr_attempts res = 1 \<or> gr_attempts res = 2" "evaluate (sk_events (w_sink w)) = Inr r"
    "or_matched r \<longleftrightarrow> gr_attempts res = 2 \<and> \<not> False"
    "or_effects r = \<lparr>payment_attempts = gr_attempts res, ledger_commits = (if False then 1 else gr_attempts res)\<rparr>"
    by (rule replay.answered [OF assms(1,3)])
  note parts = run_sink_parts [OF assms(2)]
  let ?es = "sk_events (w_sink w)"
  have valid: "\<forall>e\<in>set ?es. event_validate e = None" using assms(1) by (simp add: replay.kept_def events_ok_def)
  have ids: "\<forall>e\<in>set ?es. ev_run e = rc_run cfg \<and> has_prefix (ev_id e) (''evt-'' @ rc_run cfg @ ''-'')"
    using parts(3) replay_id_prefix by metis
  have "distinct (map event_number (map ev_id ?es))" using parts(4) by (simp add: comp_def)
  then have "distinct (map ev_id ?es)" by (simp only: distinct_map simp_thms)
  moreover have "report cfg w = Inr \<lparr>ro_events = ?es, ro_isolation = IsolationFor (rc_namespace cfg) True, ro_teardown = False\<rparr>"
    using parts(2) by (simp add: report_def teardown_def snapshot_def)
  ultimately show ?thesis using r valid ids
    by (intro exI [of _ "\<lparr>ro_events = ?es, ro_isolation = IsolationFor (rc_namespace cfg) True, ro_teardown = False\<rparr>"] exI [of _ r])
      (simp add: replay_report_def)
qed

lemma demo_run_reports:
  assumes "demo_run cancelled g cfg x g'" and lim: "unat (ig_events g) + 18 < 2 ^ 64"
  shows "(\<exists>e. x = Inl e \<and> loaded_services cancelled g cfg = Inl e) \<or> (\<exists>n r out. x = Inr out \<and> replay_report cfg n r out)"
  using assms(1)
proof (cases rule: demo_run.cases)
  case (failed w w' e)
  note w = loaded_world [OF failed(3)]
  note ok = replay_world_ok [OF w(2), of g]
  from replay_reached [OF failed(4) [unfolded w(1)] ok(1,2) ok(4) [OF lim]] failed(5) have False by (simp add: fit_def)
  then show ?thesis ..
next
  case (answered w w' res)
  note w = loaded_world [OF answered(3)]
  note ok = replay_world_ok [OF w(2), of g]
  from replay_reached [OF answered(4) [unfolded w(1)] ok(1,2) ok(4) [OF lim]]
  have "replay.kept False w'" "run_sink_ok (rc_run cfg) w'" by simp_all
  from report_answered [OF this answered(5)] answered(1) show ?thesis by blast
qed blast

text \<open>There is always an execution.\<close>

lemma demo_run_exists: "\<exists>x g'. demo_run cancelled g cfg x g'"
proof (cases "loaded_services cancelled g cfg")
  case (Inl e)
  then show ?thesis by (blast intro: demo_run.rejected)
next
  case (Inr w)
  note w = loaded_world [OF Inr]
  have pcs: "pcs_ok w" unfolding w(1) by (rule replay_world_ok(3) [OF w(2)])
  obtain w' where run: "(step replay_emit None)\<^sup>*\<^sup>* w w'" "\<nexists>w''. step replay_emit None w' w''" using run_ends [OF pcs] by blast
  have "pcs_ok w'" using run(1) pcs by (induction rule: rtranclp_induct) (auto dest: step_pcs)
  with stuck_idle run(2) obtain res where "w_main w' = Returned res" by blast
  then show ?thesis using Inr run(1) by (cases res) (blast intro: demo_run.failed demo_run.answered)+
qed

section \<open>The worker with this runner\<close>

text \<open>A function that answers what \<open>Run\<close> can answer, with errors as texts.\<close>

definition runner_error_text :: "runner_error \<Rightarrow> string" where
  "runner_error_text e =
     (case e of UnexpectedPlan m \<Rightarrow> ''replay worker: unsupported replay plan entrypoint or component: '' @ m
      | RunnerCancelled \<Rightarrow> ''context canceled'' | CheckoutFailed _ \<Rightarrow> ''gateway'' | ReplayEventInvalid x \<Rightarrow> contract_error_text x)"

definition runs_demo :: "id_generator \<Rightarrow> runner \<Rightarrow> bool" where
  "runs_demo g runner \<longleftrightarrow> (\<forall>cfg. \<exists>x g'. demo_run False g cfg x g' \<and> runner cfg = map_sum runner_error_text id x)"

lemma runs_demo_exists: "\<exists>runner. runs_demo g runner"
proof -
  have "\<forall>cfg. \<exists>y. \<exists>x g'. demo_run False g cfg x g' \<and> y = map_sum runner_error_text id x" using demo_run_exists by blast
  from choice [OF this] show ?thesis unfolding runs_demo_def by blast
qed

text \<open>What the worker hands to the runner can be loaded: the plan of a baseline run is the capsule's, and the
  checkout pack leaves it alone for a what-if run.\<close>

lemma plan_of_run:
  assumes run: "run_validate run = None" and c: "capsule_validate c = None"
  obtains plan latency where "effective_plan (checkout_pack sha content split dec) run c = Inr (plan, latency)" "0 \<le> latency"
    "plan_entrypoint plan = plan_entrypoint (cap_plan c)" "elems (plan_components plan) = elems (plan_components (cap_plan c))"
    "elems (plan_load_order plan) = elems (plan_load_order (cap_plan c))"
    "validateReplaySafety c run plan (capsule_fixtures c) = None"
proof -
  note parts = capsule_valid_parts [OF c]
  have lat: "0 \<le> fixtureLatency c"
    using parts(9,11) by (cases "cap_dependency_fixtures c") (simp_all add: fixtureLatency_def)
  from run show thesis
  proof (cases rule: run_kind_cases)
    case 1
    show thesis
      by (rule that [of "cap_plan c" "fixtureLatency c"])
        (use 1 lat valid_capsule_safe [OF c run 1(1)] in \<open>simp_all add: effective_plan_def\<close>)
  next
    case (2 i)
    let ?plan = "(cap_plan c)\<lparr>plan_components := append_nil (plan_components (cap_plan c)),
        plan_load_order := append_nil (plan_load_order (cap_plan c))\<rparr>"
    have i: "iv_type i = InterventionPaymentLatency" "iv_unit i = InterventionUnitMilliseconds" "0 \<le> iv_from i"
      "0 \<le> iv_to i" "iv_to i \<le> 5000" "iv_from i \<noteq> iv_to i"
      using 2(4) by (auto simp: intervention_validate_def split: if_splits)
    have "effective_plan (checkout_pack sha content split dec) run c = Inr (?plan, iv_to i)"
      using 2 i by (simp add: effective_plan_def checkout_pack_def ApplyIntervention_def paymentLatencySpec_def)
    moreover have "allowedIntervention c i" using i parts(5) by (simp add: allowedIntervention_def p0_interventions_def)
    moreover have "replayOnlyPlan ?plan (capsule_fixtures c)"
      using parts(6,9) by (auto simp: replayOnlyPlan_def p0_components_def replay_services_def)
    ultimately show thesis using that [of ?plan "iv_to i"] 2 i(4) parts(3) by (simp add: validateReplaySafety_def)
  qed
qed

lemma replay_report_parts:
  assumes "replay_report cfg n r out" and "rc_namespace cfg \<noteq> []"
  shows "ro_events out \<noteq> []" and "oracle_result_validate r = None"
    and "isolation_validate (ro_isolation out) = None" and "iso_verdict (ro_isolation out) = VerdictPass"
proof -
  have ev: "evaluate (ro_events out) = Inr r" "\<forall>e\<in>set (ro_events out). event_validate e = None \<and> has_prefix (ev_id e) (''evt-'' @ rc_run cfg @ ''-'')"
    using assms by (simp_all add: replay_report_def)
  show "ro_events out \<noteq> []" using ev(1) by (auto simp: evaluate.simps)
  have p: "printable (CHR ''e'')" by code_simp
  have "\<not> blank (ev_id e)" if "e \<in> set (ro_events out)" for e
    using ev(2) that by (intro printable_not_blank [OF _ p]) (auto simp: has_prefix_iff)
  with ev show "oracle_result_validate r = None" by (intro evaluate_valid [of "ro_events out"]) auto
  show "isolation_validate (ro_isolation out) = None" "iso_verdict (ro_isolation out) = VerdictPass"
    using assms by (simp_all add: replay_report_def IsolationFor_def isolation_validate_def isolation_failed_def elems_def)
qed

lemma demo_ready:
  assumes ok: "store_ok s" and run: "table_get (st_runs s) (run_id run) = Some run"
    and c: "table_get (st_capsules s) (run_capsule run) = Some c" "VerifyDigest h c" "ValidateCapsule c = []"
    and demo: "runs_demo g runner" "unat (ig_events g) + 18 < 2 ^ 64"
    and fresh: "\<forall>i. table_get (st_events s) i \<noteq> None \<longrightarrow> \<not> has_prefix i (''evt-'' @ run_id run @ ''-'')"
  shows "\<exists>n r. (n = 1 \<or> n = 2) \<and> replay_ready h (checkout_pack sha content split dec) runner run s r
    \<and> or_matched r = (n = 2) \<and> or_effects r = \<lparr>payment_attempts = n, ledger_commits = n\<rparr>"
proof -
  have valid: "run_validate run = None" using store_ok_get_run [OF ok run] by (simp add: run_row_def)
  have "tab.all_entries capsule_row (st_capsules s)" using ok by (simp add: store_ok_def)
  from tab.all_entriesD [OF this c(1)] have cv: "capsule_validate c = None" by (simp add: capsule_row_def)
  obtain plan latency where plan: "effective_plan (checkout_pack sha content split dec) run c = Inr (plan, latency)" "0 \<le> latency"
    "plan_entrypoint plan = plan_entrypoint (cap_plan c)" "elems (plan_components plan) = elems (plan_components (cap_plan c))"
    "elems (plan_load_order plan) = elems (plan_load_order (cap_plan c))"
    "validateReplaySafety c run plan (capsule_fixtures c) = None"
    by (rule plan_of_run [OF valid cv])
  define cfg where "cfg = \<lparr>rc_run = run_id run, rc_namespace = ''replay-run-'' @ run_id run, rc_plan = plan,
      rc_fixtures = capsule_fixtures c, rc_latency = latency\<rparr>"
  have loads: "loaded_services False g cfg = Inr (replay_world g cfg)"
    by (rule capsule_loads [OF cv]) (simp_all add: cfg_def plan)
  obtain x g' where x: "demo_run False g cfg x g'" "runner cfg = map_sum runner_error_text id x"
    using demo(1) unfolding runs_demo_def by blast
  from demo_run_reports [OF x(1) demo(2)] loads obtain n r out where out: "x = Inr out" "replay_report cfg n r out" by auto
  have "rc_namespace cfg \<noteq> []" by (simp add: cfg_def)
  note parts = replay_report_parts [OF out(2) this]
  have rep: "n = 1 \<or> n = 2" "\<not> ro_teardown out" "distinct (map ev_id (ro_events out))"
    "\<forall>e\<in>set (ro_events out). ev_run e = run_id run \<and> event_validate e = None \<and> has_prefix (ev_id e) (''evt-'' @ run_id run @ ''-'')"
    "evaluate (ro_events out) = Inr r" "or_matched r = (n = 2)" "or_effects r = \<lparr>payment_attempts = n, ledger_commits = n\<rparr>"
    using out(2) unfolding replay_report_def cfg_def by simp_all
  have new: "table_get (st_events s) (ev_id e) = None" if "e \<in> set (ro_events out)" for e
    using fresh rep(4) that by blast
  have "replay_ready h (checkout_pack sha content split dec) runner run s r"
    unfolding replay_ready_def
  proof (intro exI conjI)
    show "runner \<lparr>rc_run = run_id run, rc_namespace = ''replay-run-'' @ run_id run, rc_plan = plan,
          rc_fixtures = capsule_fixtures c, rc_latency = latency\<rparr> = Inr out"
      using x(2) out(1) by (simp add: cfg_def)
    show "pk_validate (checkout_pack sha content split dec) c = []" using c(3) by (simp add: checkout_pack_def)
    show "\<forall>x. pk_evaluate (checkout_pack sha content split dec) \<lparr>ex_run = x, ex_events = ro_events out, ex_graph = zero_graph\<rparr> = Inr r"
      using rep(5) by (simp add: checkout_pack_def)
  qed (use c plan rep parts new in auto)
  with rep show ?thesis by blast
qed

text \<open>C1: a replay from end to end. Take a reachable store with a new run and its sealed capsule that the checkout pack
  accepts, a worker whose calls are not cancelled, and the runner with demo services, whatever way their goroutines
  take turns. When no stored event has an id of the run yet, the worker completes the run. The services made one or
  two payment attempts, the oracle counts that many ledger commits, and the outcome says whether the duplicate effect
  showed: REPRODUCED or NOT_REPRODUCED for a baseline, UNCHANGED or MITIGATED for a what-if run.\<close>

theorem demo_replay_completes:
  assumes "reachable s" and "calm v"
    and "table_get (st_runs s) k = Some run" "run_status run = ReplayRunCreated" "run_isolation run = None"
    and "table_get (st_capsules s) (run_capsule run) = Some c" "VerifyDigest h c" "ValidateCapsule c = []"
    and "runs_demo g runner" "unat (ig_events g) + 18 < 2 ^ 64"
    and "\<forall>i. table_get (st_events s) i \<noteq> None \<longrightarrow> \<not> has_prefix i (''evt-'' @ k @ ''-'')"
  shows "\<exists>r s' n orc. processRun h v (Some (checkout_pack sha content split dec)) (Some runner) k lease s = ((r, None), s')
     \<and> table_get (st_runs s') k = Some r \<and> run_status r = ReplayRunCompleted \<and> (n = 1 \<or> n = 2)
     \<and> run_oracle r = Some orc \<and> or_effects orc = \<lparr>payment_attempts = n, ledger_commits = n\<rparr>
     \<and> run_outcome r = deriveOutcome (run_kind run) (n = 2)"
proof -
  note ok = reachable_ok [OF assms(1)]
  have k: "run_id run = k" using store_ok_get_run [OF ok assms(3)] by (simp add: run_row_def)
  obtain n orc where n: "n = 1 \<or> n = 2" "replay_ready h (checkout_pack sha content split dec) runner run s orc"
    "or_matched orc = (n = 2)" "or_effects orc = \<lparr>payment_attempts = n, ledger_commits = n\<rparr>"
    using demo_ready [where sha = sha and content = content and split = split and dec = dec,
        OF ok assms(3) [folded k] assms(6-10) assms(11) [folded k]] by blast
  obtain r s' where "processRun h v (Some (checkout_pack sha content split dec)) (Some runner) k lease s = ((r, None), s')"
    "table_get (st_runs s') k = Some r" "run_status r = ReplayRunCompleted" "run_oracle r = Some orc"
    "run_outcome r = deriveOutcome (run_kind run) (or_matched orc)"
    using processRun_completes [OF assms(1-5) n(2), of lease] by blast
  with n show ?thesis by (intro exI [of _ r] exI [of _ s'] exI [of _ n] exI [of _ orc]) simp
qed

theorem demo_replay_completes_witness:
  "\<exists>runner r s'. runs_demo (NewIDGenerator 1) runner
     \<and> processRun sample_hasher calm_env (Some golden_pack) (Some runner) ''r'' 0 worker_store = ((r, None), s')
     \<and> run_status r = ReplayRunCompleted"
proof -
  obtain runner where runner: "runs_demo (NewIDGenerator 1) runner" using runs_demo_exists by blast
  have cap: "table_get (st_capsules worker_store) (run_capsule (sample_run ''r'')) = Some golden_capsule"
    by (simp add: worker_store_eq table_get_def sample_run_def)
  have pack: "ValidateCapsule golden_capsule = []" using golden_pack_accepts by (simp add: golden_pack_def checkout_pack_def)
  have ids: "unat (ig_events (NewIDGenerator 1)) + 18 < 2 ^ 64" by (simp add: NewIDGenerator_def ids_reset_def)
  have none: "\<forall>i. table_get (st_events worker_store) i \<noteq> None \<longrightarrow> \<not> has_prefix i (''evt-'' @ ''r'' @ ''-'')"
    by (simp add: worker_store_eq table_get_def)
  from demo_replay_completes [where lease = 0 and sha = "\<lambda>_. replicate 64 CHR ''b''" and content = "[]" and split = "\<lambda>_. None" and dec = "\<lambda>_. None",
      OF worker_store_reachable calm_env_calm worker_run(1,2,3) cap golden_verifies pack runner ids none]
  obtain r s' where "processRun sample_hasher calm_env (Some golden_pack) (Some runner) ''r'' 0 worker_store = ((r, None), s')"
    "run_status r = ReplayRunCompleted"
    unfolding golden_pack_def by blast
  with runner show ?thesis by blast
qed

end
