(* ===== verification/Postgres.thy ===== *)
theory Postgres
  imports StoreRefine
begin

text \<open>
  The Postgres repository: internal/core/postgres.go with the leases of internal/core/lease.go, over the tables of
  db/migrations. A table is keyed by its primary key and keeps the columns the queries read, with the whole record as
  JSON beside them. A transaction is one step: it locks the rows it rewrites (FOR UPDATE), and an error rolls it back.
  The database, its driver and encoding/json are parameters (\<open>backend\<close>): the codec of each record, the path
  queries on a JSON value, the input of timestamps and the collation of text. \<open>db_env\<close> says which statement of an
  operation fails and what becomes of its commit.
\<close>

section \<open>The database\<close>

record 'j pg_event =
  pe_execution :: string
  pe_trace :: string
  pe_run :: "string option"
  pe_payload :: 'j
  pe_at :: instant
  pe_sequence :: int

record 'j pg_incident =
  pi_status :: incident_status
  pi_detected :: instant
  pi_payload :: 'j

record 'j pg_graph =
  pg_incident :: string
  pg_payload :: 'j

record 'j pg_capsule =
  pc_incident :: string
  pc_created :: instant
  pc_payload :: 'j

record 'j pg_run =
  pr_capsule :: string
  pr_status :: replay_run_status
  pr_outcome :: "replay_outcome option"
  pr_payload :: 'j
  pr_lease :: "instant option"

record 'j pg_diff =
  pd_baseline :: string
  pd_comparison :: string
  pd_payload :: 'j

record 'j db =
  db_events :: "'j pg_event table"
  db_incidents :: "'j pg_incident table"
  db_graphs :: "'j pg_graph table"
  db_capsules :: "'j pg_capsule table"
  db_runs :: "'j pg_run table"
  db_diffs :: "'j pg_diff table"

definition empty_db :: "'j db" where
  "empty_db = \<lparr>db_events = [], db_incidents = [], db_graphs = [], db_capsules = [], db_runs = [], db_diffs = []\<rparr>"

record ('v, 'j) codec =
  to_json :: "'v \<Rightarrow> 'j option"
  of_json :: "'j \<Rightarrow> 'v option"

record 'j backend =
  bk_event :: "(execution_event, 'j) codec"
  bk_incident :: "(incident, 'j) codec"
  bk_graph :: "(execution_graph, 'j) codec"
  bk_capsule :: "(replay_capsule, 'j) codec"
  bk_run :: "(replay_run, 'j) codec"
  bk_diff :: "(replay_diff, 'j) codec"
  bk_object :: "'j \<Rightarrow> bool"
  bk_text :: "'j \<Rightarrow> string \<Rightarrow> string option"
  bk_nodes :: "'j \<Rightarrow> (string \<times> int) list option"
  bk_time :: "string \<Rightarrow> instant option"
  bk_micros :: "instant \<Rightarrow> instant"
  bk_less :: "string \<Rightarrow> string \<Rightarrow> bool"

datatype commit_fate = Committed | RolledBack | CommitUnknown

text \<open>\<open>de_fails n\<close>: call \<open>n\<close> of the operation to the database fails (0 begins the transaction). A commit can report an
  error after it was applied. \<open>de_clock\<close> is the clock of the process, \<open>de_now\<close> that of the database.\<close>

record db_env =
  de_fails :: "nat \<Rightarrow> bool"
  de_commit :: commit_fate
  de_clock :: instant
  de_now :: instant

section \<open>Errors, payloads and transactions\<close>

text \<open>\<open>sql.ErrNoRows\<close>, the codes 23505 and 23503, and every other error.\<close>

datatype sql_error = NoRows | UniqueViolation | ForeignKeyViolation | OtherSql

fun repositoryError :: "sql_error \<Rightarrow> store_error" where
  "repositoryError NoRows = ErrNotFound"
| "repositoryError UniqueViolation = ErrConflict"
| "repositoryError ForeignKeyViolation = ErrConflict"
| "repositoryError OtherSql = ErrInternal"

definition payload :: "('v, 'j) codec \<Rightarrow> 'v \<Rightarrow> store_error + 'j" where
  "payload c x = (case to_json c x of None \<Rightarrow> Inl ErrInternal | Some j \<Rightarrow> Inr j)"

definition decodePayload :: "('v, 'j) codec \<Rightarrow> 'j \<Rightarrow> store_error + 'v" where
  "decodePayload c j = (case of_json c j of None \<Rightarrow> Inl ErrInternal | Some x \<Rightarrow> Inr x)"

definition sql :: "db_env \<Rightarrow> nat \<Rightarrow> sql_error + 'a \<Rightarrow> store_error + 'a" where
  "sql v n r = (if de_fails v n then Inl ErrInternal else map_sum repositoryError id r)"

definition commit :: "db_env \<Rightarrow> 'a \<Rightarrow> 'j db \<Rightarrow> 'j db \<Rightarrow> (store_error + 'a) \<times> 'j db" where
  "commit v a before after =
     (case de_commit v of
        Committed \<Rightarrow> (Inr a, after)
      | RolledBack \<Rightarrow> (Inl ErrInternal, before)
      | CommitUnknown \<Rightarrow> (Inl ErrInternal, after))"

text \<open>BeginTx, the body, Commit; the deferred Rollback undoes what a failed body did.\<close>

definition transact :: "db_env \<Rightarrow> ('j db \<Rightarrow> store_error + 'a \<times> 'j db) \<Rightarrow> 'j db \<Rightarrow> (store_error + 'a) \<times> 'j db" where
  "transact v body d =
     (if de_fails v 0 then (Inl ErrInternal, d)
      else case body d of
          Inl e \<Rightarrow> (Inl e, d)
        | Inr (a, d') \<Rightarrow> commit v a d d')"

text \<open>A single statement outside a transaction commits by itself.\<close>

definition autocommit :: "db_env \<Rightarrow> (sql_error + 'a \<times> 'j db) \<Rightarrow> 'j db \<Rightarrow> (store_error + 'a) \<times> 'j db" where
  "autocommit v r d =
     (case sql v 1 r of
        Inl e \<Rightarrow> (Inl e, d)
      | Inr (a, d') \<Rightarrow> commit v a d d')"

definition getJSON :: "db_env \<Rightarrow> nat \<Rightarrow> ('v, 'j) codec \<Rightarrow> 'j option \<Rightarrow> store_error + 'v" where
  "getJSON v n c row =
     bind_result (sql v n (case row of None \<Rightarrow> Inl NoRows | Some j \<Rightarrow> Inr j)) (decodePayload c)"

text \<open>QueryContext and the loop over its rows, with \<open>rows.Err\<close> after it.\<close>

definition scan_rows :: "db_env \<Rightarrow> nat \<Rightarrow> ('v, 'j) codec \<Rightarrow> 'j list \<Rightarrow> store_error + 'v list" where
  "scan_rows v n c raws =
     (if de_fails v n then Inl ErrInternal
      else bind_result (map_result (decodePayload c) raws)
        (\<lambda>xs. if de_fails v (Suc n) then Inl ErrInternal else Inr xs))"

definition nullableOutcome :: "replay_outcome \<Rightarrow> replay_outcome option" where
  "nullableOutcome x = (if x = NoOutcome then None else Some x)"

definition nullableString :: "string \<Rightarrow> string option" where
  "nullableString s = (if s = [] then None else Some s)"

text \<open>INSERT: the row's checks, then its primary key and unique columns, then its references.\<close>

definition insert_row :: "bool \<Rightarrow> bool \<Rightarrow> bool \<Rightarrow> string \<Rightarrow> 'r \<Rightarrow> 'r table \<Rightarrow> sql_error + 'r table" where
  "insert_row checks unique refs k r t =
     (if \<not> checks then Inl OtherSql
      else if table_get t k \<noteq> None \<or> \<not> unique then Inl UniqueViolation
      else if \<not> refs then Inl ForeignKeyViolation
      else Inr (table_put k r t))"

text \<open>\<open>payload->>'f' = x\<close> in a CHECK, which a missing field (NULL) does not violate.\<close>

definition names :: "'j backend \<Rightarrow> 'j \<Rightarrow> string \<Rightarrow> string \<Rightarrow> bool" where
  "names B j f x \<longleftrightarrow> (case bk_text B j f of None \<Rightarrow> True | Some y \<Rightarrow> y = x)"

section \<open>Events\<close>

definition insert_event :: "'j backend \<Rightarrow> execution_event \<Rightarrow> 'j \<Rightarrow> 'j db \<Rightarrow> sql_error + unit \<times> 'j db" where
  "insert_event B e p d =
     (case bk_time B (ev_occurred_at e) of None \<Rightarrow> Inl OtherSql
      | Some at \<Rightarrow>
        map_sum id (\<lambda>t. ((), d\<lparr>db_events := t\<rparr>))
          (insert_row (ev_id e \<noteq> [] \<and> ev_execution e \<noteq> [] \<and> ev_trace e \<noteq> [] \<and> bk_object B p
              \<and> names B p ''event_id'' (ev_id e) \<and> 0 \<le> ev_sequence e) True True (ev_id e)
            \<lparr>pe_execution = ev_execution e, pe_trace = ev_trace e, pe_run = nullableString (ev_run e),
              pe_payload = p, pe_at = at, pe_sequence = ev_sequence e\<rparr> (db_events d)))"

definition pg_IngestEvent :: "'j backend \<Rightarrow> db_env \<Rightarrow> execution_event \<Rightarrow> 'j db \<Rightarrow> (store_error + unit) \<times> 'j db" where
  "pg_IngestEvent B v e d =
     (case event_validate e of Some err \<Rightarrow> (Inl (ErrContract err), d)
      | None \<Rightarrow>
     (case payload (bk_event B) e of Inl err \<Rightarrow> (Inl err, d)
      | Inr p \<Rightarrow> transact v (\<lambda>d. sql v 1 (insert_event B e p d)) d))"

definition pg_GetEvent :: "'j backend \<Rightarrow> db_env \<Rightarrow> string \<Rightarrow> 'j db \<Rightarrow> store_error + execution_event" where
  "pg_GetEvent B v k d = getJSON v 1 (bk_event B) (map_option pe_payload (table_get (db_events d) k))"

text \<open>ORDER BY occurred_at, sequence, event_id\<close>

definition pg_event_less :: "'j backend \<Rightarrow> string \<times> 'j pg_event \<Rightarrow> string \<times> 'j pg_event \<Rightarrow> bool" where
  "pg_event_less B a b =
     (if pe_at (snd a) \<noteq> pe_at (snd b) then pe_at (snd a) < pe_at (snd b)
      else if pe_sequence (snd a) \<noteq> pe_sequence (snd b) then pe_sequence (snd a) < pe_sequence (snd b)
      else bk_less B (fst a) (fst b))"

definition select_events :: "'j backend \<Rightarrow> ('j pg_event \<Rightarrow> bool) \<Rightarrow> 'j db \<Rightarrow> 'j list" where
  "select_events B P d = map (pe_payload \<circ> snd) (sort_by (pg_event_less B) (filter (P \<circ> snd) (db_events d)))"

definition pg_EventsForExecution :: "'j backend \<Rightarrow> db_env \<Rightarrow> string \<Rightarrow> 'j db \<Rightarrow> store_error + execution_event list" where
  "pg_EventsForExecution B v x d = scan_rows v 1 (bk_event B) (select_events B (\<lambda>r. pe_execution r = x) d)"

definition loadEventsForRun :: "'j backend \<Rightarrow> db_env \<Rightarrow> replay_run \<Rightarrow> 'j db \<Rightarrow> store_error + execution_event list" where
  "loadEventsForRun B v run d = scan_rows v 1 (bk_event B) (select_events B (\<lambda>r. pe_run r = Some (run_id run)) d)"

text \<open>No events are the nil slice.\<close>

definition pg_EventsForRun :: "'j backend \<Rightarrow> db_env \<Rightarrow> replay_run \<Rightarrow> 'j db \<Rightarrow> store_error + execution_event slice" where
  "pg_EventsForRun B v run d =
     map_sum id (\<lambda>es. if es = [] then None else Some es) (loadEventsForRun B v run d)"

definition pg_GraphsForRun :: "(nat \<Rightarrow> degrees \<Rightarrow> degrees) \<Rightarrow> 'j backend \<Rightarrow> db_env \<Rightarrow> replay_run \<Rightarrow> 'j db
    \<Rightarrow> store_error + execution_graph" where
  "pg_GraphsForRun ord B v run d =
     bind_result (pg_EventsForRun B v run d)
       (\<lambda>es. map_sum ErrGraphBuild id (BuildRunGraph ord (run_id run) (elems es)))"

section \<open>Incidents and graphs\<close>

text \<open>The event of a node, read by statement \<open>n\<close> of the transaction.\<close>

definition load_node :: "'j backend \<Rightarrow> db_env \<Rightarrow> incident \<Rightarrow> 'j db \<Rightarrow> nat \<times> graph_node \<Rightarrow> store_error + execution_event" where
  "load_node B v i d p =
     (case getJSON v (fst p) (bk_event B) (map_option pe_payload (table_get (db_events d) (node_event (snd p)))) of
        Inl _ \<Rightarrow> Inl ErrInternal
      | Inr e \<Rightarrow>
        if ev_execution e \<noteq> inc_execution i \<or> ev_trace e \<noteq> inc_trace i then Inl ErrInternal else Inr e)"

definition insert_incident :: "'j backend \<Rightarrow> incident \<Rightarrow> 'j \<Rightarrow> 'j db \<Rightarrow> sql_error + 'j db" where
  "insert_incident B i p d =
     (case bk_time B (inc_detected_at i) of None \<Rightarrow> Inl OtherSql
      | Some at \<Rightarrow>
        map_sum id (\<lambda>t. d\<lparr>db_incidents := t\<rparr>)
          (insert_row (inc_id i \<noteq> [] \<and> inc_status i \<in> {IncidentDetected, IncidentReady, IncidentBlocked}
              \<and> bk_object B p \<and> names B p ''incident_id'' (inc_id i)) True True (inc_id i)
            \<lparr>pi_status = inc_status i, pi_detected = at, pi_payload = p\<rparr> (db_incidents d)))"

definition insert_graph :: "'j backend \<Rightarrow> execution_graph \<Rightarrow> string \<Rightarrow> 'j \<Rightarrow> 'j db \<Rightarrow> sql_error + 'j db" where
  "insert_graph B g k p d =
     map_sum id (\<lambda>t. d\<lparr>db_graphs := t\<rparr>)
       (insert_row (graph_id g \<noteq> [] \<and> bk_object B p \<and> names B p ''graph_id'' (graph_id g) \<and> names B p ''incident_id'' k)
         (list_all (\<lambda>r. pg_incident r \<noteq> k) (table_rows (db_graphs d))) (table_get (db_incidents d) k \<noteq> None)
         (graph_id g) \<lparr>pg_incident = k, pg_payload = p\<rparr> (db_graphs d))"

definition put_incident_tx :: "'j backend \<Rightarrow> db_env \<Rightarrow> incident \<Rightarrow> execution_graph \<Rightarrow> 'j \<Rightarrow> 'j \<Rightarrow> 'j db
    \<Rightarrow> store_error + unit \<times> 'j db" where
  "put_incident_tx B v i g ip gp d =
     bind_result (map_result (load_node B v i d) (enumerate 1 (graph_nodes g))) (\<lambda>events.
       if list_ex (\<lambda>k. k \<notin> set (node_ids (graph_nodes g))) (inc_evidence i) then Inl ErrInternal
       else case Order events g of
           Inl _ \<Rightarrow> Inl ErrInternal
         | Inr _ \<Rightarrow>
           bind_result (sql v (length (graph_nodes g) + 1) (insert_incident B i ip d)) (\<lambda>d1.
             map_sum id (Pair ()) (sql v (length (graph_nodes g) + 2) (insert_graph B g (inc_id i) gp d1))))"

definition pg_PutIncident :: "'j backend \<Rightarrow> db_env \<Rightarrow> incident \<Rightarrow> execution_graph \<Rightarrow> 'j db
    \<Rightarrow> (store_error + unit) \<times> 'j db" where
  "pg_PutIncident B v i g d =
     (if incident_validate i \<noteq> None \<or> graph_validate g \<noteq> None \<or> graph_incident g \<noteq> inc_id i \<or> inc_graph i \<noteq> graph_id g
      then (Inl ErrInternal, d)
      else case payload (bk_incident B) i of Inl err \<Rightarrow> (Inl err, d)
      | Inr ip \<Rightarrow>
     (case payload (bk_graph B) g of Inl err \<Rightarrow> (Inl err, d)
      | Inr gp \<Rightarrow> transact v (put_incident_tx B v i g ip gp) d))"

text \<open>\<open>(detected_at,incident_id)\<close> as a row comparison.\<close>

definition pg_before :: "'j backend \<Rightarrow> instant \<times> string \<Rightarrow> instant \<times> string \<Rightarrow> bool" where
  "pg_before B a b \<longleftrightarrow> fst a < fst b \<or> fst a = fst b \<and> bk_less B (snd a) (snd b)"

definition incident_position :: "string \<times> 'j pg_incident \<Rightarrow> instant \<times> string" where
  "incident_position r = (pi_detected (snd r), fst r)"

definition select_incident_rows :: "'j backend \<Rightarrow> incident_status \<Rightarrow> cursor option \<Rightarrow> 'j db
    \<Rightarrow> (string \<times> 'j pg_incident) list" where
  "select_incident_rows B st c d =
     sort_by (\<lambda>a b. pg_before B (incident_position b) (incident_position a))
       (filter (\<lambda>r. (st = UnknownIncidentStatus [] \<or> pi_status (snd r) = st)
          \<and> (case c of None \<Rightarrow> True | Some (t, k) \<Rightarrow> pg_before B (incident_position r) (bk_micros B t, k)))
         (db_incidents d))"

definition pg_ListIncidents :: "(cursor \<Rightarrow> string) \<Rightarrow> (string \<Rightarrow> cursor option) \<Rightarrow> 'j backend \<Rightarrow> db_env \<Rightarrow> incident_query
    \<Rightarrow> 'j db \<Rightarrow> store_error + incident list \<times> string" where
  "pg_ListIncidents marshal unmarshal B v q d =
     (let limit = (case iq_limit q of None \<Rightarrow> 20 | Some n \<Rightarrow> n)
      in if limit < 1 \<or> 100 < limit then Inl ErrConflict
      else bind_result
        (if iq_cursor q = [] then Inr None else map_sum id Some (decodeCursor unmarshal (iq_cursor q)))
        (\<lambda>c. let rows = take (nat (limit + 1)) (select_incident_rows B (iq_status q) c d)
         in bind_result (scan_rows v 1 (bk_incident B) (map (pi_payload \<circ> snd) rows)) (\<lambda>items.
           if limit < int (length items)
           then Inr (take (nat limit) items, marshal (incident_position (rows ! nat (limit - 1))))
           else Inr (items, []))))"

text \<open>The events that the nodes of the graph's JSON name, by timeline index.\<close>

definition join_events :: "'j backend \<Rightarrow> 'j \<Rightarrow> 'j db \<Rightarrow> sql_error + 'j list" where
  "join_events B graw d =
     (case bk_nodes B graw of None \<Rightarrow> Inl OtherSql
      | Some ns \<Rightarrow>
        Inr (map snd (sort_by (\<lambda>a b. fst a < fst b)
          (List.map_filter (\<lambda>(k, index). map_option (\<lambda>r. (index, pe_payload r)) (table_get (db_events d) k)) ns))))"

definition detail_tx :: "'j backend \<Rightarrow> db_env \<Rightarrow> string \<Rightarrow> 'j db
    \<Rightarrow> store_error + (incident \<times> execution_graph \<times> execution_event list) \<times> 'j db" where
  "detail_tx B v k d =
     bind_result
       (sql v 1 (case (table_get (db_incidents d) k, find (\<lambda>r. pg_incident r = k) (table_rows (db_graphs d))) of
          (Some i, Some g) \<Rightarrow> Inr (pi_payload i, pg_payload g)
        | _ \<Rightarrow> Inl NoRows)) (\<lambda>(iraw, graw).
     bind_result (decodePayload (bk_incident B) iraw) (\<lambda>i.
     bind_result (decodePayload (bk_graph B) graw) (\<lambda>g.
     bind_result (sql v 2 (join_events B graw d)) (\<lambda>raws.
     bind_result (map_result (decodePayload (bk_event B)) raws) (\<lambda>events.
       if de_fails v 3 then Inl ErrInternal
       else if length events \<noteq> length (graph_nodes g) then Inl ErrInternal
       else let nodes = sort_by (\<lambda>a b. node_index a < node_index b) (graph_nodes g)
         in if list_ex (\<lambda>(index, e). node_index (nodes ! index) \<noteq> int index \<or> node_event (nodes ! index) \<noteq> ev_id e)
              (enumerate 0 events) then Inl ErrInternal
         else Inr ((i, g, events), d))))))"

definition pg_GetIncidentDetail :: "'j backend \<Rightarrow> db_env \<Rightarrow> string \<Rightarrow> 'j db
    \<Rightarrow> store_error + incident \<times> execution_graph \<times> execution_event list" where
  "pg_GetIncidentDetail B v k d = fst (transact v (detail_tx B v k) d)"

section \<open>Capsules\<close>

definition insert_capsule :: "'j backend \<Rightarrow> replay_capsule \<Rightarrow> 'j \<Rightarrow> 'j db \<Rightarrow> sql_error + unit \<times> 'j db" where
  "insert_capsule B c p d =
     (case bk_time B (cap_created_at c) of None \<Rightarrow> Inl OtherSql
      | Some at \<Rightarrow>
        map_sum id (\<lambda>t. ((), d\<lparr>db_capsules := t\<rparr>))
          (insert_row (cap_id c \<noteq> [] \<and> bk_object B p \<and> names B p ''capsule_id'' (cap_id c)) True
            (table_get (db_incidents d) (src_incident (cap_source c)) \<noteq> None) (cap_id c)
            \<lparr>pc_incident = src_incident (cap_source c), pc_created = at, pc_payload = p\<rparr> (db_capsules d)))"

definition pg_PutCapsule :: "'j backend \<Rightarrow> db_env \<Rightarrow> replay_capsule \<Rightarrow> 'j db \<Rightarrow> (store_error + unit) \<times> 'j db" where
  "pg_PutCapsule B v c d =
     (case capsule_validate c of Some err \<Rightarrow> (Inl (ErrContract err), d)
      | None \<Rightarrow>
     (case payload (bk_capsule B) c of Inl err \<Rightarrow> (Inl err, d)
      | Inr p \<Rightarrow> autocommit v (insert_capsule B c p d) d))"

definition pg_GetCapsule :: "'j backend \<Rightarrow> db_env \<Rightarrow> string \<Rightarrow> 'j db \<Rightarrow> store_error + replay_capsule" where
  "pg_GetCapsule B v k d = getJSON v 1 (bk_capsule B) (map_option pc_payload (table_get (db_capsules d) k))"

section \<open>Runs\<close>

text \<open>The CHECKs of 001_core.sql and the one of 003_e2_replay.sql, which compares the capsule id; 004_replay_lease.sql adds
  the lease column.\<close>

definition run_row_checks :: "'j backend \<Rightarrow> string \<Rightarrow> 'j pg_run \<Rightarrow> bool" where
  "run_row_checks B k r \<longleftrightarrow> k \<noteq> [] \<and> validRunStatus (pr_status r)
     \<and> (case pr_outcome r of None \<Rightarrow> True
        | Some x \<Rightarrow> x \<in> {ReplayOutcomeReproduced, ReplayOutcomeNotReproduced, ReplayOutcomeMitigated,
                       ReplayOutcomeUnchanged, ReplayOutcomeInconclusive})
     \<and> bk_object B (pr_payload r) \<and> names B (pr_payload r) ''run_id'' k
     \<and> names B (pr_payload r) ''capsule_id'' (pr_capsule r)
     \<and> (pr_status r = ReplayRunCompleted \<longleftrightarrow> pr_outcome r \<noteq> None)"

definition insert_run :: "'j backend \<Rightarrow> replay_run \<Rightarrow> 'j \<Rightarrow> 'j db \<Rightarrow> sql_error + unit \<times> 'j db" where
  "insert_run B run p d =
     (let r = \<lparr>pr_capsule = run_capsule run, pr_status = run_status run, pr_outcome = nullableOutcome (run_outcome run),
                pr_payload = p, pr_lease = None\<rparr>
      in map_sum id (\<lambda>t. ((), d\<lparr>db_runs := t\<rparr>))
        (insert_row (run_row_checks B (run_id run) r) True (table_get (db_capsules d) (run_capsule run) \<noteq> None)
          (run_id run) r (db_runs d)))"

definition select_run :: "'j backend \<Rightarrow> db_env \<Rightarrow> nat \<Rightarrow> string \<Rightarrow> 'j db \<Rightarrow> store_error + replay_run" where
  "select_run B v n k d = getJSON v n (bk_run B) (map_option pr_payload (table_get (db_runs d) k))"

definition put_run_tx :: "'j backend \<Rightarrow> db_env \<Rightarrow> replay_run \<Rightarrow> 'j \<Rightarrow> 'j db \<Rightarrow> store_error + unit \<times> 'j db" where
  "put_run_tx B v run p d =
     bind_result (select_run B v 1 (run_baseline run) d) (\<lambda>baseline.
       if \<not> eligible_baseline baseline run then Inl ErrInvalidLifecycle
       else sql v 2 (insert_run B run p d))"

definition pg_PutRun :: "'j backend \<Rightarrow> db_env \<Rightarrow> replay_run \<Rightarrow> 'j db \<Rightarrow> (store_error + unit) \<times> 'j db" where
  "pg_PutRun B v run d =
     (case run_validate run of Some err \<Rightarrow> (Inl (ErrContract err), d)
      | None \<Rightarrow>
     (case payload (bk_run B) run of Inl err \<Rightarrow> (Inl err, d)
      | Inr p \<Rightarrow>
        if run_kind run = RunTypeBaseline then autocommit v (insert_run B run p d) d
        else transact v (put_run_tx B v run p) d))"

definition pg_GetRun :: "'j backend \<Rightarrow> db_env \<Rightarrow> string \<Rightarrow> 'j db \<Rightarrow> store_error + replay_run" where
  "pg_GetRun B v k d = select_run B v 1 k d"

definition select_runs :: "'j backend \<Rightarrow> ('j pg_run \<Rightarrow> bool) \<Rightarrow> 'j db \<Rightarrow> 'j list" where
  "select_runs B P d =
     map (pr_payload \<circ> snd) (sort_by (\<lambda>a b. bk_less B (fst a) (fst b)) (filter (P \<circ> snd) (db_runs d)))"

definition pg_ListRuns :: "'j backend \<Rightarrow> db_env \<Rightarrow> replay_run_status \<Rightarrow> 'j db \<Rightarrow> store_error + replay_run list" where
  "pg_ListRuns B v st d = scan_rows v 1 (bk_run B) (select_runs B (\<lambda>r. pr_status r = st) d)"

fun legalTransition :: "replay_run_status \<Rightarrow> replay_run_status \<Rightarrow> bool" where
  "legalTransition ReplayRunCreated to = (to = ReplayRunValidating)"
| "legalTransition ReplayRunValidating to =
     (to = ReplayRunRunning \<or> to = ReplayRunBlocked \<or> to = ReplayRunFailed)"
| "legalTransition ReplayRunRunning to =
     (to = ReplayRunCompleted \<or> to = ReplayRunBlocked \<or> to = ReplayRunFailed)"
| "legalTransition _ to = False"

definition validRunState :: "replay_run \<Rightarrow> bool" where
  "validRunState run =
     (if terminal_status (run_status run) \<noteq> (run_completed_at run \<noteq> []) then False
      else if run_status run = ReplayRunCompleted then
        (if run_outcome run = NoOutcome \<or> run_effects run = None \<or> run_oracle run = None
            \<or> (case run_isolation run of None \<Rightarrow> True | Some e \<Rightarrow> iso_verdict e \<noteq> VerdictPass)
            \<or> run_error_field run \<noteq> None then False
         else if run_kind run = RunTypeBaseline then
           run_outcome run \<in> {ReplayOutcomeReproduced, ReplayOutcomeNotReproduced, ReplayOutcomeInconclusive}
         else if run_kind run = RunTypeWhatIf then
           run_outcome run \<in> {ReplayOutcomeMitigated, ReplayOutcomeUnchanged, ReplayOutcomeInconclusive}
         else False)
      else if run_outcome run \<noteq> NoOutcome then False
      else if run_status run = ReplayRunFailed \<or> run_status run = ReplayRunBlocked then run_error_field run \<noteq> None
      else run_error_field run = None)"

text \<open>UPDATE ... WHERE run_id, status and capsule_id; the number of rows it changed.\<close>

definition update_run :: "'j backend \<Rightarrow> replay_run_status \<Rightarrow> replay_run \<Rightarrow> 'j \<Rightarrow> 'j db \<Rightarrow> sql_error + nat \<times> 'j db" where
  "update_run B from run p d =
     (case table_get (db_runs d) (run_id run) of None \<Rightarrow> Inr (0, d)
      | Some r \<Rightarrow>
        if pr_status r \<noteq> from \<or> pr_capsule r \<noteq> run_capsule run then Inr (0, d)
        else let r' = r\<lparr>pr_status := run_status run, pr_outcome := nullableOutcome (run_outcome run), pr_payload := p\<rparr>
          in if \<not> run_row_checks B (run_id run) r' then Inl OtherSql
          else Inr (1, d\<lparr>db_runs := table_put (run_id run) r' (db_runs d)\<rparr>))"

definition transition_tx :: "'j backend \<Rightarrow> db_env \<Rightarrow> replay_run_status \<Rightarrow> replay_run \<Rightarrow> 'j \<Rightarrow> 'j db
    \<Rightarrow> store_error + unit \<times> 'j db" where
  "transition_tx B v from run p d =
     bind_result (select_run B v 1 (run_id run) d) (\<lambda>stored.
       if run_status stored \<noteq> from \<or> \<not> same_identity stored run then Inl ErrInvalidLifecycle
       else bind_result (sql v 2 (update_run B from run p d)) (\<lambda>(n, d').
         if de_fails v 3 then Inl ErrInternal
         else if n = 0 then
           (if de_fails v 4 then Inl ErrInternal
            else if table_get (db_runs d') (run_id run) \<noteq> None then Inl ErrInvalidLifecycle else Inl ErrNotFound)
         else Inr ((), d')))"

definition pg_TransitionRun :: "'j backend \<Rightarrow> db_env \<Rightarrow> replay_run_status \<Rightarrow> replay_run \<Rightarrow> 'j db
    \<Rightarrow> (store_error + unit) \<times> 'j db" where
  "pg_TransitionRun B v from run d =
     (if \<not> legalTransition from (run_status run) \<or> run_validate run \<noteq> None then (Inl ErrInvalidLifecycle, d)
      else case payload (bk_run B) run of Inl err \<Rightarrow> (Inl err, d)
      | Inr p \<Rightarrow> transact v (transition_tx B v from run p) d)"

section \<open>Diffs\<close>

definition comparable :: "replay_run \<Rightarrow> replay_run \<Rightarrow> replay_diff \<Rightarrow> bool" where
  "comparable b c x \<longleftrightarrow> run_status b = ReplayRunCompleted \<and> run_kind b = RunTypeBaseline
     \<and> run_outcome b = ReplayOutcomeReproduced \<and> run_intervention b = None
     \<and> run_status c = ReplayRunCompleted \<and> run_kind c = RunTypeWhatIf \<and> run_baseline c = run_id b
     \<and> run_capsule_hash c = run_capsule_hash b \<and> run_intervention c = Some (diff_intervention x)"

definition insert_diff :: "'j backend \<Rightarrow> replay_diff \<Rightarrow> 'j \<Rightarrow> 'j db \<Rightarrow> sql_error + unit \<times> 'j db" where
  "insert_diff B x p d =
     map_sum id (\<lambda>t. ((), d\<lparr>db_diffs := t\<rparr>))
       (insert_row (diff_id x \<noteq> [] \<and> bk_object B p \<and> names B p ''diff_id'' (diff_id x)
           \<and> diff_baseline x \<noteq> diff_comparison x)
         (list_all (\<lambda>r. pd_baseline r \<noteq> diff_baseline x \<or> pd_comparison r \<noteq> diff_comparison x)
            (table_rows (db_diffs d)))
         (table_get (db_runs d) (diff_baseline x) \<noteq> None \<and> table_get (db_runs d) (diff_comparison x) \<noteq> None)
         (diff_id x) \<lparr>pd_baseline = diff_baseline x, pd_comparison = diff_comparison x, pd_payload = p\<rparr> (db_diffs d))"

definition put_diff_tx :: "'j backend \<Rightarrow> db_env \<Rightarrow> replay_diff \<Rightarrow> 'j \<Rightarrow> 'j db \<Rightarrow> store_error + unit \<times> 'j db" where
  "put_diff_tx B v x p d =
     bind_result (select_run B v 1 (diff_baseline x) d) (\<lambda>b.
     bind_result (select_run B v 2 (diff_comparison x) d) (\<lambda>c.
       if \<not> comparable b c x then Inl ErrInvalidLifecycle else sql v 3 (insert_diff B x p d)))"

definition pg_PutDiff :: "'j backend \<Rightarrow> db_env \<Rightarrow> replay_diff \<Rightarrow> 'j db \<Rightarrow> (store_error + unit) \<times> 'j db" where
  "pg_PutDiff B v x d =
     (case diff_validate x of Some err \<Rightarrow> (Inl (ErrContract err), d)
      | None \<Rightarrow>
     (case payload (bk_diff B) x of Inl err \<Rightarrow> (Inl err, d)
      | Inr p \<Rightarrow> transact v (put_diff_tx B v x p) d))"

definition pg_GetDiff :: "'j backend \<Rightarrow> db_env \<Rightarrow> string \<Rightarrow> 'j db \<Rightarrow> store_error + replay_diff" where
  "pg_GetDiff B v k d = getJSON v 1 (bk_diff B) (map_option pd_payload (table_get (db_diffs d) k))"

section \<open>Leases (lease.go)\<close>

definition claim_tx :: "'j backend \<Rightarrow> db_env \<Rightarrow> string \<Rightarrow> int \<Rightarrow> 'j db \<Rightarrow> store_error + replay_run \<times> 'j db" where
  "claim_tx B v k lease d =
     bind_result (select_run B v 1 k d) (\<lambda>stored.
       if run_status stored \<noteq> ReplayRunCreated then Inl ErrInvalidLifecycle
       else let claimed = stored\<lparr>run_status := ReplayRunValidating\<rparr>
         in bind_result (payload (bk_run B) claimed) (\<lambda>p.
           bind_result (sql v 2 (case table_get (db_runs d) k of None \<Rightarrow> Inr d
             | Some r \<Rightarrow>
               let r' = r\<lparr>pr_status := ReplayRunValidating, pr_payload := p,
                          pr_lease := Some (bk_micros B (add_nanos (de_clock v) lease))\<rparr>
               in if run_row_checks B k r' then Inr (d\<lparr>db_runs := table_put k r' (db_runs d)\<rparr>) else Inl OtherSql))
             (\<lambda>d'. Inr (claimed, d'))))"

definition pg_ClaimRun :: "'j backend \<Rightarrow> db_env \<Rightarrow> string \<Rightarrow> int \<Rightarrow> 'j db \<Rightarrow> (store_error + replay_run) \<times> 'j db" where
  "pg_ClaimRun B v k lease d = transact v (claim_tx B v k lease) d"

definition renew_update :: "'j backend \<Rightarrow> db_env \<Rightarrow> string \<Rightarrow> int \<Rightarrow> 'j db \<Rightarrow> sql_error + nat \<times> 'j db" where
  "renew_update B v k lease d =
     (case table_get (db_runs d) k of None \<Rightarrow> Inr (0, d)
      | Some r \<Rightarrow> Inr (1, d\<lparr>db_runs := table_put k
          (r\<lparr>pr_lease := Some (bk_micros B (add_nanos (de_clock v) lease))\<rparr>) (db_runs d)\<rparr>))"

definition pg_RenewLease :: "'j backend \<Rightarrow> db_env \<Rightarrow> string \<Rightarrow> int \<Rightarrow> 'j db \<Rightarrow> (store_error + unit) \<times> 'j db" where
  "pg_RenewLease B v k lease d =
     (case autocommit v (renew_update B v k lease d) d of
        (Inl e, d') \<Rightarrow> (Inl e, d')
      | (Inr n, d') \<Rightarrow>
        (if de_fails v 2 then Inl ErrInternal else if n = 0 then Inl ErrNotFound else Inr (), d'))"

definition pg_ReclaimExpiredRuns :: "'j backend \<Rightarrow> db_env \<Rightarrow> 'j db \<Rightarrow> store_error + replay_run list" where
  "pg_ReclaimExpiredRuns B v d =
     scan_rows v 1 (bk_run B)
       (select_runs B (\<lambda>r. (pr_status r = ReplayRunValidating \<or> pr_status r = ReplayRunRunning)
          \<and> (case pr_lease r of None \<Rightarrow> True | Some until \<Rightarrow> until < de_now v)) d)"

section \<open>Reset\<close>

definition reset_tx :: "db_env \<Rightarrow> 'j db \<Rightarrow> store_error + (nat \<times> nat) \<times> 'j db" where
  "reset_tx v d =
     bind_result (sql v 1 (Inr (length (db_incidents d)))) (\<lambda>incidents.
     bind_result (sql v 2 (Inr (length (db_runs d)))) (\<lambda>runs.
       if \<exists>n\<in>{3..8}. de_fails v n then Inl ErrInternal
       else Inr ((incidents, runs), empty_db)))"

definition pg_Reset :: "db_env \<Rightarrow> 'j db \<Rightarrow> (store_error + nat \<times> nat) \<times> 'j db" where
  "pg_Reset v d = transact v (reset_tx v) d"

end
