(* ===== verification/PostgresSteps.thy ===== *)
theory PostgresSteps
  imports Postgres
begin

text \<open>
  What every operation of the Postgres repository (theory Postgres) does to the tables, the records a database holds,
  and the invariant of its rows: the columns of a row agree with the JSON beside them, and every record is valid and
  has what it refers to.
\<close>

section \<open>What an operation changes\<close>

lemma commit_cases: "snd (commit v a d d') = d \<or> snd (commit v a d d') = d'"
  by (cases "de_commit v") (simp_all add: commit_def)

lemma transact_cases:
  "snd (transact v body d) = d \<or> (\<exists>a d'. body d = Inr (a, d') \<and> snd (transact v body d) = d')"
  by (cases "body d") (use commit_cases in \<open>force simp: transact_def\<close>)+

lemma sql_Inr_iff: "sql v n r = Inr x \<longleftrightarrow> \<not> de_fails v n \<and> r = Inr x"
  by (cases r) (simp_all add: sql_def)

lemma autocommit_cases:
  "snd (autocommit v r d) = d \<or> (\<exists>a d'. r = Inr (a, d') \<and> snd (autocommit v r d) = d')"
  by (cases r) (use commit_cases in \<open>force simp: autocommit_def sql_def\<close>)+

lemma payload_Inr_iff: "payload c x = Inr j \<longleftrightarrow> to_json c x = Some j"
  by (simp add: payload_def split: option.splits)

lemma decodePayload_Inr_iff: "decodePayload c j = Inr x \<longleftrightarrow> of_json c j = Some x"
  by (simp add: decodePayload_def split: option.splits)

lemma getJSON_Inr_iff:
  "getJSON v n c row = Inr x \<longleftrightarrow> \<not> de_fails v n \<and> (\<exists>j. row = Some j \<and> of_json c j = Some x)"
  by (cases row) (auto simp: getJSON_def sql_def decodePayload_Inr_iff)

lemma insert_row_Inr_iff:
  "insert_row checks unique refs k r t = Inr t' \<longleftrightarrow>
     checks \<and> table_get t k = None \<and> unique \<and> refs \<and> t' = table_put k r t"
  by (auto simp: insert_row_def)

lemma case_result_Inr_snd:
  "snd (case x of Inl e \<Rightarrow> (Inl e, d) | Inr p \<Rightarrow> f p) = d \<or> (\<exists>p. x = Inr p \<and> snd (case x of Inl e \<Rightarrow> (Inl e, d) | Inr p \<Rightarrow> f p) = snd (f p))"
  by (cases x) simp_all

lemma pg_IngestEvent_cases:
  "snd (pg_IngestEvent B v e d) = d
   \<or> (\<exists>p at. event_validate e = None \<and> to_json (bk_event B) e = Some p \<and> bk_time B (ev_occurred_at e) = Some at
      \<and> table_get (db_events d) (ev_id e) = None
      \<and> snd (pg_IngestEvent B v e d) = d\<lparr>db_events := table_put (ev_id e)
          \<lparr>pe_execution = ev_execution e, pe_trace = ev_trace e, pe_run = nullableString (ev_run e),
            pe_payload = p, pe_at = at, pe_sequence = ev_sequence e\<rparr> (db_events d)\<rparr>)"
proof (cases "event_validate e")
  case None
  show ?thesis
  proof (cases "payload (bk_event B) e")
    case (Inr p)
    with None have run: "pg_IngestEvent B v e d = transact v (\<lambda>d. sql v 1 (insert_event B e p d)) d"
      by (simp add: pg_IngestEvent_def)
    from transact_cases [of v "\<lambda>d. sql v 1 (insert_event B e p d)" d] None Inr show ?thesis
      by (fastforce simp: run sql_Inr_iff insert_event_def insert_row_Inr_iff map_sum_Inr_iff payload_Inr_iff
          split: option.splits)
  qed (use None in \<open>simp add: pg_IngestEvent_def\<close>)
qed (simp add: pg_IngestEvent_def)

lemma load_node_Inr_iff:
  "load_node B v i d (n, x) = Inr e \<longleftrightarrow> \<not> de_fails v n
     \<and> (\<exists>r. table_get (db_events d) (node_event x) = Some r \<and> of_json (bk_event B) (pe_payload r) = Some e)
     \<and> ev_execution e = inc_execution i \<and> ev_trace e = inc_trace i"
proof (cases "table_get (db_events d) (node_event x)")
  case (Some r)
  then show ?thesis
    by (cases "of_json (bk_event B) (pe_payload r)") (auto simp: load_node_def getJSON_def sql_def decodePayload_def)
qed (simp add: load_node_def getJSON_def sql_def)

lemma insert_incident_Inr:
  assumes "insert_incident B i p d = Inr d'"
  obtains at where "bk_time B (inc_detected_at i) = Some at" "table_get (db_incidents d) (inc_id i) = None"
    "d' = d\<lparr>db_incidents := table_put (inc_id i) \<lparr>pi_status = inc_status i, pi_detected = at, pi_payload = p\<rparr> (db_incidents d)\<rparr>"
  using assms by (cases "bk_time B (inc_detected_at i)") (auto simp: insert_incident_def map_sum_Inr_iff insert_row_Inr_iff)

lemma insert_graph_Inr:
  assumes "insert_graph B g k p d = Inr d'"
  shows "table_get (db_graphs d) (graph_id g) = None" "\<forall>r\<in>set (table_rows (db_graphs d)). pg_incident r \<noteq> k"
    "d' = d\<lparr>db_graphs := table_put (graph_id g) \<lparr>pg_incident = k, pg_payload = p\<rparr> (db_graphs d)\<rparr>"
  using assms by (auto simp: insert_graph_def map_sum_Inr_iff insert_row_Inr_iff list_all_iff)

lemma put_incident_tx_Inr:
  assumes "put_incident_tx B v i g ip gp d = Inr (a, d')"
  obtains events out d1 where "map_result (load_node B v i d) (enumerate 1 (graph_nodes g)) = Inr events"
    "set (inc_evidence i) \<subseteq> set (node_ids (graph_nodes g))" "Order events g = Inr out"
    "insert_incident B i ip d = Inr d1" "insert_graph B g (inc_id i) gp d1 = Inr d'"
  using assms
  by (cases "map_result (load_node B v i d) (enumerate 1 (graph_nodes g))")
    (auto simp: put_incident_tx_def bind_result_Inr_iff sql_Inr_iff map_sum_Inr_iff list_ex_iff subset_iff
      split: sum.splits if_splits)

lemma pg_PutIncident_cases:
  "snd (pg_PutIncident B v i g d) = d
   \<or> (\<exists>ip gp at events out. incident_validate i = None \<and> graph_validate g = None \<and> graph_incident g = inc_id i
      \<and> inc_graph i = graph_id g \<and> to_json (bk_incident B) i = Some ip \<and> to_json (bk_graph B) g = Some gp
      \<and> bk_time B (inc_detected_at i) = Some at
      \<and> map_result (load_node B v i d) (enumerate 1 (graph_nodes g)) = Inr events
      \<and> set (inc_evidence i) \<subseteq> set (node_ids (graph_nodes g)) \<and> Order events g = Inr out
      \<and> table_get (db_incidents d) (inc_id i) = None \<and> table_get (db_graphs d) (graph_id g) = None
      \<and> (\<forall>r\<in>set (table_rows (db_graphs d)). pg_incident r \<noteq> inc_id i)
      \<and> snd (pg_PutIncident B v i g d) = d\<lparr>
          db_incidents := table_put (inc_id i) \<lparr>pi_status = inc_status i, pi_detected = at, pi_payload = ip\<rparr> (db_incidents d),
          db_graphs := table_put (graph_id g) \<lparr>pg_incident = inc_id i, pg_payload = gp\<rparr> (db_graphs d)\<rparr>)"
proof (cases "incident_validate i \<noteq> None \<or> graph_validate g \<noteq> None \<or> graph_incident g \<noteq> inc_id i \<or> inc_graph i \<noteq> graph_id g")
  case False
  show ?thesis
  proof (cases "payload (bk_incident B) i")
    case ip: (Inr ip)
    show ?thesis
    proof (cases "payload (bk_graph B) g")
      case gp: (Inr gp)
      from False ip gp have run: "pg_PutIncident B v i g d = transact v (put_incident_tx B v i g ip gp) d"
        by (simp add: pg_PutIncident_def)
      from transact_cases [of v "put_incident_tx B v i g ip gp" d] show ?thesis
      proof (elim disjE exE conjE)
        fix a d'
        assume tx: "put_incident_tx B v i g ip gp d = Inr (a, d')" and d': "snd (transact v (put_incident_tx B v i g ip gp) d) = d'"
        from put_incident_tx_Inr [OF tx] obtain events out d1 where
          ev: "map_result (load_node B v i d) (enumerate 1 (graph_nodes g)) = Inr events"
            "set (inc_evidence i) \<subseteq> set (node_ids (graph_nodes g))" "Order events g = Inr out"
          and ins: "insert_incident B i ip d = Inr d1" "insert_graph B g (inc_id i) gp d1 = Inr d'" .
        from insert_incident_Inr [OF ins(1)] obtain at where at: "bk_time B (inc_detected_at i) = Some at"
            "table_get (db_incidents d) (inc_id i) = None"
            "d1 = d\<lparr>db_incidents := table_put (inc_id i) \<lparr>pi_status = inc_status i, pi_detected = at, pi_payload = ip\<rparr> (db_incidents d)\<rparr>" .
        note gr = insert_graph_Inr [OF ins(2)]
        show ?thesis
          using False ip gp ev at gr unfolding run d'
          by (intro disjI2 exI [of _ ip] exI [of _ gp] exI [of _ at] exI [of _ events] exI [of _ out])
            (simp add: payload_Inr_iff)
      qed (simp add: run)
    qed (use False ip in \<open>simp add: pg_PutIncident_def\<close>)
  qed (use False in \<open>simp add: pg_PutIncident_def\<close>)
qed (simp add: pg_PutIncident_def)

lemma pg_PutCapsule_cases:
  "snd (pg_PutCapsule B v c d) = d
   \<or> (\<exists>p at. capsule_validate c = None \<and> to_json (bk_capsule B) c = Some p \<and> bk_time B (cap_created_at c) = Some at
      \<and> table_get (db_capsules d) (cap_id c) = None \<and> table_get (db_incidents d) (src_incident (cap_source c)) \<noteq> None
      \<and> snd (pg_PutCapsule B v c d) = d\<lparr>db_capsules := table_put (cap_id c)
          \<lparr>pc_incident = src_incident (cap_source c), pc_created = at, pc_payload = p\<rparr> (db_capsules d)\<rparr>)"
proof (cases "capsule_validate c")
  case None
  show ?thesis
  proof (cases "payload (bk_capsule B) c")
    case (Inr p)
    with None have run: "pg_PutCapsule B v c d = autocommit v (insert_capsule B c p d) d"
      by (simp add: pg_PutCapsule_def)
    from autocommit_cases [of v "insert_capsule B c p d" d] None Inr show ?thesis
      by (fastforce simp: run insert_capsule_def insert_row_Inr_iff map_sum_Inr_iff payload_Inr_iff
          split: option.splits)
  qed (use None in \<open>simp add: pg_PutCapsule_def\<close>)
qed (simp add: pg_PutCapsule_def)

text \<open>The row a new run gets.\<close>

definition new_run_row :: "replay_run \<Rightarrow> 'j \<Rightarrow> 'j pg_run" where
  "new_run_row r p = \<lparr>pr_capsule = run_capsule r, pr_status = run_status r, pr_outcome = nullableOutcome (run_outcome r),
     pr_payload = p, pr_lease = None\<rparr>"

lemma insert_run_Inr_iff:
  "insert_run B r p d = Inr (a, d') \<longleftrightarrow> run_row_checks B (run_id r) (new_run_row r p)
     \<and> table_get (db_runs d) (run_id r) = None \<and> table_get (db_capsules d) (run_capsule r) \<noteq> None
     \<and> d' = d\<lparr>db_runs := table_put (run_id r) (new_run_row r p) (db_runs d)\<rparr>"
  by (auto simp: insert_run_def new_run_row_def Let_def map_sum_Inr_iff insert_row_Inr_iff)

lemma select_run_Inr_iff:
  "select_run B v n k d = Inr r \<longleftrightarrow> \<not> de_fails v n
     \<and> (\<exists>x. table_get (db_runs d) k = Some x \<and> of_json (bk_run B) (pr_payload x) = Some r)"
  by (auto simp: select_run_def getJSON_Inr_iff)

lemma pg_PutRun_cases:
  "snd (pg_PutRun B v r d) = d
   \<or> (\<exists>p. run_validate r = None \<and> to_json (bk_run B) r = Some p
      \<and> table_get (db_runs d) (run_id r) = None \<and> table_get (db_capsules d) (run_capsule r) \<noteq> None
      \<and> (run_kind r \<noteq> RunTypeBaseline \<longrightarrow> (\<exists>x b. table_get (db_runs d) (run_baseline r) = Some x
           \<and> of_json (bk_run B) (pr_payload x) = Some b \<and> eligible_baseline b r))
      \<and> snd (pg_PutRun B v r d) = d\<lparr>db_runs := table_put (run_id r) (new_run_row r p) (db_runs d)\<rparr>)"
proof (cases "run_validate r")
  case None
  show ?thesis
  proof (cases "payload (bk_run B) r")
    case (Inr p)
    show ?thesis
    proof (cases "run_kind r = RunTypeBaseline")
      case True
      with None Inr have run: "pg_PutRun B v r d = autocommit v (insert_run B r p d) d" by (simp add: pg_PutRun_def)
      from autocommit_cases [of v "insert_run B r p d" d] None Inr True show ?thesis
        by (auto simp: run insert_run_Inr_iff payload_Inr_iff)
    next
      case False
      with None Inr have run: "pg_PutRun B v r d = transact v (put_run_tx B v r p) d" by (simp add: pg_PutRun_def)
      from transact_cases [of v "put_run_tx B v r p" d] None Inr show ?thesis
        by (fastforce simp: run put_run_tx_def insert_run_Inr_iff payload_Inr_iff bind_result_Inr_iff
            select_run_Inr_iff sql_Inr_iff split: if_splits)
    qed
  qed (use None in \<open>simp add: pg_PutRun_def\<close>)
qed (simp add: pg_PutRun_def)

lemma pg_TransitionRun_cases:
  "snd (pg_TransitionRun B v st r d) = d
   \<or> (\<exists>p x stored. run_validate r = None \<and> legalTransition st (run_status r) \<and> to_json (bk_run B) r = Some p
      \<and> table_get (db_runs d) (run_id r) = Some x \<and> of_json (bk_run B) (pr_payload x) = Some stored
      \<and> run_status stored = st \<and> same_identity stored r
      \<and> snd (pg_TransitionRun B v st r d) = d\<lparr>db_runs := table_put (run_id r)
          (x\<lparr>pr_status := run_status r, pr_outcome := nullableOutcome (run_outcome r), pr_payload := p\<rparr>) (db_runs d)\<rparr>
      \<and> pr_capsule x = run_capsule r)"
proof (cases "\<not> legalTransition st (run_status r) \<or> run_validate r \<noteq> None")
  case False
  show ?thesis
  proof (cases "payload (bk_run B) r")
    case (Inr p)
    with False have run: "pg_TransitionRun B v st r d = transact v (transition_tx B v st r p) d"
      by (simp add: pg_TransitionRun_def)
    from transact_cases [of v "transition_tx B v st r p" d] show ?thesis
    proof (elim disjE exE conjE)
      fix a d'
      assume "transition_tx B v st r p d = Inr (a, d')" and d': "snd (transact v (transition_tx B v st r p) d) = d'"
      then show ?thesis
        using False Inr unfolding run d'
        by (auto simp: transition_tx_def update_run_def Let_def bind_result_Inr_iff select_run_Inr_iff sql_Inr_iff
            payload_Inr_iff split: option.splits if_splits)
    qed (simp add: run)
  qed (use False in \<open>simp add: pg_TransitionRun_def\<close>)
qed (simp add: pg_TransitionRun_def)

lemma pg_ClaimRun_cases:
  "snd (pg_ClaimRun B v k l d) = d
   \<or> (\<exists>p x r until. table_get (db_runs d) k = Some x \<and> of_json (bk_run B) (pr_payload x) = Some r
      \<and> run_status r = ReplayRunCreated \<and> to_json (bk_run B) (r\<lparr>run_status := ReplayRunValidating\<rparr>) = Some p
      \<and> snd (pg_ClaimRun B v k l d) = d\<lparr>db_runs := table_put k
          (x\<lparr>pr_status := ReplayRunValidating, pr_payload := p, pr_lease := Some until\<rparr>) (db_runs d)\<rparr>)"
  using transact_cases [of v "claim_tx B v k l" d]
proof (elim disjE exE conjE)
  fix a d'
  assume "claim_tx B v k l d = Inr (a, d')" and d': "snd (transact v (claim_tx B v k l) d) = d'"
  then show ?thesis
    unfolding pg_ClaimRun_def d'
    by (auto simp: claim_tx_def Let_def bind_result_Inr_iff select_run_Inr_iff sql_Inr_iff
        payload_Inr_iff split: if_splits)
qed (simp add: pg_ClaimRun_def)

lemma pg_RenewLease_cases:
  "snd (pg_RenewLease B v k l d) = d
   \<or> (\<exists>x until. table_get (db_runs d) k = Some x
      \<and> snd (pg_RenewLease B v k l d) = d\<lparr>db_runs := table_put k (x\<lparr>pr_lease := Some until\<rparr>) (db_runs d)\<rparr>)"
  using autocommit_cases [of v "renew_update B v k l d" d]
  by (auto simp: pg_RenewLease_def renew_update_def split: sum.splits option.splits prod.splits)

lemma pg_PutDiff_cases:
  "snd (pg_PutDiff B v x d) = d
   \<or> (\<exists>p rb rc b c. diff_validate x = None \<and> to_json (bk_diff B) x = Some p
      \<and> table_get (db_runs d) (diff_baseline x) = Some rb \<and> of_json (bk_run B) (pr_payload rb) = Some b
      \<and> table_get (db_runs d) (diff_comparison x) = Some rc \<and> of_json (bk_run B) (pr_payload rc) = Some c
      \<and> comparable b c x \<and> table_get (db_diffs d) (diff_id x) = None
      \<and> (\<forall>r\<in>set (table_rows (db_diffs d)). pd_baseline r \<noteq> diff_baseline x \<or> pd_comparison r \<noteq> diff_comparison x)
      \<and> snd (pg_PutDiff B v x d) = d\<lparr>db_diffs := table_put (diff_id x)
          \<lparr>pd_baseline = diff_baseline x, pd_comparison = diff_comparison x, pd_payload = p\<rparr> (db_diffs d)\<rparr>)"
proof (cases "diff_validate x")
  case None
  show ?thesis
  proof (cases "payload (bk_diff B) x")
    case (Inr p)
    with None have run: "pg_PutDiff B v x d = transact v (put_diff_tx B v x p) d" by (simp add: pg_PutDiff_def)
    from transact_cases [of v "put_diff_tx B v x p" d] show ?thesis
    proof (elim disjE exE conjE)
      fix a d'
      assume "put_diff_tx B v x p d = Inr (a, d')" and d': "snd (transact v (put_diff_tx B v x p) d) = d'"
      then show ?thesis
        using None Inr unfolding run d'
        by (fastforce simp: put_diff_tx_def insert_diff_def insert_row_Inr_iff map_sum_Inr_iff bind_result_Inr_iff
            select_run_Inr_iff sql_Inr_iff payload_Inr_iff list_all_iff split: if_splits)
    qed (simp add: run)
  qed (use None in \<open>simp add: pg_PutDiff_def\<close>)
qed (simp add: pg_PutDiff_def)

lemma pg_Reset_cases: "snd (pg_Reset v d) = d \<or> snd (pg_Reset v d) = empty_db"
  using transact_cases [of v "reset_tx v" d]
  by (auto simp: pg_Reset_def reset_tx_def bind_result_Inr_iff split: if_splits)

section \<open>The steps of the repository\<close>

datatype pg_op =
    PgIngest execution_event
  | PgPutIncident incident execution_graph
  | PgPutCapsule replay_capsule
  | PgPutRun replay_run
  | PgTransition replay_run_status replay_run
  | PgClaim string int
  | PgRenew string int
  | PgPutDiff replay_diff
  | PgReset

fun pg_apply :: "'j backend \<Rightarrow> db_env \<Rightarrow> pg_op \<Rightarrow> 'j db \<Rightarrow> 'j db" where
  "pg_apply B v (PgIngest e) d = snd (pg_IngestEvent B v e d)"
| "pg_apply B v (PgPutIncident i g) d = snd (pg_PutIncident B v i g d)"
| "pg_apply B v (PgPutCapsule c) d = snd (pg_PutCapsule B v c d)"
| "pg_apply B v (PgPutRun r) d = snd (pg_PutRun B v r d)"
| "pg_apply B v (PgTransition st r) d = snd (pg_TransitionRun B v st r d)"
| "pg_apply B v (PgClaim k l) d = snd (pg_ClaimRun B v k l d)"
| "pg_apply B v (PgRenew k l) d = snd (pg_RenewLease B v k l d)"
| "pg_apply B v (PgPutDiff x) d = snd (pg_PutDiff B v x d)"
| "pg_apply B v PgReset d = snd (pg_Reset v d)"

text \<open>
  What the JSON codec does with a record that an operation writes: reading back gives the record, with the values of
  type \<open>any\<close> in the form the decoder gives them (numbers become float64), and the result is still valid. A run that
  was read from the database and claimed reads back as it is.
\<close>

definition reads_event :: "'j backend \<Rightarrow> execution_event \<Rightarrow> bool" where
  "reads_event B e \<longleftrightarrow> (\<forall>j. event_validate e = None \<and> to_json (bk_event B) e = Some j \<longrightarrow>
     (\<exists>m. of_json (bk_event B) j = Some (e\<lparr>ev_attributes := m\<rparr>) \<and> event_validate (e\<lparr>ev_attributes := m\<rparr>) = None))"

definition reads_graph :: "'j backend \<Rightarrow> execution_graph \<Rightarrow> bool" where
  "reads_graph B g \<longleftrightarrow> (\<forall>j. to_json (bk_graph B) g = Some j \<longrightarrow> of_json (bk_graph B) j = Some g
     \<and> bk_nodes B j = Some (map (\<lambda>n. (node_event n, node_index n)) (graph_nodes g)))"

definition reads_incident :: "'j backend \<Rightarrow> incident \<Rightarrow> bool" where
  "reads_incident B i \<longleftrightarrow> (\<forall>j. to_json (bk_incident B) i = Some j \<longrightarrow> of_json (bk_incident B) j = Some i)"

definition reads_capsule :: "'j backend \<Rightarrow> replay_capsule \<Rightarrow> bool" where
  "reads_capsule B c \<longleftrightarrow> (\<forall>j. capsule_validate c = None \<and> to_json (bk_capsule B) c = Some j \<longrightarrow>
     (\<exists>t f. of_json (bk_capsule B) j = Some (c\<lparr>cap_trigger := t, cap_dependency_fixtures := f\<rparr>)
        \<and> capsule_validate (c\<lparr>cap_trigger := t, cap_dependency_fixtures := f\<rparr>) = None))"

definition reads_run :: "'j backend \<Rightarrow> replay_run \<Rightarrow> bool" where
  "reads_run B r \<longleftrightarrow> (\<forall>j. run_validate r = None \<and> to_json (bk_run B) r = Some j \<longrightarrow>
     (\<exists>x. of_json (bk_run B) j = Some (r\<lparr>run_error_field := x\<rparr>) \<and> run_validate (r\<lparr>run_error_field := x\<rparr>) = None))"

definition reads_diff :: "'j backend \<Rightarrow> replay_diff \<Rightarrow> bool" where
  "reads_diff B x \<longleftrightarrow> (\<forall>j. diff_validate x = None \<and> to_json (bk_diff B) x = Some j \<longrightarrow>
     (\<exists>c f. of_json (bk_diff B) j = Some (x\<lparr>diff_changed := c, diff_divergence := f\<rparr>)
        \<and> diff_validate (x\<lparr>diff_changed := c, diff_divergence := f\<rparr>) = None))"

definition reads_claimed :: "'j backend \<Rightarrow> bool" where
  "reads_claimed B \<longleftrightarrow> (\<forall>i j r. of_json (bk_run B) i = Some r
     \<and> to_json (bk_run B) (r\<lparr>run_status := ReplayRunValidating\<rparr>) = Some j
     \<longrightarrow> of_json (bk_run B) j = Some (r\<lparr>run_status := ReplayRunValidating\<rparr>))"

fun reads_op :: "'j backend \<Rightarrow> pg_op \<Rightarrow> bool" where
  "reads_op B (PgIngest e) = reads_event B e"
| "reads_op B (PgPutIncident i g) = (reads_incident B i \<and> reads_graph B g)"
| "reads_op B (PgPutCapsule c) = reads_capsule B c"
| "reads_op B (PgPutRun r) = reads_run B r"
| "reads_op B (PgTransition st r) = reads_run B r"
| "reads_op B (PgPutDiff x) = reads_diff B x"
| "reads_op B _ = True"

inductive pg_reachable :: "'j backend \<Rightarrow> 'j db \<Rightarrow> bool" for B where
  fresh: "pg_reachable B empty_db"
| after: "pg_reachable B d \<Longrightarrow> reads_op B op \<Longrightarrow> pg_reachable B (pg_apply B v op d)"

section \<open>The records a database holds\<close>

definition view :: "('v, 'j) codec \<Rightarrow> ('r \<Rightarrow> 'j) \<Rightarrow> 'r table \<Rightarrow> string \<rightharpoonup> 'v" where
  "view c pay t = (\<lambda>k. Option.bind (table_get t k) (\<lambda>r. of_json c (pay r)))"

definition abs_db :: "'j backend \<Rightarrow> 'j db \<Rightarrow> repository" where
  "abs_db B d = \<lparr>rp_events = view (bk_event B) pe_payload (db_events d),
     rp_incidents = view (bk_incident B) pi_payload (db_incidents d),
     rp_graphs = view (bk_graph B) pg_payload (db_graphs d),
     rp_capsules = view (bk_capsule B) pc_payload (db_capsules d),
     rp_runs = view (bk_run B) pr_payload (db_runs d),
     rp_diffs = view (bk_diff B) pd_payload (db_diffs d)\<rparr>"

lemma view_Some_iff: "view c pay t k = Some x \<longleftrightarrow> (\<exists>r. table_get t k = Some r \<and> of_json c (pay r) = Some x)"
  by (simp add: view_def bind_eq_Some_conv)

lemma view_new: "table_get t k = None \<Longrightarrow> view c pay t k = None"
  by (simp add: view_def)

lemma view_put: "of_json c (pay r) = Some x \<Longrightarrow> view c pay (table_put k r t) = (view c pay t)(k \<mapsto> x)"
  by (simp add: view_def fun_eq_iff)

lemma view_Nil: "view c pay [] = Map.empty"
  by (simp add: view_def fun_eq_iff)

lemma view_same: "table_get t k = Some r \<Longrightarrow> pay r' = pay r \<Longrightarrow> view c pay (table_put k r' t) = view c pay t"
  by (auto simp: view_def fun_eq_iff)

lemma abs_empty_db: "abs_db B empty_db = empty_repository"
  by (simp add: abs_db_def empty_db_def empty_repository_def view_Nil)

section \<open>The invariant of the rows\<close>

text \<open>A row and its JSON say the same, the JSON is a valid record under the row's key, and what it refers to is there.\<close>

definition event_row_ok :: "'j backend \<Rightarrow> string \<Rightarrow> 'j pg_event \<Rightarrow> bool" where
  "event_row_ok B k r \<longleftrightarrow> (\<exists>e. of_json (bk_event B) (pe_payload r) = Some e \<and> ev_id e = k \<and> event_validate e = None
     \<and> pe_execution r = ev_execution e \<and> pe_trace r = ev_trace e \<and> pe_run r = nullableString (ev_run e)
     \<and> pe_sequence r = ev_sequence e \<and> bk_time B (ev_occurred_at e) = Some (pe_at r))"

text \<open>A stored incident has its one graph, whose events are stored and in order.\<close>

definition graph_backed :: "repository \<Rightarrow> incident \<Rightarrow> execution_graph \<Rightarrow> bool" where
  "graph_backed a i g \<longleftrightarrow> graph_incident g = inc_id i
     \<and> set (inc_evidence i) \<subseteq> set (node_ids (graph_nodes g))
     \<and> (\<exists>events out. map (\<lambda>n. rp_events a (node_event n)) (graph_nodes g) = map Some events
          \<and> (\<forall>e\<in>set events. ev_execution e = inc_execution i \<and> ev_trace e = inc_trace i)
          \<and> Order events g = Inr out)"

definition incident_row_ok :: "'j backend \<Rightarrow> 'j db \<Rightarrow> string \<Rightarrow> 'j pg_incident \<Rightarrow> bool" where
  "incident_row_ok B d k r \<longleftrightarrow> (\<exists>i g x. of_json (bk_incident B) (pi_payload r) = Some i \<and> inc_id i = k
     \<and> incident_validate i = None \<and> pi_status r = inc_status i \<and> bk_time B (inc_detected_at i) = Some (pi_detected r)
     \<and> table_get (db_graphs d) (inc_graph i) = Some x \<and> pg_incident x = k
     \<and> of_json (bk_graph B) (pg_payload x) = Some g \<and> graph_backed (abs_db B d) i g)"

definition graph_row_ok :: "'j backend \<Rightarrow> 'j db \<Rightarrow> string \<Rightarrow> 'j pg_graph \<Rightarrow> bool" where
  "graph_row_ok B d k r \<longleftrightarrow> (\<exists>g. of_json (bk_graph B) (pg_payload r) = Some g \<and> graph_id g = k
     \<and> graph_validate g = None \<and> graph_incident g = pg_incident r
     \<and> bk_nodes B (pg_payload r) = Some (map (\<lambda>n. (node_event n, node_index n)) (graph_nodes g)))
     \<and> table_get (db_incidents d) (pg_incident r) \<noteq> None"

definition capsule_row_ok :: "'j backend \<Rightarrow> 'j db \<Rightarrow> string \<Rightarrow> 'j pg_capsule \<Rightarrow> bool" where
  "capsule_row_ok B d k r \<longleftrightarrow> (\<exists>c. of_json (bk_capsule B) (pc_payload r) = Some c \<and> cap_id c = k
     \<and> capsule_validate c = None \<and> pc_incident r = src_incident (cap_source c)
     \<and> bk_time B (cap_created_at c) = Some (pc_created r))
     \<and> table_get (db_incidents d) (pc_incident r) \<noteq> None"

definition run_row_ok :: "'j backend \<Rightarrow> 'j db \<Rightarrow> string \<Rightarrow> 'j pg_run \<Rightarrow> bool" where
  "run_row_ok B d k x \<longleftrightarrow> (\<exists>r. of_json (bk_run B) (pr_payload x) = Some r \<and> run_id r = k \<and> run_validate r = None
     \<and> pr_status x = run_status r \<and> pr_capsule x = run_capsule r \<and> pr_outcome x = nullableOutcome (run_outcome r)
     \<and> baseline_known (abs_db B d) r)
     \<and> table_get (db_capsules d) (pr_capsule x) \<noteq> None"

definition diff_row_ok :: "'j backend \<Rightarrow> 'j db \<Rightarrow> string \<Rightarrow> 'j pg_diff \<Rightarrow> bool" where
  "diff_row_ok B d k x \<longleftrightarrow> (\<exists>f b c. of_json (bk_diff B) (pd_payload x) = Some f \<and> diff_id f = k
     \<and> diff_validate f = None \<and> pd_baseline x = diff_baseline f \<and> pd_comparison x = diff_comparison f
     \<and> rp_runs (abs_db B d) (diff_baseline f) = Some b \<and> rp_runs (abs_db B d) (diff_comparison f) = Some c
     \<and> comparable b c f)"

definition unique_key :: "('r \<Rightarrow> 'u) \<Rightarrow> 'r table \<Rightarrow> bool" where
  "unique_key u t \<longleftrightarrow> (\<forall>k k' r r'. table_get t k = Some r \<and> table_get t k' = Some r' \<and> u r = u r' \<longrightarrow> k = k')"

definition unique_columns :: "'j db \<Rightarrow> bool" where
  "unique_columns d \<longleftrightarrow> unique_key pg_incident (db_graphs d)
     \<and> unique_key (\<lambda>r. (pd_baseline r, pd_comparison r)) (db_diffs d)"

definition db_ok :: "'j backend \<Rightarrow> 'j db \<Rightarrow> bool" where
  "db_ok B d \<longleftrightarrow> tab.all_entries (event_row_ok B) (db_events d)
     \<and> tab.all_entries (incident_row_ok B d) (db_incidents d) \<and> tab.all_entries (graph_row_ok B d) (db_graphs d)
     \<and> tab.all_entries (capsule_row_ok B d) (db_capsules d) \<and> tab.all_entries (run_row_ok B d) (db_runs d)
     \<and> tab.all_entries (diff_row_ok B d) (db_diffs d) \<and> unique_columns d"

text \<open>What a later database keeps of an earlier one.\<close>

definition db_extends :: "'j backend \<Rightarrow> 'j db \<Rightarrow> 'j db \<Rightarrow> bool" where
  "db_extends B d d' \<longleftrightarrow> rp_events (abs_db B d) \<subseteq>\<^sub>m rp_events (abs_db B d')
     \<and> sub_table (db_incidents d) (db_incidents d') \<and> sub_table (db_graphs d) (db_graphs d')
     \<and> sub_table (db_capsules d) (db_capsules d') \<and> sub_table (db_diffs d) (db_diffs d')
     \<and> (\<forall>k r. rp_runs (abs_db B d) k = Some r \<longrightarrow> (\<exists>r'. rp_runs (abs_db B d') k = Some r' \<and> run_later r r'))"

lemma db_ok_empty: "db_ok B empty_db"
  by (simp add: db_ok_def empty_db_def unique_columns_def unique_key_def tab.all_entries_empty)

lemma db_extends_refl [simp]: "db_extends B d d"
  by (auto simp: db_extends_def)

lemma baseline_known_extends:
  assumes ext: "db_extends B d d'" and known: "baseline_known (abs_db B d) r"
  shows "baseline_known (abs_db B d') r"
proof -
  have "\<exists>b. rp_runs (abs_db B d') (run_baseline r) = Some b \<and> eligible_baseline b r" if "run_kind r = RunTypeWhatIf"
  proof -
    from known that obtain b where b: "rp_runs (abs_db B d) (run_baseline r) = Some b" "eligible_baseline b r"
      by (auto simp: baseline_known_def)
    with ext obtain b' where b': "rp_runs (abs_db B d') (run_baseline r) = Some b'" "run_later b b'"
      by (auto simp: db_extends_def)
    have "terminal_status (run_status b)" using b(2) by (simp add: eligible_baseline_def terminal_status_def)
    with b'(2) have "b' = b" by (rule run_later_terminal)
    with b(2) b'(1) show ?thesis by auto
  qed
  then show ?thesis by (simp add: baseline_known_def)
qed

lemma graph_backed_extends:
  assumes ext: "db_extends B d d'" and "graph_backed (abs_db B d) i g"
  shows "graph_backed (abs_db B d') i g"
proof -
  from assms(2) obtain events out where ev: "graph_incident g = inc_id i" "set (inc_evidence i) \<subseteq> set (node_ids (graph_nodes g))"
      "map (\<lambda>n. rp_events (abs_db B d) (node_event n)) (graph_nodes g) = map Some events"
      "\<forall>e\<in>set events. ev_execution e = inc_execution i \<and> ev_trace e = inc_trace i" "Order events g = Inr out"
    by (auto simp: graph_backed_def)
  have "rp_events (abs_db B d) k = Some e \<Longrightarrow> rp_events (abs_db B d') k = Some e" for k e
    using ext by (auto simp: db_extends_def map_le_def dom_def)
  with ev(3) have "map (\<lambda>n. rp_events (abs_db B d') (node_event n)) (graph_nodes g) = map Some events"
    by (simp add: list_eq_iff_nth_eq)
  with ev show ?thesis by (auto simp: graph_backed_def)
qed

lemma comparable_extends:
  assumes "db_extends B d d'" and "rp_runs (abs_db B d) j = Some b" "rp_runs (abs_db B d) k = Some c" and "comparable b c f"
  shows "rp_runs (abs_db B d') j = Some b" "rp_runs (abs_db B d') k = Some c"
proof -
  have "terminal_status (run_status b)" "terminal_status (run_status c)"
    using assms(4) by (simp_all add: comparable_def terminal_status_def)
  with assms(1-3) run_later_terminal show "rp_runs (abs_db B d') j = Some b" "rp_runs (abs_db B d') k = Some c"
    by (auto simp: db_extends_def) (metis option.inject)+
qed

lemma rows_extend:
  assumes ext: "db_extends B d d'"
  shows "incident_row_ok B d k r \<Longrightarrow> incident_row_ok B d' k r"
    and "graph_row_ok B d k g \<Longrightarrow> graph_row_ok B d' k g"
    and "capsule_row_ok B d k c \<Longrightarrow> capsule_row_ok B d' k c"
    and "run_row_ok B d k x \<Longrightarrow> run_row_ok B d' k x"
    and "diff_row_ok B d k f \<Longrightarrow> diff_row_ok B d' k f"
proof -
  show "incident_row_ok B d k r \<Longrightarrow> incident_row_ok B d' k r"
    using ext graph_backed_extends [OF ext] unfolding incident_row_ok_def db_extends_def sub_table_def by blast
  show "graph_row_ok B d k g \<Longrightarrow> graph_row_ok B d' k g"
    using ext unfolding graph_row_ok_def db_extends_def sub_table_def by fastforce
  show "capsule_row_ok B d k c \<Longrightarrow> capsule_row_ok B d' k c"
    using ext unfolding capsule_row_ok_def db_extends_def sub_table_def by fastforce
  show "run_row_ok B d k x \<Longrightarrow> run_row_ok B d' k x"
    using ext baseline_known_extends [OF ext] unfolding run_row_ok_def db_extends_def sub_table_def by fastforce
  show "diff_row_ok B d k f \<Longrightarrow> diff_row_ok B d' k f"
    unfolding diff_row_ok_def by (blast intro: comparable_extends [OF ext])
qed

lemma db_ok_rows:
  assumes "db_ok B d"
  shows "table_get (db_events d) k = Some e \<Longrightarrow> event_row_ok B k e"
    and "table_get (db_incidents d) k = Some i \<Longrightarrow> incident_row_ok B d k i"
    and "table_get (db_graphs d) k = Some g \<Longrightarrow> graph_row_ok B d k g"
    and "table_get (db_capsules d) k = Some c \<Longrightarrow> capsule_row_ok B d k c"
    and "table_get (db_runs d) k = Some x \<Longrightarrow> run_row_ok B d k x"
    and "table_get (db_diffs d) k = Some f \<Longrightarrow> diff_row_ok B d k f"
  using assms unfolding db_ok_def by (metis tab.all_entriesD)+

lemma unique_key_put:
  assumes "unique_key u t" and new: "\<And>r'. r' \<in> set (table_rows t) \<Longrightarrow> u r' \<noteq> u r" and "table_ok t"
  shows "unique_key u (table_put k r t)"
proof -
  have other: "u r' \<noteq> u r" if "table_get t k' = Some r'" for k' r'
    using that new tab.rows_iff [OF assms(3)] by blast
  show ?thesis
    unfolding unique_key_def
  proof (intro allI impI, elim conjE)
    fix i j x y
    assume get: "table_get (table_put k r t) i = Some x" "table_get (table_put k r t) j = Some y" and same: "u x = u y"
    have "i = j" if "table_get t i = Some x" "table_get t j = Some y"
      using assms(1) that same unfolding unique_key_def by blast
    with get same other [of i x] other [of j y] show "i = j" by (auto split: if_splits)
  qed
qed

lemma db_ok_unique: "db_ok B d \<Longrightarrow> unique_key pg_incident (db_graphs d)"
    "db_ok B d \<Longrightarrow> unique_key (\<lambda>r. (pd_baseline r, pd_comparison r)) (db_diffs d)"
    "db_ok B d \<Longrightarrow> table_ok (db_graphs d)" "db_ok B d \<Longrightarrow> table_ok (db_diffs d)"
  by (simp_all add: db_ok_def unique_columns_def tab.all_entries_def)

text \<open>The entries of the tables that an operation left alone.\<close>

lemma db_ok_extends:
  assumes "db_ok B d" and ext: "db_extends B d d'"
  shows "tab.all_entries (event_row_ok B) (db_events d)"
    and "tab.all_entries (incident_row_ok B d') (db_incidents d)"
    and "tab.all_entries (graph_row_ok B d') (db_graphs d)"
    and "tab.all_entries (capsule_row_ok B d') (db_capsules d)"
    and "tab.all_entries (run_row_ok B d') (db_runs d)"
    and "tab.all_entries (diff_row_ok B d') (db_diffs d)"
  using assms(1) rows_extend [OF ext] by (auto simp: db_ok_def elim!: all_entries_mono)

section \<open>Every operation keeps the invariant\<close>

definition db_step :: "'j backend \<Rightarrow> 'j db \<Rightarrow> 'j db \<Rightarrow> bool" where
  "db_step B d d' \<longleftrightarrow> db_extends B d d' \<and> db_ok B d'
     \<and> (abs_db B d' = abs_db B d \<or> repo_step (abs_db B d) (abs_db B d'))"

lemma db_step_refl: "db_ok B d \<Longrightarrow> db_step B d d"
  by (simp add: db_step_def)

lemma step_ingest:
  fixes B :: "'j backend"
  assumes ok: "db_ok B d" and reads: "reads_event B e"
  shows "db_step B d (snd (pg_IngestEvent B v e d))"
  using pg_IngestEvent_cases [of B v e d]
proof (elim disjE exE conjE)
  fix p :: 'j and at
  let ?r = "\<lparr>pe_execution = ev_execution e, pe_trace = ev_trace e, pe_run = nullableString (ev_run e),
    pe_payload = p, pe_at = at, pe_sequence = ev_sequence e\<rparr>"
  let ?d = "d\<lparr>db_events := table_put (ev_id e) ?r (db_events d)\<rparr>"
  assume new: "event_validate e = None" "to_json (bk_event B) e = Some p" "bk_time B (ev_occurred_at e) = Some at"
      "table_get (db_events d) (ev_id e) = None"
    and d': "snd (pg_IngestEvent B v e d) = ?d"
  from reads new(1,2) obtain m where m: "of_json (bk_event B) p = Some (e\<lparr>ev_attributes := m\<rparr>)"
      "event_validate (e\<lparr>ev_attributes := m\<rparr>) = None" by (auto simp: reads_event_def)
  have abs: "abs_db B ?d = abs_db B d\<lparr>rp_events := (rp_events (abs_db B d))(ev_id e \<mapsto> e\<lparr>ev_attributes := m\<rparr>)\<rparr>"
    using view_put [of "bk_event B" pe_payload ?r] m(1) by (simp add: abs_db_def)
  have unused: "rp_events (abs_db B d) (ev_id e) = None" by (simp add: abs_db_def view_new new(4))
  have ext: "db_extends B d ?d"
    unfolding db_extends_def abs using unused by (auto simp: map_le_def dom_def)
  have "event_row_ok B (ev_id e) ?r" using m new(3) by (simp add: event_row_ok_def)
  then have "tab.all_entries (event_row_ok B) (db_events ?d)"
    using db_ok_extends(1) [OF ok ext] by (simp add: tab.all_entries_put)
  moreover have "unique_columns ?d" using db_ok_unique [OF ok] by (simp add: unique_columns_def)
  ultimately have "db_ok B ?d" using db_ok_extends [OF ok ext] by (simp add: db_ok_def)
  moreover have "repo_step (abs_db B d) (abs_db B ?d)"
    unfolding abs using repo_step.event [of "e\<lparr>ev_attributes := m\<rparr>" "abs_db B d"] m(2) unused by simp
  ultimately show ?thesis unfolding d' db_step_def using ext by simp
qed (simp add: db_step_refl ok)

text \<open>The rows a transaction reads are the records the database holds.\<close>

lemma load_nodes_events:
  "map_result (load_node B v i d) (enumerate n nodes) = Inr events
    \<Longrightarrow> map (\<lambda>x. rp_events (abs_db B d) (node_event x)) nodes = map Some events
      \<and> (\<forall>e\<in>set events. ev_execution e = inc_execution i \<and> ev_trace e = inc_trace i)"
proof (induction nodes arbitrary: n events)
  case (Cons x nodes)
  then obtain e es where "load_node B v i d (n, x) = Inr e" "events = e # es"
      "map_result (load_node B v i d) (enumerate (Suc n) nodes) = Inr es"
    by (auto split: sum.splits)
  with Cons.IH show ?case by (auto simp: load_node_Inr_iff abs_db_def view_Some_iff)
qed simp

lemma step_incident:
  fixes B :: "'j backend"
  assumes ok: "db_ok B d" and reads: "reads_incident B i" "reads_graph B g"
  shows "db_step B d (snd (pg_PutIncident B v i g d))"
  using pg_PutIncident_cases [of B v i g d]
proof (elim disjE exE conjE)
  fix ip gp :: 'j and at events out
  let ?i = "\<lparr>pi_status = inc_status i, pi_detected = at, pi_payload = ip\<rparr>"
  let ?g = "\<lparr>pg_incident = inc_id i, pg_payload = gp\<rparr>"
  let ?d = "d\<lparr>db_incidents := table_put (inc_id i) ?i (db_incidents d), db_graphs := table_put (graph_id g) ?g (db_graphs d)\<rparr>"
  assume valid: "incident_validate i = None" "graph_validate g = None" "graph_incident g = inc_id i" "inc_graph i = graph_id g"
    and json: "to_json (bk_incident B) i = Some ip" "to_json (bk_graph B) g = Some gp" "bk_time B (inc_detected_at i) = Some at"
    and ev: "map_result (load_node B v i d) (enumerate 1 (graph_nodes g)) = Inr events"
      "set (inc_evidence i) \<subseteq> set (node_ids (graph_nodes g))" "Order events g = Inr out"
    and new: "table_get (db_incidents d) (inc_id i) = None" "table_get (db_graphs d) (graph_id g) = None"
      "\<forall>r\<in>set (table_rows (db_graphs d)). pg_incident r \<noteq> inc_id i"
    and d': "snd (pg_PutIncident B v i g d) = ?d"
  have dec: "of_json (bk_incident B) ip = Some i" "of_json (bk_graph B) gp = Some g"
      "bk_nodes B gp = Some (map (\<lambda>n. (node_event n, node_index n)) (graph_nodes g))"
    using reads json by (auto simp: reads_incident_def reads_graph_def)
  have abs: "abs_db B ?d = abs_db B d\<lparr>rp_incidents := (rp_incidents (abs_db B d))(inc_id i \<mapsto> i),
      rp_graphs := (rp_graphs (abs_db B d))(graph_id g \<mapsto> g)\<rparr>"
    using view_put [of "bk_incident B" pi_payload ?i] view_put [of "bk_graph B" pg_payload ?g] dec by (simp add: abs_db_def)
  have unused: "rp_incidents (abs_db B d) (inc_id i) = None" "rp_graphs (abs_db B d) (graph_id g) = None"
    by (simp_all add: abs_db_def view_new new)
  have ext: "db_extends B d ?d"
    unfolding db_extends_def abs using new by (auto simp: sub_table_put)
  have "graph_backed (abs_db B ?d) i g"
    using load_nodes_events [OF ev(1)] ev(2,3) valid(3) by (auto simp: graph_backed_def abs)
  then have "incident_row_ok B ?d (inc_id i) ?i" using dec valid json(3) by (auto simp: incident_row_ok_def)
  then have "tab.all_entries (incident_row_ok B ?d) (db_incidents ?d)"
    using db_ok_extends(2) [OF ok ext] by (simp add: tab.all_entries_put)
  moreover have "graph_row_ok B ?d (graph_id g) ?g" using dec valid by (simp add: graph_row_ok_def)
  then have "tab.all_entries (graph_row_ok B ?d) (db_graphs ?d)"
    using db_ok_extends(3) [OF ok ext] by (simp add: tab.all_entries_put)
  moreover have "unique_columns ?d"
    using db_ok_unique [OF ok] new(3) by (simp add: unique_columns_def unique_key_put)
  ultimately have "db_ok B ?d" using db_ok_extends [OF ok ext] by (simp add: db_ok_def)
  moreover have "repo_step (abs_db B d) (abs_db B ?d)"
    unfolding abs using repo_step.incident [of i g "abs_db B d"] valid unused by simp
  ultimately show ?thesis unfolding d' db_step_def using ext by simp
qed (simp add: db_step_refl ok)

lemma step_capsule:
  fixes B :: "'j backend"
  assumes ok: "db_ok B d" and reads: "reads_capsule B c"
  shows "db_step B d (snd (pg_PutCapsule B v c d))"
  using pg_PutCapsule_cases [of B v c d]
proof (elim disjE exE conjE)
  fix p :: 'j and at
  let ?r = "\<lparr>pc_incident = src_incident (cap_source c), pc_created = at, pc_payload = p\<rparr>"
  let ?d = "d\<lparr>db_capsules := table_put (cap_id c) ?r (db_capsules d)\<rparr>"
  assume new: "capsule_validate c = None" "to_json (bk_capsule B) c = Some p" "bk_time B (cap_created_at c) = Some at"
      "table_get (db_capsules d) (cap_id c) = None" "table_get (db_incidents d) (src_incident (cap_source c)) \<noteq> None"
    and d': "snd (pg_PutCapsule B v c d) = ?d"
  from reads new(1,2) obtain t f where m: "of_json (bk_capsule B) p = Some (c\<lparr>cap_trigger := t, cap_dependency_fixtures := f\<rparr>)"
      "capsule_validate (c\<lparr>cap_trigger := t, cap_dependency_fixtures := f\<rparr>) = None" by (auto simp: reads_capsule_def)
  let ?c = "c\<lparr>cap_trigger := t, cap_dependency_fixtures := f\<rparr>"
  have abs: "abs_db B ?d = abs_db B d\<lparr>rp_capsules := (rp_capsules (abs_db B d))(cap_id c \<mapsto> ?c)\<rparr>"
    using view_put [of "bk_capsule B" pc_payload ?r] m(1) by (simp add: abs_db_def)
  have unused: "rp_capsules (abs_db B d) (cap_id c) = None" by (simp add: abs_db_def view_new new(4))
  have ext: "db_extends B d ?d"
    unfolding db_extends_def abs using new(4) by (auto simp: sub_table_put)
  have "capsule_row_ok B ?d (cap_id c) ?r" using m new(3,5) by (simp add: capsule_row_ok_def)
  then have "tab.all_entries (capsule_row_ok B ?d) (db_capsules ?d)"
    using db_ok_extends(4) [OF ok ext] by (simp add: tab.all_entries_put)
  moreover have "unique_columns ?d" using db_ok_unique [OF ok] by (simp add: unique_columns_def)
  ultimately have "db_ok B ?d" using db_ok_extends [OF ok ext] by (simp add: db_ok_def)
  moreover have "repo_step (abs_db B d) (abs_db B ?d)"
    unfolding abs using repo_step.capsule [of ?c "abs_db B d"] m(2) unused by simp
  ultimately show ?thesis unfolding d' db_step_def using ext by simp
qed (simp add: db_step_refl ok)

text \<open>A run written under its id, new or further along its life cycle.\<close>

lemma write_run:
  assumes ok: "db_ok B d" and dec: "of_json (bk_run B) (pr_payload x) = Some r"
    and cols: "pr_status x = run_status r" "pr_capsule x = run_capsule r" "pr_outcome x = nullableOutcome (run_outcome r)"
    and r: "run_id r = k" "run_validate r = None" "baseline_known (abs_db B d) r" "table_get (db_capsules d) (run_capsule r) \<noteq> None"
    and later: "case rp_runs (abs_db B d) k of None \<Rightarrow> True | Some r0 \<Rightarrow> run_later r0 r"
    and d': "d' = d\<lparr>db_runs := table_put k x (db_runs d)\<rparr>"
  shows "abs_db B d' = abs_db B d\<lparr>rp_runs := (rp_runs (abs_db B d))(k \<mapsto> r)\<rparr>" "db_extends B d d'" "db_ok B d'"
proof -
  show abs: "abs_db B d' = abs_db B d\<lparr>rp_runs := (rp_runs (abs_db B d))(k \<mapsto> r)\<rparr>"
    using view_put [of "bk_run B" pr_payload x, OF dec] by (simp add: abs_db_def d')
  show ext: "db_extends B d d'"
    unfolding db_extends_def abs using later by (auto simp: d' split: option.splits)
  have "run_row_ok B d' k x"
    using dec cols r baseline_known_extends [OF ext r(3)] by (simp add: run_row_ok_def d')
  then have "tab.all_entries (run_row_ok B d') (db_runs d')"
    using db_ok_extends(5) [OF ok ext] by (simp add: tab.all_entries_put d')
  moreover have "unique_columns d'" using db_ok_unique [OF ok] by (simp add: unique_columns_def d')
  ultimately show "db_ok B d'" using db_ok_extends [OF ok ext] by (simp add: db_ok_def d')
qed

lemma abs_run: "table_get (db_runs d) k = Some x \<Longrightarrow> of_json (bk_run B) (pr_payload x) = Some r \<Longrightarrow> rp_runs (abs_db B d) k = Some r"
  by (simp add: abs_db_def view_Some_iff)

lemma db_ok_run:
  assumes "db_ok B d" and "table_get (db_runs d) k = Some x" and "of_json (bk_run B) (pr_payload x) = Some r"
  shows "run_id r = k" "run_validate r = None" "pr_status x = run_status r" "pr_capsule x = run_capsule r"
    "pr_outcome x = nullableOutcome (run_outcome r)" "baseline_known (abs_db B d) r"
    "table_get (db_capsules d) (run_capsule r) \<noteq> None"
  using db_ok_rows(5) [OF assms(1,2)] assms(3) by (auto simp: run_row_ok_def)

lemma step_put_run:
  fixes B :: "'j backend"
  assumes ok: "db_ok B d" and reads: "reads_run B r"
  shows "db_step B d (snd (pg_PutRun B v r d))"
  using pg_PutRun_cases [of B v r d]
proof (elim disjE exE conjE)
  fix p :: 'j
  assume new: "run_validate r = None" "to_json (bk_run B) r = Some p" "table_get (db_runs d) (run_id r) = None"
      "table_get (db_capsules d) (run_capsule r) \<noteq> None"
      "run_kind r \<noteq> RunTypeBaseline \<longrightarrow> (\<exists>x b. table_get (db_runs d) (run_baseline r) = Some x
           \<and> of_json (bk_run B) (pr_payload x) = Some b \<and> eligible_baseline b r)"
    and d': "snd (pg_PutRun B v r d) = d\<lparr>db_runs := table_put (run_id r) (new_run_row r p) (db_runs d)\<rparr>"
  from reads new(1,2) obtain x where m: "of_json (bk_run B) p = Some (r\<lparr>run_error_field := x\<rparr>)"
      "run_validate (r\<lparr>run_error_field := x\<rparr>) = None" by (auto simp: reads_run_def)
  let ?r = "r\<lparr>run_error_field := x\<rparr>"
  have unused: "rp_runs (abs_db B d) (run_id r) = None" by (simp add: abs_db_def view_new new(3))
  have known: "baseline_known (abs_db B d) ?r"
    using new(5) abs_run by (fastforce simp: baseline_known_def eligible_baseline_def)
  note w = write_run [OF ok, of "new_run_row r p" ?r "run_id r", OF _ _ _ _ _ m(2) known _ _ d']
  from m(1) new(4) unused have
    "abs_db B (snd (pg_PutRun B v r d)) = abs_db B d\<lparr>rp_runs := (rp_runs (abs_db B d))(run_id r \<mapsto> ?r)\<rparr>
     \<and> db_extends B d (snd (pg_PutRun B v r d)) \<and> db_ok B (snd (pg_PutRun B v r d))"
    by (intro conjI w) (simp_all add: new_run_row_def)
  then show ?thesis
    using repo_step.create [of ?r "abs_db B d"] m(2) unused known by (simp add: db_step_def)
qed (simp add: db_step_refl ok)

lemma legalTransition_eq: "legalTransition = CanTransitionReplayRun"
proof (intro ext)
  show "legalTransition s t = CanTransitionReplayRun s t" for s t by (cases s) auto
qed

lemma step_transition:
  fixes B :: "'j backend"
  assumes ok: "db_ok B d" and reads: "reads_run B r"
  shows "db_step B d (snd (pg_TransitionRun B v st r d))"
  using pg_TransitionRun_cases [of B v st r d]
proof (elim disjE exE conjE)
  fix p :: 'j and x :: "'j pg_run" and stored
  let ?x = "x\<lparr>pr_status := run_status r, pr_outcome := nullableOutcome (run_outcome r), pr_payload := p\<rparr>"
  assume new: "run_validate r = None" "legalTransition st (run_status r)" "to_json (bk_run B) r = Some p"
      "table_get (db_runs d) (run_id r) = Some x" "of_json (bk_run B) (pr_payload x) = Some stored"
      "run_status stored = st" "same_identity stored r" "pr_capsule x = run_capsule r"
    and d': "snd (pg_TransitionRun B v st r d) = d\<lparr>db_runs := table_put (run_id r) ?x (db_runs d)\<rparr>"
  from reads new(1,3) obtain e where m: "of_json (bk_run B) p = Some (r\<lparr>run_error_field := e\<rparr>)"
      "run_validate (r\<lparr>run_error_field := e\<rparr>) = None" by (auto simp: reads_run_def)
  let ?r = "r\<lparr>run_error_field := e\<rparr>"
  note row = db_ok_run [OF ok new(4,5)]
  have same: "same_identity stored ?r" using new(7) by (simp add: same_identity_def)
  have held: "rp_runs (abs_db B d) (run_id r) = Some stored" by (rule abs_run [OF new(4,5)])
  have later: "run_later stored ?r"
    using same row(1) new(2,6) by (auto simp: run_later_def legalTransition_eq)
  have known: "baseline_known (abs_db B d) ?r"
    using row(6) same by (auto simp: baseline_known_def same_identity_def eligible_baseline_def)
  note w = write_run [OF ok, of ?x ?r "run_id r", OF _ _ _ _ _ m(2) known _ _ d']
  have "abs_db B (snd (pg_TransitionRun B v st r d)) = abs_db B d\<lparr>rp_runs := (rp_runs (abs_db B d))(run_id r \<mapsto> ?r)\<rparr>
     \<and> db_extends B d (snd (pg_TransitionRun B v st r d)) \<and> db_ok B (snd (pg_TransitionRun B v st r d))"
    using m(1) new(8) row(4,7) held later by (intro conjI w) simp_all
  then show ?thesis
    using repo_step.advance [of "abs_db B d" ?r stored] m(2) held same new(2,6) by (simp add: db_step_def legalTransition_eq)
qed (simp add: db_step_refl ok)

lemma step_claim:
  fixes B :: "'j backend"
  assumes ok: "db_ok B d" and reads: "reads_claimed B"
  shows "db_step B d (snd (pg_ClaimRun B v k l d))"
  using pg_ClaimRun_cases [of B v k l d]
proof (elim disjE exE conjE)
  fix p :: 'j and x :: "'j pg_run" and r :: replay_run and until
  let ?x = "x\<lparr>pr_status := ReplayRunValidating, pr_payload := p, pr_lease := Some until\<rparr>"
  let ?r = "r\<lparr>run_status := ReplayRunValidating\<rparr>"
  assume new: "table_get (db_runs d) k = Some x" "of_json (bk_run B) (pr_payload x) = Some r"
      "run_status r = ReplayRunCreated" "to_json (bk_run B) ?r = Some p"
    and d': "snd (pg_ClaimRun B v k l d) = d\<lparr>db_runs := table_put k ?x (db_runs d)\<rparr>"
  have dec: "of_json (bk_run B) p = Some ?r" using reads new(2,4) by (auto simp: reads_claimed_def)
  note row = db_ok_run [OF ok new(1,2)]
  have held: "rp_runs (abs_db B d) k = Some r" by (rule abs_run [OF new(1,2)])
  have same: "same_identity r ?r" by (simp add: same_identity_def)
  have valid: "run_validate ?r = None" by (rule claimed_valid [OF row(2) new(3)])
  have later: "run_later r ?r" using same new(3) by (auto simp: run_later_def)
  have known: "baseline_known (abs_db B d) ?r"
    using row(6) by (auto simp: baseline_known_def eligible_baseline_def)
  note w = write_run [OF ok, of ?x ?r k, OF _ _ _ _ _ valid known _ _ d']
  have "abs_db B (snd (pg_ClaimRun B v k l d)) = abs_db B d\<lparr>rp_runs := (rp_runs (abs_db B d))(k \<mapsto> ?r)\<rparr>
     \<and> db_extends B d (snd (pg_ClaimRun B v k l d)) \<and> db_ok B (snd (pg_ClaimRun B v k l d))"
    using dec row held later by (intro conjI w) simp_all
  then show ?thesis
    using repo_step.advance [of "abs_db B d" ?r r] valid held same new(3) row(1) by (simp add: db_step_def)
qed (simp add: db_step_refl ok)

lemma step_renew:
  fixes B :: "'j backend"
  assumes ok: "db_ok B d"
  shows "db_step B d (snd (pg_RenewLease B v k l d)) \<and> abs_db B (snd (pg_RenewLease B v k l d)) = abs_db B d"
  using pg_RenewLease_cases [of B v k l d]
proof (elim disjE exE conjE)
  fix x :: "'j pg_run" and until
  let ?x = "x\<lparr>pr_lease := Some until\<rparr>"
  let ?d = "d\<lparr>db_runs := table_put k ?x (db_runs d)\<rparr>"
  assume x: "table_get (db_runs d) k = Some x" and d': "snd (pg_RenewLease B v k l d) = ?d"
  have abs: "abs_db B ?d = abs_db B d" using x by (simp add: abs_db_def view_same)
  then have ext: "db_extends B d ?d" by (auto simp: db_extends_def)
  have "run_row_ok B ?d k ?x"
    using db_ok_rows(5) [OF ok x] by (auto simp: run_row_ok_def abs)
  then have "tab.all_entries (run_row_ok B ?d) (db_runs ?d)"
    using db_ok_extends(5) [OF ok ext] by (simp add: tab.all_entries_put)
  moreover have "unique_columns ?d" using db_ok_unique [OF ok] by (simp add: unique_columns_def)
  ultimately have "db_ok B ?d" using db_ok_extends [OF ok ext] by (simp add: db_ok_def)
  with ext abs show ?thesis by (simp add: db_step_def d')
qed (simp add: db_step_refl ok)

lemma step_diff:
  fixes B :: "'j backend"
  assumes ok: "db_ok B d" and reads: "reads_diff B x"
  shows "db_step B d (snd (pg_PutDiff B v x d))"
  using pg_PutDiff_cases [of B v x d]
proof (elim disjE exE conjE)
  fix p :: 'j and rb rc :: "'j pg_run" and b c
  let ?r = "\<lparr>pd_baseline = diff_baseline x, pd_comparison = diff_comparison x, pd_payload = p\<rparr>"
  let ?d = "d\<lparr>db_diffs := table_put (diff_id x) ?r (db_diffs d)\<rparr>"
  assume new: "diff_validate x = None" "to_json (bk_diff B) x = Some p" "table_get (db_diffs d) (diff_id x) = None"
      "\<forall>r\<in>set (table_rows (db_diffs d)). pd_baseline r \<noteq> diff_baseline x \<or> pd_comparison r \<noteq> diff_comparison x"
    and runs: "table_get (db_runs d) (diff_baseline x) = Some rb" "of_json (bk_run B) (pr_payload rb) = Some b"
      "table_get (db_runs d) (diff_comparison x) = Some rc" "of_json (bk_run B) (pr_payload rc) = Some c" "comparable b c x"
    and d': "snd (pg_PutDiff B v x d) = ?d"
  from reads new(1,2) obtain m f where m: "of_json (bk_diff B) p = Some (x\<lparr>diff_changed := m, diff_divergence := f\<rparr>)"
      "diff_validate (x\<lparr>diff_changed := m, diff_divergence := f\<rparr>) = None" by (auto simp: reads_diff_def)
  let ?x = "x\<lparr>diff_changed := m, diff_divergence := f\<rparr>"
  have abs: "abs_db B ?d = abs_db B d\<lparr>rp_diffs := (rp_diffs (abs_db B d))(diff_id x \<mapsto> ?x)\<rparr>"
    using view_put [of "bk_diff B" pd_payload ?r] m(1) by (simp add: abs_db_def)
  have unused: "rp_diffs (abs_db B d) (diff_id x) = None" by (simp add: abs_db_def view_new new(3))
  have ext: "db_extends B d ?d"
    unfolding db_extends_def abs using new(3) by (auto simp: sub_table_put)
  have "diff_row_ok B ?d (diff_id x) ?r"
    using m abs_run [OF runs(1,2)] abs_run [OF runs(3,4)] runs(5)
    by (auto simp: diff_row_ok_def abs comparable_def)
  then have "tab.all_entries (diff_row_ok B ?d) (db_diffs ?d)"
    using db_ok_extends(6) [OF ok ext] by (simp add: tab.all_entries_put)
  moreover have "unique_key (\<lambda>r. (pd_baseline r, pd_comparison r)) (table_put (diff_id x) ?r (db_diffs d))"
    using new(4) by (intro unique_key_put db_ok_unique [OF ok]) auto
  then have "unique_columns ?d" using db_ok_unique [OF ok] by (simp add: unique_columns_def)
  ultimately have "db_ok B ?d" using db_ok_extends [OF ok ext] by (simp add: db_ok_def)
  moreover have "repo_step (abs_db B d) (abs_db B ?d)"
    unfolding abs using repo_step.diff [of ?x "abs_db B d"] m(2) unused by simp
  ultimately show ?thesis unfolding d' db_step_def using ext by simp
qed (simp add: db_step_refl ok)

text \<open>A reset empties the database; every other operation is a step.\<close>

lemma apply_step:
  assumes ok: "db_ok B d" and reads: "reads_claimed B" "reads_op B op"
  shows "db_step B d (pg_apply B v op d) \<or> op = PgReset \<and> pg_apply B v op d = empty_db"
proof (cases op)
  case PgReset
  then show ?thesis using pg_Reset_cases [of v d] db_step_refl [OF ok] by auto
qed (use assms in \<open>simp_all add: step_ingest step_incident step_capsule step_put_run step_transition step_claim
    step_renew step_diff\<close>)

lemma pg_reachable_ok: "pg_reachable B d \<Longrightarrow> reads_claimed B \<Longrightarrow> db_ok B d"
proof (induction rule: pg_reachable.induct)
  case (after d op v)
  then show ?case using apply_step [of B d op v] by (auto simp: db_step_def db_ok_empty)
qed (simp add: db_ok_empty)

end
