(* ===== verification/PostgresReads.thy ===== *)
theory PostgresReads
  imports PostgresSteps
begin

text \<open>
  Reading from the Postgres repository: in a database that holds the same records as an in-memory store, the reads
  answer the same.
\<close>

text \<open>No call fails.\<close>

definition quiet :: "db_env \<Rightarrow> bool" where
  "quiet v \<longleftrightarrow> (\<forall>n. \<not> de_fails v n) \<and> de_commit v = Committed"

lemma quiet_simps: "quiet v \<Longrightarrow> \<not> de_fails v n" "quiet v \<Longrightarrow> de_commit v = Committed"
  by (simp_all add: quiet_def)

lemma sql_quiet: "quiet v \<Longrightarrow> sql v n r = map_sum repositoryError id r"
  by (simp add: sql_def quiet_simps)

section \<open>The detail of an incident\<close>

lemma sort_by_map: "sort_by lt (map f xs) = map f (sort_by (\<lambda>a b. lt (f a) (f b)) xs)"
proof -
  have "insert_by lt (f x) (map f ys) = map f (insert_by (\<lambda>a b. lt (f a) (f b)) x ys)" for x ys
    by (induction ys) simp_all
  then show ?thesis by (induction xs) simp_all
qed

lemma map_filter_total:
  "\<forall>x\<in>set xs. f x = Some (g x) \<Longrightarrow> List.map_filter f xs = map g xs"
  by (induction xs) (simp_all add: List.map_filter_simps)

interpretation index_order: key_order "\<lambda>a b. node_index a < node_index b" node_index
  by standard simp

text \<open>Sorting the nodes by index puts their events in the order that \<open>Order\<close> gives.\<close>

lemma nodes_in_order:
  assumes graph: "graph_validate g = None" and out: "arranged (map ev (graph_nodes g)) (graph_nodes g) out"
    and ids: "\<forall>n\<in>set (graph_nodes g). ev_id (ev n) = node_event n"
  defines "ns \<equiv> sort_by (\<lambda>a b. node_index a < node_index b) (graph_nodes g)"
  shows "map ev ns = out" and "\<forall>i<length ns. node_index (ns ! i) = int i \<and> node_event (ns ! i) = ev_id (out ! i)"
proof -
  let ?pos = "\<lambda>e. the (position_of (graph_nodes g) (ev_id e))"
  have dist: "distinct (node_ids (graph_nodes g))" using graph by (simp add: graph_validate_None_iff nodes_ok_def)
  have set: "set ns = set (graph_nodes g)" by (simp add: ns_def)
  have pos: "?pos (ev n) = node_index n" if "n \<in> set ns" for n
    using position_of_node [OF dist, of n] that ids by (simp add: set)
  have mset: "mset (map ev ns) = mset out" using out by (simp add: arranged_def ns_def)
  have nth: "?pos (out ! i) = int i" if "i < length out" for i
    using out that by (simp add: arranged_def)
  have upt: "map ?pos out = map int [0..<length out]" by (rule nth_equalityI) (simp_all add: nth)
  have sorted: "sorted (map ?pos out)" unfolding upt by (simp add: sorted_iff_nth_mono)
  have inj: "distinct (map ?pos out)" unfolding upt by (simp add: distinct_map)
  have keys: "map ?pos (map ev ns) = map node_index ns" using pos by simp
  have "sorted (map ?pos (map ev ns))" unfolding keys unfolding ns_def by (rule index_order.sorted_sort)
  then have "sort_key ?pos (map ev ns) = map ev ns" by (rule sort_key_id_if_sorted)
  moreover have "inj_on ?pos (set (map ev ns))"
    using inj mset_eq_setD [OF mset] by (simp add: distinct_map)
  ultimately show eq: "map ev ns = out" using sort_key_inj_key_eq [OF mset _ sorted] by simp
  show "\<forall>i<length ns. node_index (ns ! i) = int i \<and> node_event (ns ! i) = ev_id (out ! i)"
  proof (intro allI impI)
    fix i assume i: "i < length ns"
    then have "out ! i = ev (ns ! i)" "i < length out" using eq by auto
    with i nth [of i] pos [of "ns ! i"] ids set show "node_index (ns ! i) = int i \<and> node_event (ns ! i) = ev_id (out ! i)"
      by (metis nth_mem)
  qed
qed

text \<open>The graph that the join finds for an incident is the one it names.\<close>

lemma find_graph:
  assumes ok: "db_ok B d" and x: "table_get (db_graphs d) j = Some x" "pg_incident x = k"
  shows "find (\<lambda>r. pg_incident r = k) (table_rows (db_graphs d)) = Some x"
proof (cases "find (\<lambda>r. pg_incident r = k) (table_rows (db_graphs d))")
  case None
  with x tab.rows_iff [OF db_ok_unique(3) [OF ok], of x] show ?thesis by (auto simp: find_None_iff)
next
  case (Some y)
  then have y: "y \<in> set (table_rows (db_graphs d))" "pg_incident y = k" by (auto simp: find_Some_iff)
  then obtain j' where "table_get (db_graphs d) j' = Some y" using tab.rows_iff [OF db_ok_unique(3) [OF ok], of y] by blast
  with x y(2) db_ok_unique(1) [OF ok] have "j' = j" unfolding unique_key_def by metis
  with x Some \<open>table_get (db_graphs d) j' = Some y\<close> show ?thesis by simp
qed

lemma detail_served:
  assumes ok: "db_ok B d" and quiet: "quiet v" and row: "table_get (db_incidents d) k = Some r"
  obtains i g out events where "pg_GetIncidentDetail B v k d = Inr (i, g, out)" "rp_incidents (abs_db B d) k = Some i"
    "rp_graphs (abs_db B d) (inc_graph i) = Some g" "graph_incident g = inc_id i" "inc_id i = k"
    "map (\<lambda>n. rp_events (abs_db B d) (node_event n)) (graph_nodes g) = map Some events" "Order events g = Inr out"
proof -
  from db_ok_rows(2) [OF ok row] obtain i g x where
    i: "of_json (bk_incident B) (pi_payload r) = Some i" "inc_id i = k"
    and x: "table_get (db_graphs d) (inc_graph i) = Some x" "pg_incident x = k"
    and g: "of_json (bk_graph B) (pg_payload x) = Some g" "graph_backed (abs_db B d) i g"
    by (auto simp: incident_row_ok_def)
  let ?ns = "graph_nodes g"
  let ?row = "\<lambda>n. the (table_get (db_events d) (node_event n))"
  let ?ev = "\<lambda>n. the (rp_events (abs_db B d) (node_event n))"
  from g(2) obtain events out where events: "map (\<lambda>n. rp_events (abs_db B d) (node_event n)) ?ns = map Some events"
      "Order events g = Inr out" and inc: "graph_incident g = inc_id i"
    by (auto simp: graph_backed_def)
  have "map ?ev ?ns = map the (map Some events)" using events(1) by (simp flip: events(1))
  then have evs: "events = map ?ev ?ns" by (simp add: comp_def)
  have held: "\<exists>q. table_get (db_events d) (node_event n) = Some q \<and> of_json (bk_event B) (pe_payload q) = Some (?ev n)
      \<and> ev_id (?ev n) = node_event n" if "n \<in> set ?ns" for n
  proof -
    have "rp_events (abs_db B d) (node_event n) \<in> set (map Some events)"
      unfolding events(1) [symmetric] using that by simp
    then obtain e where e: "rp_events (abs_db B d) (node_event n) = Some e" by auto
    then obtain q where "table_get (db_events d) (node_event n) = Some q" "of_json (bk_event B) (pe_payload q) = Some e"
      by (auto simp: abs_db_def view_Some_iff)
    with db_ok_rows(1) [OF ok this(1)] e show ?thesis by (auto simp: event_row_ok_def)
  qed
  have nodes: "bk_nodes B (pg_payload x) = Some (map (\<lambda>n. (node_event n, node_index n)) ?ns)" and graph: "graph_validate g = None"
    using db_ok_rows(3) [OF ok x(1)] g(1) by (auto simp: graph_row_ok_def)
  have arr: "arranged (map ?ev ?ns) ?ns out" using events(2) by (simp add: evs Order_Inr_iff)
  note ord = nodes_in_order [OF graph arr]
  let ?sorted = "sort_by (\<lambda>a b. node_index a < node_index b) ?ns"
  have "List.map_filter (\<lambda>(k, index). map_option (\<lambda>q. (index, pe_payload q)) (table_get (db_events d) k))
      (map (\<lambda>n. (node_event n, node_index n)) ?ns)
    = List.map_filter (\<lambda>n. map_option (\<lambda>q. (node_index n, pe_payload q)) (table_get (db_events d) (node_event n))) ?ns"
    by (simp add: List.map_filter_def filter_map comp_def)
  also have "\<dots> = map (\<lambda>n. (node_index n, pe_payload (?row n))) ?ns"
    by (rule map_filter_total) (use held in fastforce)
  finally have join: "join_events B (pg_payload x) d = Inr (map (\<lambda>n. pe_payload (?row n)) ?sorted)"
    by (simp add: join_events_def nodes sort_by_map comp_def)
  have "decodePayload (bk_event B) (pe_payload (?row n)) = Inr (?ev n)" if "n \<in> set ?ns" for n
    using held [OF that] by (auto simp: decodePayload_Inr_iff)
  then have dec: "map_result (decodePayload (bk_event B)) (map (\<lambda>n. pe_payload (?row n)) ?sorted) = Inr (map ?ev ?sorted)"
    by (simp add: map_result_Inr_iff)
  have out: "map ?ev ?sorted = out" and checks: "\<forall>j<length ?sorted. node_index (?sorted ! j) = int j \<and> node_event (?sorted ! j) = ev_id (out ! j)"
    using ord held by blast+
  have len: "length out = length ?ns" using out by (metis length_map length_sort_by)
  have "\<not> list_ex (\<lambda>(index, e). node_index (?sorted ! index) \<noteq> int index \<or> node_event (?sorted ! index) \<noteq> ev_id e) (enumerate 0 out)"
    using checks len by (auto simp: list_ex_iff in_set_enumerate_eq)
  then have "pg_GetIncidentDetail B v k d = Inr (i, g, out)"
    using row x i g join dec out len quiet
    by (simp add: pg_GetIncidentDetail_def transact_def detail_tx_def find_graph [OF ok x] sql_quiet quiet_simps
        decodePayload_def commit_def Let_def)
  moreover have "rp_incidents (abs_db B d) k = Some i" "rp_graphs (abs_db B d) (inc_graph i) = Some g"
    using row i(1) x(1) g(1) by (simp_all add: abs_db_def view_Some_iff)
  ultimately show ?thesis by (rule that [OF _ _ _ inc i(2) events])
qed

lemma detail_missing:
  assumes "quiet v" and "table_get (db_incidents d) k = None"
  shows "pg_GetIncidentDetail B v k d = Inl ErrNotFound"
  using assms by (simp add: pg_GetIncidentDetail_def transact_def detail_tx_def sql_quiet quiet_simps)

text \<open>Both repositories answer the same detail.\<close>

lemma detail_agrees:
  assumes ok: "db_ok B d" and quiet: "quiet v" and same: "abs_store s = abs_db B d"
  shows "pg_GetIncidentDetail B v k d = GetIncidentDetail False k s"
proof (cases "table_get (db_incidents d) k")
  case None
  then have "table_get (st_incidents s) k = None"
    using arg_cong [OF same, of rp_incidents] by (simp add: abs_store_def abs_db_def view_def fun_eq_iff)
  with detail_missing [OF quiet None] show ?thesis by (simp add: GetIncidentDetail_def)
next
  case (Some r)
  obtain i g out events where
    pg: "pg_GetIncidentDetail B v k d = Inr (i, g, out)" "rp_incidents (abs_store s) k = Some i"
      "rp_graphs (abs_store s) (inc_graph i) = Some g" "graph_incident g = inc_id i" "inc_id i = k"
    and events: "map (\<lambda>n. rp_events (abs_store s) (node_event n)) (graph_nodes g) = map Some events" "Order events g = Inr out"
    using detail_served [OF ok quiet Some] unfolding same .
  have "map (\<lambda>n. case table_get (st_events s) (node_event n) of None \<Rightarrow> Inl ErrInternal | Some e \<Rightarrow> Inr e) (graph_nodes g)
      = map (case_option (Inl ErrInternal) Inr) (map (\<lambda>n. rp_events (abs_store s) (node_event n)) (graph_nodes g))"
    by (simp add: abs_store_def)
  also have "\<dots> = map Inr events" unfolding events(1) by simp
  finally have "map_result (\<lambda>n. case table_get (st_events s) (node_event n) of None \<Rightarrow> Inl ErrInternal | Some e \<Rightarrow> Inr e)
      (graph_nodes g) = Inr events"
    unfolding map_result_Inr_iff .
  with pg events(2) show ?thesis by (simp add: GetIncidentDetail_def abs_store_def)
qed

section \<open>Single records\<close>

lemma getJSON_view:
  assumes "quiet v" and "\<And>r. table_get t k = Some r \<Longrightarrow> \<exists>x. of_json c (pay r) = Some x"
  shows "getJSON v n c (map_option pay (table_get t k))
    = (case view c pay t k of None \<Rightarrow> Inl ErrNotFound | Some x \<Rightarrow> Inr x)"
  using assms by (cases "table_get t k") (auto simp: getJSON_def sql_quiet view_def decodePayload_def)

lemma lookups_agree:
  assumes ok: "db_ok B d" and quiet: "quiet v" and same: "abs_store s = abs_db B d"
  shows "pg_GetRun B v k d = GetRun False k s" "pg_GetCapsule B v k d = GetCapsule False k s"
    "pg_GetDiff B v k d = GetDiff False k s"
proof -
  note parts = arg_cong [OF same, of rp_runs] arg_cong [OF same, of rp_capsules] arg_cong [OF same, of rp_diffs]
  have rows: "\<exists>x. of_json (bk_run B) (pr_payload r) = Some x" if "table_get (db_runs d) k = Some r" for r
    using db_ok_rows(5) [OF ok that] by (auto simp: run_row_ok_def)
  show "pg_GetRun B v k d = GetRun False k s"
    using getJSON_view [OF quiet rows] fun_cong [OF parts(1), of k]
    by (simp add: pg_GetRun_def select_run_def GetRun_def lookup_row_def abs_store_def abs_db_def)
  have rows: "\<exists>x. of_json (bk_capsule B) (pc_payload r) = Some x" if "table_get (db_capsules d) k = Some r" for r
    using db_ok_rows(4) [OF ok that] by (auto simp: capsule_row_ok_def)
  show "pg_GetCapsule B v k d = GetCapsule False k s"
    using getJSON_view [OF quiet rows] fun_cong [OF parts(2), of k]
    by (simp add: pg_GetCapsule_def GetCapsule_def lookup_row_def abs_store_def abs_db_def)
  have rows: "\<exists>x. of_json (bk_diff B) (pd_payload r) = Some x" if "table_get (db_diffs d) k = Some r" for r
    using db_ok_rows(6) [OF ok that] by (auto simp: diff_row_ok_def)
  show "pg_GetDiff B v k d = GetDiff False k s"
    using getJSON_view [OF quiet rows] fun_cong [OF parts(3), of k]
    by (simp add: pg_GetDiff_def GetDiff_def lookup_row_def abs_store_def abs_db_def)
qed

section \<open>Lists\<close>

lemma scan_quiet:
  assumes "quiet v" and "\<And>j. j \<in> set raws \<Longrightarrow> of_json c j = Some (dec j)"
  shows "scan_rows v n c raws = Inr (map dec raws)"
proof -
  have "map_result (decodePayload c) raws = Inr (map dec raws)"
    using assms(2) by (simp add: map_result_Inr_iff decodePayload_def)
  with assms(1) show ?thesis by (simp add: scan_rows_def quiet_simps)
qed

text \<open>A table that shows the records of another has the same rows, up to their order.\<close>

lemma view_rows:
  assumes "table_ok t" "table_ok u" and same: "table_get u = view c pay t"
    and dec: "\<And>k r. table_get t k = Some r \<Longrightarrow> of_json c (pay r) = Some (dec r)"
  shows "mset (map (dec \<circ> snd) t) = mset (table_rows u)"
proof -
  let ?t = "map (\<lambda>p. (fst p, dec (snd p))) t"
  have dist: "distinct (map fst ?t)" "distinct (map fst u)" using assms(1,2) by (simp_all add: table_ok_def comp_def)
  have "map_of ?t k = map_option dec (map_of t k)" for k by (induction t) auto
  then have "map_of ?t k = view c pay t k" for k
    using dec [of k] by (cases "map_of t k") (simp_all add: view_def table_get_def)
  then have "map_of ?t = map_of u" using same by (simp add: fun_eq_iff table_get_def)
  then have "set ?t = set u" using dist by (simp add: map_of_inject_set)
  then have "mset ?t = mset u" using dist by (metis distinct_map set_eq_iff_mset_eq_distinct)
  then have "mset (map snd ?t) = mset (map snd u)" by (metis mset_map)
  then show ?thesis by (simp add: table_rows_def comp_def)
qed

definition run_of :: "'j backend \<Rightarrow> 'j pg_run \<Rightarrow> replay_run" where
  "run_of B x = the (of_json (bk_run B) (pr_payload x))"

definition event_of :: "'j backend \<Rightarrow> 'j pg_event \<Rightarrow> execution_event" where
  "event_of B x = the (of_json (bk_event B) (pe_payload x))"

lemma run_of_row:
  assumes "db_ok B d" and "p \<in> set (db_runs d)"
  shows "of_json (bk_run B) (pr_payload (snd p)) = Some (run_of B (snd p))" "run_id (run_of B (snd p)) = fst p"
    "run_status (run_of B (snd p)) = pr_status (snd p)"
proof -
  have "table_get (db_runs d) (fst p) = Some (snd p)"
    using assms by (simp add: db_ok_def tab.all_entries_def table_get_def table_ok_def)
  from db_ok_rows(5) [OF assms(1) this] show "of_json (bk_run B) (pr_payload (snd p)) = Some (run_of B (snd p))"
    "run_id (run_of B (snd p)) = fst p" "run_status (run_of B (snd p)) = pr_status (snd p)"
    by (auto simp: run_row_ok_def run_of_def)
qed

lemma event_of_row:
  assumes "db_ok B d" and "p \<in> set (db_events d)"
  shows "of_json (bk_event B) (pe_payload (snd p)) = Some (event_of B (snd p))" "ev_id (event_of B (snd p)) = fst p"
    "event_validate (event_of B (snd p)) = None" "ev_execution (event_of B (snd p)) = pe_execution (snd p)"
    "nullableString (ev_run (event_of B (snd p))) = pe_run (snd p)" "ev_sequence (event_of B (snd p)) = pe_sequence (snd p)"
    "bk_time B (ev_occurred_at (event_of B (snd p))) = Some (pe_at (snd p))"
proof -
  have "table_get (db_events d) (fst p) = Some (snd p)"
    using assms by (simp add: db_ok_def tab.all_entries_def table_get_def table_ok_def)
  from db_ok_rows(1) [OF assms(1) this] show "of_json (bk_event B) (pe_payload (snd p)) = Some (event_of B (snd p))"
    "ev_id (event_of B (snd p)) = fst p" "event_validate (event_of B (snd p)) = None"
    "ev_execution (event_of B (snd p)) = pe_execution (snd p)"
    "nullableString (ev_run (event_of B (snd p))) = pe_run (snd p)" "ev_sequence (event_of B (snd p)) = pe_sequence (snd p)"
    "bk_time B (ev_occurred_at (event_of B (snd p))) = Some (pe_at (snd p))"
    by (auto simp: event_row_ok_def event_of_def)
qed

lemma run_rows_agree:
  assumes ok: "db_ok B d" "store_ok s" and same: "abs_store s = abs_db B d"
  shows "mset (map (run_of B \<circ> snd) (db_runs d)) = mset (table_rows (st_runs s))"
proof (rule view_rows)
  show "table_ok (db_runs d)" "table_ok (st_runs s)"
    using ok by (simp_all add: db_ok_def store_ok_def tab.all_entries_def)
  show "table_get (st_runs s) = view (bk_run B) pr_payload (db_runs d)"
    using arg_cong [OF same, of rp_runs] by (simp add: abs_store_def abs_db_def)
  show "of_json (bk_run B) (pr_payload r) = Some (run_of B r)" if "table_get (db_runs d) k = Some r" for k r
    using db_ok_rows(5) [OF ok(1) that] by (auto simp: run_row_ok_def run_of_def)
qed

lemma event_rows_agree:
  assumes ok: "db_ok B d" "store_ok s" and same: "abs_store s = abs_db B d"
  shows "mset (map (event_of B \<circ> snd) (db_events d)) = mset (table_rows (st_events s))"
proof (rule view_rows)
  show "table_ok (db_events d)" "table_ok (st_events s)"
    using ok by (simp_all add: db_ok_def store_ok_def tab.all_entries_def)
  show "table_get (st_events s) = view (bk_event B) pe_payload (db_events d)"
    using arg_cong [OF same, of rp_events] by (simp add: abs_store_def abs_db_def)
  show "of_json (bk_event B) (pe_payload r) = Some (event_of B r)" if "table_get (db_events d) k = Some r" for k r
    using db_ok_rows(1) [OF ok(1) that] by (auto simp: event_row_ok_def event_of_def)
qed

interpretation run_order: key_order "\<lambda>a b. run_id a < run_id b" run_id
  by standard simp

lemma ListRuns_agrees:
  assumes ok: "db_ok B d" "store_ok s" and same: "abs_store s = abs_db B d" and quiet: "quiet v"
  obtains rs rs' where "pg_ListRuns B v st d = Inr rs" "ListRuns False st s = Inr rs'" "mset rs = mset rs'"
    "bk_less B = (<) \<Longrightarrow> rs = rs'"
proof -
  let ?f = "run_of B \<circ> snd"
  let ?rows = "filter (\<lambda>p. pr_status (snd p) = st) (db_runs d)"
  let ?sorted = "sort_by (\<lambda>a b. bk_less B (fst a) (fst b)) ?rows"
  have filter: "map ?f ?rows = filter (\<lambda>r. run_status r = st) (map ?f (db_runs d))"
    using run_of_row(3) [OF ok(1)] by (simp add: filter_map comp_def cong: filter_cong)
  have pg: "pg_ListRuns B v st d = Inr (map ?f ?sorted)"
  proof -
    have "scan_rows v 1 (bk_run B) (map (pr_payload \<circ> snd) ?sorted)
        = Inr (map (\<lambda>j. the (of_json (bk_run B) j)) (map (pr_payload \<circ> snd) ?sorted))"
      by (rule scan_quiet [OF quiet]) (use run_of_row(1) [OF ok(1)] in fastforce)
    then show ?thesis by (simp add: pg_ListRuns_def select_runs_def comp_def run_of_def)
  qed
  let ?memory = "sort_by (\<lambda>a b. run_id a < run_id b) (filter (\<lambda>r. run_status r = st) (table_rows (st_runs s)))"
  have mset: "mset (map ?f ?rows) = mset (filter (\<lambda>r. run_status r = st) (table_rows (st_runs s)))"
    unfolding filter using run_rows_agree [OF ok same] by (metis mset_filter)
  have "map ?f ?sorted = ?memory" if "bk_less B = (<)"
  proof -
    have "?sorted = sort_by (\<lambda>a b. run_id (?f a) < run_id (?f b)) ?rows"
      unfolding that by (rule sort_by_cong) (use run_of_row(2) [OF ok(1)] in auto)
    then have "map ?f ?sorted = sort_by (\<lambda>a b. run_id a < run_id b) (map ?f ?rows)" by (simp add: sort_by_map)
    also have "\<dots> = ?memory"
    proof (rule run_order.sort_by_unique [OF mset])
      have "table_ok (db_runs d)" using ok(1) by (simp add: db_ok_def tab.all_entries_def)
      then show "inj_on run_id (set (map ?f ?rows))"
        using run_of_row(2) [OF ok(1)] by (auto simp: inj_on_def table_ok_def dest: eq_key_imp_eq_value)
    qed
    finally show ?thesis .
  qed
  moreover have "mset (map ?f ?sorted) = mset ?memory" using mset by simp
  moreover have "ListRuns False st s = Inr ?memory" by (simp add: ListRuns_def)
  ultimately show ?thesis using that pg by blast
qed

text \<open>The database keeps the instant of every event as the in-memory repository reads it.\<close>

definition exact_times :: "'j backend \<Rightarrow> 'j db \<Rightarrow> bool" where
  "exact_times B d \<longleftrightarrow> (\<forall>p\<in>set (db_events d). pe_at (snd p) = occurred (event_of B (snd p)))"

lemma events_agree:
  assumes ok: "db_ok B d" "store_ok s" and same: "abs_store s = abs_db B d" and quiet: "quiet v"
    and filter: "\<And>p. p \<in> set (db_events d) \<Longrightarrow> P (snd p) = Q (event_of B (snd p))"
  obtains es where "scan_rows v n (bk_event B) (select_events B P d) = Inr es"
    "mset es = mset (stableOrder (filter Q (table_rows (st_events s))))"
    "bk_less B = (<) \<Longrightarrow> exact_times B d \<Longrightarrow> es = stableOrder (filter Q (table_rows (st_events s)))"
proof -
  let ?f = "event_of B \<circ> snd"
  let ?rows = "filter (P \<circ> snd) (db_events d)"
  let ?sorted = "sort_by (pg_event_less B) ?rows"
  have rows: "map ?f ?rows = filter Q (map ?f (db_events d))"
    using filter by (simp add: filter_map comp_def cong: filter_cong)
  have pg: "scan_rows v n (bk_event B) (select_events B P d) = Inr (map ?f ?sorted)"
  proof -
    have "scan_rows v n (bk_event B) (map (pe_payload \<circ> snd) ?sorted)
        = Inr (map (\<lambda>j. the (of_json (bk_event B) j)) (map (pe_payload \<circ> snd) ?sorted))"
      by (rule scan_quiet [OF quiet]) (use event_of_row(1) [OF ok(1)] in fastforce)
    then show ?thesis by (simp add: select_events_def comp_def event_of_def)
  qed
  let ?memory = "stableOrder (filter Q (table_rows (st_events s)))"
  have mset: "mset (map ?f ?rows) = mset (filter Q (table_rows (st_events s)))"
    unfolding rows using event_rows_agree [OF ok same] by (metis mset_filter)
  have "mset (map ?f ?sorted) = mset ?memory" using mset by (simp add: stableOrder_def)
  moreover have "map ?f ?sorted = ?memory" if "bk_less B = (<)" "exact_times B d"
  proof -
    have key: "pg_event_less B a b = (event_key (?f a) < event_key (?f b))"
      if "a \<in> set ?rows" "b \<in> set ?rows" for a b
    proof -
      have "event_key (?f p) = (pe_at (snd p), pe_sequence (snd p), fst p)" if "p \<in> set ?rows" for p
        using that event_of_row(2,6) [OF ok(1), of p] \<open>exact_times B d\<close> by (simp add: event_key_def exact_times_def)
      with that \<open>bk_less B = (<)\<close> show ?thesis by (auto simp: pg_event_less_def less_prod_def)
    qed
    have "?sorted = sort_by (\<lambda>a b. event_key (?f a) < event_key (?f b)) ?rows" by (rule sort_by_cong) (rule key)
    then have "map ?f ?sorted = sort_by (\<lambda>a b. event_key a < event_key b) (map ?f ?rows)" by (simp add: sort_by_map)
    also have "\<dots> = sort_by (\<lambda>a b. event_key a < event_key b) (filter Q (table_rows (st_events s)))"
    proof (rule event_order.sort_by_unique [OF mset])
      have "table_ok (db_events d)" using ok(1) by (simp add: db_ok_def tab.all_entries_def)
      then show "inj_on event_key (set (map ?f ?rows))"
        using event_of_row(2) [OF ok(1)] by (auto simp: inj_on_def event_key_def table_ok_def dest: eq_key_imp_eq_value)
    qed
    also have "\<dots> = ?memory"
      using store_ok_event_row [OF ok(2)] by (intro stableOrder_valid [symmetric]) (auto simp: event_row_def)
    finally show ?thesis .
  qed
  ultimately show ?thesis using that pg by blast
qed

section \<open>Pages\<close>

text \<open>Following the cursors of a listing from one page on.\<close>

fun follow :: "nat \<Rightarrow> (string \<Rightarrow> store_error + 'a list \<times> string) \<Rightarrow> string \<Rightarrow> store_error + 'a list list" where
  "follow 0 page c = Inl ErrInternal"
| "follow (Suc n) page c =
     bind_result (page c) (\<lambda>(items, nxt).
       if nxt = [] then Inr [items] else map_sum id (Cons items) (follow n page nxt))"

lemma follow_concat:
  assumes n: "1 \<le> n"
    and page: "\<And>k c. (k = 0 \<and> c = []) \<or> (0 < k \<and> k - 1 < length xs \<and> c = cur (xs ! (k - 1)))
      \<Longrightarrow> page c = Inr (if n < length (drop k xs) then (map f (take n (drop k xs)), cur (xs ! (k + n - 1)))
                        else (map f (drop k xs), []))"
    and cur: "\<And>x. x \<in> set xs \<Longrightarrow> cur x \<noteq> []"
  shows "(k = 0 \<and> c = []) \<or> (0 < k \<and> k - 1 < length xs \<and> c = cur (xs ! (k - 1))) \<Longrightarrow> length (drop k xs) < fuel
    \<Longrightarrow> \<exists>ps. follow fuel page c = Inr ps \<and> concat ps = map f (drop k xs)"
proof (induction fuel arbitrary: k c)
  case (Suc fuel)
  show ?case
  proof (cases "n < length (drop k xs)")
    case False
    with page [OF Suc.prems(1)] show ?thesis by (simp del: length_drop)
  next
    case True
    let ?j = "k + n - 1"
    have j: "?j < length xs" "0 < k + n" "k + n - 1 = ?j" using True n by auto
    have "\<exists>ps. follow fuel page (cur (xs ! ?j)) = Inr ps \<and> concat ps = map f (drop (k + n) xs)"
      by (rule Suc.IH) (use j Suc.prems(2) True n in auto)
    then obtain ps where ps: "follow fuel page (cur (xs ! ?j)) = Inr ps" "concat ps = map f (drop (k + n) xs)" by blast
    have "map f (take n (drop k xs)) @ map f (drop (k + n) xs) = map f (drop k xs)"
      by (metis add.commute append_take_drop_id drop_drop map_append)
    with page [OF Suc.prems(1)] True ps cur [of "xs ! ?j"] j(1) show ?thesis by (simp del: length_drop)
  qed
qed simp

text \<open>A collation orders any two different texts.\<close>

definition collation :: "(string \<Rightarrow> string \<Rightarrow> bool) \<Rightarrow> bool" where
  "collation lt \<longleftrightarrow> (\<forall>a b. lt a b \<longrightarrow> \<not> lt b a) \<and> (\<forall>a b c. lt a b \<and> lt b c \<longrightarrow> lt a c) \<and> (\<forall>a b. a \<noteq> b \<longrightarrow> lt a b \<or> lt b a)"

definition incident_of :: "'j backend \<Rightarrow> 'j pg_incident \<Rightarrow> incident" where
  "incident_of B r = the (of_json (bk_incident B) (pi_payload r))"

lemma incident_of_row:
  assumes "db_ok B d" and "p \<in> set (db_incidents d)"
  shows "of_json (bk_incident B) (pi_payload (snd p)) = Some (incident_of B (snd p))" "inc_id (incident_of B (snd p)) = fst p"
    "inc_status (incident_of B (snd p)) = pi_status (snd p)"
    "bk_time B (inc_detected_at (incident_of B (snd p))) = Some (pi_detected (snd p))"
    "incident_validate (incident_of B (snd p)) = None"
    "rp_incidents (abs_db B d) (fst p) = Some (incident_of B (snd p))"
proof -
  have get: "table_get (db_incidents d) (fst p) = Some (snd p)"
    using assms by (simp add: db_ok_def tab.all_entries_def table_get_def table_ok_def)
  from db_ok_rows(2) [OF assms(1) this] show *: "of_json (bk_incident B) (pi_payload (snd p)) = Some (incident_of B (snd p))"
    "inc_id (incident_of B (snd p)) = fst p" "inc_status (incident_of B (snd p)) = pi_status (snd p)"
    "bk_time B (inc_detected_at (incident_of B (snd p))) = Some (pi_detected (snd p))"
    "incident_validate (incident_of B (snd p)) = None"
    by (auto simp: incident_row_ok_def incident_of_def)
  show "rp_incidents (abs_db B d) (fst p) = Some (incident_of B (snd p))"
    using get *(1) by (simp add: abs_db_def view_Some_iff)
qed

definition row_after :: "'j backend \<Rightarrow> string \<times> 'j pg_incident \<Rightarrow> string \<times> 'j pg_incident \<Rightarrow> bool" where
  "row_after B a b \<longleftrightarrow> pg_before B (incident_position b) (incident_position a)"

lemma collation_step: "collation lt \<Longrightarrow> lt x z \<Longrightarrow> lt x y \<or> lt y z"
  unfolding collation_def by metis

lemma row_after_weak:
  assumes "collation (bk_less B)"
  shows "weak_order (row_after B)"
proof (rule weak_order.intro)
  have asym: "\<not> bk_less B y x" if "bk_less B x y" for x y using assms that unfolding collation_def by blast
  show "\<not> row_after B b a" if "row_after B a b" for a b
    using that asym by (auto simp: row_after_def pg_before_def)
  show "row_after B a b \<or> row_after B b c" if "row_after B a c" for a b c
    using that collation_step [OF assms, of "snd (incident_position c)" "snd (incident_position a)" "snd (incident_position b)"]
    by (auto simp: row_after_def pg_before_def)
qed

lemma distinct_map_sort_by: "distinct (map f (sort_by lt xs)) = distinct (map f xs)"
proof -
  have "mset (map f (sort_by lt xs)) = mset (map f xs)" by simp
  then show ?thesis by (rule mset_eq_imp_distinct_iff)
qed

lemma select_rows_strict:
  assumes "collation (bk_less B)" and "db_ok B d"
  shows "sorted_wrt (row_after B) (select_incident_rows B st c d)"
proof -
  let ?rows = "select_incident_rows B st c d"
  have "distinct (map fst (db_incidents d))" using assms(2) by (simp add: db_ok_def tab.all_entries_def table_ok_def)
  then have "distinct (map fst ?rows)"
    unfolding select_incident_rows_def distinct_map_sort_by by (rule distinct_map_filter)
  then have "sorted_wrt (\<lambda>a b. fst a \<noteq> fst b) ?rows"
    by (auto simp: sorted_wrt_iff_nth_less distinct_conv_nth)
  moreover have "sorted_wrt (\<lambda>a b. \<not> row_after B b a) ?rows"
    using weak_order.ordered_sort [OF row_after_weak [OF assms(1)]]
    by (simp add: select_incident_rows_def weak_order.ordered_def [OF row_after_weak [OF assms(1)]] flip: row_after_def)
  moreover have total: "bk_less B x y \<or> bk_less B y x" if "x \<noteq> y" for x y
    using that assms(1) unfolding collation_def by blast
  have "row_after B a b" if "fst a \<noteq> fst b" "\<not> row_after B b a" for a b
    using that(2) total [OF that(1)] by (auto simp: row_after_def pg_before_def incident_position_def)
  ultimately show ?thesis by (auto simp: sorted_wrt_iff_nth_less)
qed

lemma select_rows_after:
  assumes coll: "collation (bk_less B)" and ok: "db_ok B d" and j: "j < length (select_incident_rows B st None d)"
    and micros: "bk_micros B (pi_detected (snd (select_incident_rows B st None d ! j))) = pi_detected (snd (select_incident_rows B st None d ! j))"
  shows "select_incident_rows B st (Some (incident_position (select_incident_rows B st None d ! j))) d
    = drop (Suc j) (select_incident_rows B st None d)"
proof -
  let ?rows = "select_incident_rows B st None d"
  let ?p = "?rows ! j"
  note weak = row_after_weak [OF coll]
  have "select_incident_rows B st (Some (incident_position ?p)) d
      = sort_by (row_after B) (filter (row_after B ?p) (filter (\<lambda>r. st = UnknownIncidentStatus [] \<or> pi_status (snd r) = st) (db_incidents d)))"
    using micros by (simp add: select_incident_rows_def [of B st "Some _"] incident_position_def row_after_def [abs_def] conj_commute)
  also have "\<dots> = filter (row_after B ?p) ?rows"
    by (simp add: filter_sort_by [OF weak, symmetric] select_incident_rows_def flip: row_after_def)
  also have "\<dots> = drop (Suc j) ?rows"
    by (rule drop_strict [OF select_rows_strict [OF coll ok] j weak_order.asym [OF weak]])
  finally show ?thesis .
qed

text \<open>The cursor codec reads back the position of every stored incident; none is at the zero time, and a time that
  the database returned is in whole microseconds.\<close>

definition cursors_ok :: "(cursor \<Rightarrow> string) \<Rightarrow> (string \<Rightarrow> cursor option) \<Rightarrow> 'j backend \<Rightarrow> 'j db \<Rightarrow> bool" where
  "cursors_ok m u B d \<longleftrightarrow> (\<forall>p\<in>set (db_incidents d).
     u (m (incident_position p)) = Some (incident_position p) \<and> m (incident_position p) \<noteq> []
     \<and> \<not> is_zero (pi_detected (snd p)) \<and> bk_micros B (pi_detected (snd p)) = pi_detected (snd p))"

lemma pg_page:
  assumes ok: "db_ok B d" and quiet: "quiet v" and coll: "collation (bk_less B)" and curs: "cursors_ok m u B d"
    and limit: "1 \<le> query_limit q" "query_limit q \<le> 100"
  defines "xs \<equiv> select_incident_rows B (iq_status q) None d"
  assumes at: "(k = 0 \<and> c = []) \<or> (0 < k \<and> k - 1 < length xs \<and> c = m (incident_position (xs ! (k - 1))))"
  shows "pg_ListIncidents m u B v (q\<lparr>iq_cursor := c\<rparr>) d =
    Inr (if nat (query_limit q) < length (drop k xs)
         then (map (incident_of B \<circ> snd) (take (nat (query_limit q)) (drop k xs)),
               m (incident_position (xs ! (k + nat (query_limit q) - 1))))
         else (map (incident_of B \<circ> snd) (drop k xs), []))"
proof -
  let ?n = "nat (query_limit q)"
  have sub: "set xs \<subseteq> set (db_incidents d)" by (auto simp: xs_def select_incident_rows_def)
  have sel: "\<exists>cu. (if c = [] then Inr None else map_sum id Some (decodeCursor u c)) = Inr cu
      \<and> select_incident_rows B (iq_status q) cu d = drop k xs"
    using at
  proof (elim disjE conjE)
    assume k: "0 < k" "k - 1 < length xs" "c = m (incident_position (xs ! (k - 1)))"
    let ?p = "xs ! (k - 1)"
    have p: "?p \<in> set (db_incidents d)" using k(2) sub by auto
    have "fst ?p \<noteq> []"
      using incident_of_row(2,5) [OF ok p] by (auto simp: incident_validate_def split: if_splits)
    then have "decodeCursor u c = Inr (incident_position ?p)" "c \<noteq> []"
      using curs p k(3) by (auto simp: cursors_ok_def decodeCursor_def incident_position_def)
    moreover have "bk_micros B (pi_detected (snd ?p)) = pi_detected (snd ?p)" using curs p by (simp add: cursors_ok_def)
    ultimately show ?thesis
      using select_rows_after [OF coll ok k(2) [unfolded xs_def]] k(1) by (simp add: xs_def)
  qed (simp add: xs_def)
  then obtain cu where cu: "(if c = [] then Inr None else map_sum id Some (decodeCursor u c)) = Inr cu"
      "select_incident_rows B (iq_status q) cu d = drop k xs" by blast
  let ?rows = "take (nat (query_limit q + 1)) (drop k xs)"
  have "set ?rows \<subseteq> set (db_incidents d)" using sub by (meson set_take_subset set_drop_subset subset_trans)
  then have "of_json (bk_incident B) j = Some (the (of_json (bk_incident B) j))" if "j \<in> set (map (pi_payload \<circ> snd) ?rows)" for j
    using that incident_of_row(1) [OF ok] by (auto simp del: set_take_subset)
  then have "scan_rows v 1 (bk_incident B) (map (pi_payload \<circ> snd) ?rows)
      = Inr (map (\<lambda>j. the (of_json (bk_incident B) j)) (map (pi_payload \<circ> snd) ?rows))"
    by (rule scan_quiet [OF quiet])
  then have scan: "scan_rows v 1 (bk_incident B) (map (pi_payload \<circ> snd) ?rows) = Inr (map (incident_of B \<circ> snd) ?rows)"
    by (simp add: comp_def incident_of_def)
  have suc: "nat (query_limit q + 1) = Suc ?n" using limit by simp
  have lim: "(case iq_limit q of None \<Rightarrow> 20 | Some n \<Rightarrow> n) = query_limit q" by (simp add: query_limit_def)
  have fields: "iq_limit (q\<lparr>iq_cursor := c\<rparr>) = iq_limit q" "iq_status (q\<lparr>iq_cursor := c\<rparr>) = iq_status q"
      "iq_cursor (q\<lparr>iq_cursor := c\<rparr>) = c" by simp_all
  have "(query_limit q < 1 \<or> 100 < query_limit q) = False" using limit by simp
  then have run: "pg_ListIncidents m u B v (q\<lparr>iq_cursor := c\<rparr>) d =
      (if query_limit q < int (length (map (incident_of B \<circ> snd) ?rows))
       then Inr (take ?n (map (incident_of B \<circ> snd) ?rows), m (incident_position (?rows ! nat (query_limit q - 1))))
       else Inr (map (incident_of B \<circ> snd) ?rows, []))"
    by (simp only: pg_ListIncidents_def fields lim Let_def cu bind_result_simps scan if_False)
  show ?thesis
  proof (cases "?n < length (drop k xs)")
    case True
    have "query_limit q < int (length ?rows)" using True limit suc by auto
    moreover have "?rows ! nat (query_limit q - 1) = xs ! (k + ?n - 1)"
      using True limit suc by (simp add: nth_drop nat_diff_distrib)
    moreover have "take ?n ?rows = take ?n (drop k xs)" by (simp add: suc min_def)
    ultimately show ?thesis using True by (simp only: run take_map length_map if_True)
  next
    case False
    then have "?rows = drop k xs" "\<not> query_limit q < int (length (drop k xs))" using limit suc by auto
    with False show ?thesis by (simp only: run length_map if_False)
  qed
qed

lemma pg_pages:
  assumes ok: "db_ok B d" and quiet: "quiet v" and coll: "collation (bk_less B)" and curs: "cursors_ok m u B d"
    and limit: "1 \<le> query_limit q" "query_limit q \<le> 100" and fuel: "length (db_incidents d) < fuel"
  shows "\<exists>ps. follow fuel (\<lambda>c. pg_ListIncidents m u B v (q\<lparr>iq_cursor := c\<rparr>) d) [] = Inr ps
    \<and> concat ps = map (incident_of B \<circ> snd) (select_incident_rows B (iq_status q) None d)"
proof -
  let ?xs = "select_incident_rows B (iq_status q) None d"
  have n: "1 \<le> nat (query_limit q)" using limit by simp
  have cur: "m (incident_position x) \<noteq> []" if "x \<in> set ?xs" for x
    using that curs by (auto simp: cursors_ok_def select_incident_rows_def)
  have "length (drop 0 ?xs) < fuel" using fuel by (simp add: select_incident_rows_def le_less_trans [OF length_filter_le])
  with follow_concat [where xs = ?xs and cur = "\<lambda>x. m (incident_position x)" and f = "incident_of B \<circ> snd" and k = 0 and c = "[]",
      OF n pg_page [OF ok quiet coll curs limit] cur] show ?thesis by simp
qed

end
