(* ===== verification/PostgresWrites.thy ===== *)
theory PostgresWrites
  imports PostgresReads
begin

text \<open>
  Writing to the Postgres repository: what a valid record leaves in its table when nothing fails, what an error leaves,
  and sequences of operations.
\<close>

section \<open>What is stored when nothing fails\<close>

lemma transact_quiet: "quiet v \<Longrightarrow> body d = Inr (a, d') \<Longrightarrow> transact v body d = (Inr a, d')"
  by (simp add: transact_def commit_def quiet_simps)

lemma autocommit_quiet: "quiet v \<Longrightarrow> autocommit v (Inr (a, d')) d = (Inr a, d')"
  by (simp add: autocommit_def commit_def sql_quiet quiet_simps)

text \<open>The JSON of a record is an object that names the record.\<close>

definition names_record :: "'j backend \<Rightarrow> 'j \<Rightarrow> string \<Rightarrow> string \<Rightarrow> bool" where
  "names_record B p f k \<longleftrightarrow> bk_object B p \<and> names B p f k"

lemma accept_event:
  assumes "quiet v" "event_validate e = None" "to_json (bk_event B) e = Some p" "bk_time B (ev_occurred_at e) = Some at"
    and "names_record B p ''event_id'' (ev_id e)" "table_get (db_events d) (ev_id e) = None"
  shows "pg_IngestEvent B v e d = (Inr (), d\<lparr>db_events := table_put (ev_id e)
    \<lparr>pe_execution = ev_execution e, pe_trace = ev_trace e, pe_run = nullableString (ev_run e), pe_payload = p,
      pe_at = at, pe_sequence = ev_sequence e\<rparr> (db_events d)\<rparr>)"
proof -
  have "ev_id e \<noteq> []" "ev_execution e \<noteq> []" "ev_trace e \<noteq> []" "0 \<le> ev_sequence e"
    using assms(2) by (simp_all add: event_validate_None_iff)
  with assms(3-6) have "insert_event B e p d = Inr ((), d\<lparr>db_events := table_put (ev_id e)
    \<lparr>pe_execution = ev_execution e, pe_trace = ev_trace e, pe_run = nullableString (ev_run e), pe_payload = p,
      pe_at = at, pe_sequence = ev_sequence e\<rparr> (db_events d)\<rparr>)"
    by (simp add: insert_event_def insert_row_def names_record_def)
  with assms(1-3) show ?thesis
    by (simp add: pg_IngestEvent_def payload_def transact_quiet sql_quiet)
qed

lemma incident_columns:
  "incident_validate i = None \<Longrightarrow> inc_id i \<noteq> [] \<and> inc_status i \<in> {IncidentDetected, IncidentReady, IncidentBlocked}"
  by (cases "inc_status i") (auto simp: incident_validate_def split: if_splits option.splits)

lemma accept_incident:
  assumes quiet: "quiet v" and valid: "incident_validate i = None" "graph_validate g = None" "graph_incident g = inc_id i"
      "inc_graph i = graph_id g"
    and json: "to_json (bk_incident B) i = Some p" "to_json (bk_graph B) g = Some gp" "bk_time B (inc_detected_at i) = Some at"
      "names_record B p ''incident_id'' (inc_id i)" "names_record B gp ''graph_id'' (graph_id g)"
      "names B gp ''incident_id'' (inc_id i)"
    and ev: "map (\<lambda>n. rp_events (abs_db B d) (node_event n)) (graph_nodes g) = map Some events"
      "\<forall>e\<in>set events. ev_execution e = inc_execution i \<and> ev_trace e = inc_trace i"
      "set (inc_evidence i) \<subseteq> set (node_ids (graph_nodes g))" "Order events g = Inr out"
    and new: "table_get (db_incidents d) (inc_id i) = None" "table_get (db_graphs d) (graph_id g) = None"
      "\<forall>r\<in>set (table_rows (db_graphs d)). pg_incident r \<noteq> inc_id i"
  shows "pg_PutIncident B v i g d = (Inr (), d\<lparr>
      db_incidents := table_put (inc_id i) \<lparr>pi_status = inc_status i, pi_detected = at, pi_payload = p\<rparr> (db_incidents d),
      db_graphs := table_put (graph_id g) \<lparr>pg_incident = inc_id i, pg_payload = gp\<rparr> (db_graphs d)\<rparr>)"
proof -
  have load: "map_result (load_node B v i d) (enumerate n nodes) = Inr es"
    if "map (\<lambda>n. rp_events (abs_db B d) (node_event n)) nodes = map Some es"
      "\<forall>e\<in>set es. ev_execution e = inc_execution i \<and> ev_trace e = inc_trace i" for n nodes es
    using that
  proof (induction nodes arbitrary: n es)
    case (Cons x nodes)
    then obtain e es' where es: "es = e # es'" "rp_events (abs_db B d) (node_event x) = Some e"
        "map (\<lambda>n. rp_events (abs_db B d) (node_event n)) nodes = map Some es'" by auto
    from es(2) have "load_node B v i d (n, x) = Inr e"
      using Cons.prems(2) quiet_simps(1) [OF quiet] by (auto simp: es(1) load_node_Inr_iff abs_db_def view_Some_iff)
    with Cons.IH [OF es(3)] Cons.prems(2) show ?case by (simp add: es(1))
  qed simp
  have gid: "graph_id g \<noteq> []" using valid(2) by (simp add: graph_validate_None_iff)
  have "\<not> list_ex (\<lambda>k. k \<notin> set (node_ids (graph_nodes g))) (inc_evidence i)"
    using ev(3) by (auto simp: list_ex_iff)
  then have "put_incident_tx B v i g p gp d = Inr ((), d\<lparr>
      db_incidents := table_put (inc_id i) \<lparr>pi_status = inc_status i, pi_detected = at, pi_payload = p\<rparr> (db_incidents d),
      db_graphs := table_put (graph_id g) \<lparr>pg_incident = inc_id i, pg_payload = gp\<rparr> (db_graphs d)\<rparr>)"
    using load [OF ev(1,2)] ev(4) json new incident_columns [OF valid(1)] gid
    by (simp add: put_incident_tx_def sql_quiet [OF quiet] insert_incident_def insert_graph_def insert_row_def
        names_record_def list_all_iff)
  then show ?thesis
    using valid json(1,2) by (simp add: pg_PutIncident_def payload_def transact_quiet [OF quiet])
qed

lemma accept_capsule:
  assumes "quiet v" "capsule_validate c = None" "to_json (bk_capsule B) c = Some p" "bk_time B (cap_created_at c) = Some at"
    and "names_record B p ''capsule_id'' (cap_id c)" "table_get (db_capsules d) (cap_id c) = None"
    and "table_get (db_incidents d) (src_incident (cap_source c)) \<noteq> None"
  shows "pg_PutCapsule B v c d = (Inr (), d\<lparr>db_capsules := table_put (cap_id c)
    \<lparr>pc_incident = src_incident (cap_source c), pc_created = at, pc_payload = p\<rparr> (db_capsules d)\<rparr>)"
proof -
  have "cap_id c \<noteq> []" using assms(2) by (auto simp: capsule_validate_def split: if_splits)
  with assms(3-7) have "insert_capsule B c p d = Inr ((), d\<lparr>db_capsules := table_put (cap_id c)
    \<lparr>pc_incident = src_incident (cap_source c), pc_created = at, pc_payload = p\<rparr> (db_capsules d)\<rparr>)"
    by (auto simp: insert_capsule_def insert_row_def names_record_def)
  with assms(1-3) show ?thesis by (simp add: pg_PutCapsule_def payload_def autocommit_quiet)
qed

text \<open>A valid run satisfies the checks of its row.\<close>

lemma valid_run_columns:
  assumes "run_validate r = None" and "names_record B p ''run_id'' (run_id r)" "names B p ''capsule_id'' (run_capsule r)"
  shows "run_row_checks B (run_id r) (new_run_row r p)"
proof -
  have status: "run_id r \<noteq> []" "validRunStatus (run_status r)"
    using assms(1) by (simp_all add: run_validate_None_iff run_header_check_def split: if_splits)
  have out: "run_status r = ReplayRunCompleted \<longleftrightarrow> run_outcome r \<noteq> NoOutcome"
    using assms(1) by (auto simp: run_validate_None_iff run_result_check_def split: if_splits)
  moreover have "run_outcome r \<in> {ReplayOutcomeReproduced, ReplayOutcomeNotReproduced, ReplayOutcomeMitigated,
      ReplayOutcomeUnchanged, ReplayOutcomeInconclusive}" if "run_status r = ReplayRunCompleted"
    using assms(1) that
    by (rule_tac run_kind_cases [OF assms(1)])
      (auto simp: run_validate_None_iff run_result_check_def run_outcome_oracle_check_def split: if_splits option.splits)
  ultimately show ?thesis
    using assms(2,3) status by (auto simp: run_row_checks_def new_run_row_def nullableOutcome_def names_record_def)
qed

lemma accept_run:
  assumes quiet: "quiet v" and valid: "run_validate r = None" and json: "to_json (bk_run B) r = Some p"
      "names_record B p ''run_id'' (run_id r)" "names B p ''capsule_id'' (run_capsule r)"
    and new: "table_get (db_runs d) (run_id r) = None" "table_get (db_capsules d) (run_capsule r) \<noteq> None"
      "baseline_known (abs_db B d) r"
  shows "pg_PutRun B v r d = (Inr (), d\<lparr>db_runs := table_put (run_id r) (new_run_row r p) (db_runs d)\<rparr>)"
proof -
  have ins: "insert_run B r p d = Inr ((), d\<lparr>db_runs := table_put (run_id r) (new_run_row r p) (db_runs d)\<rparr>)"
    using valid_run_columns [OF valid json(2,3)] new by (simp add: insert_run_Inr_iff)
  show ?thesis
  proof (cases "run_kind r = RunTypeBaseline")
    case True
    with valid json(1) ins quiet show ?thesis by (simp add: pg_PutRun_def payload_def autocommit_quiet)
  next
    case False
    with valid have "run_kind r = RunTypeWhatIf" by (rule_tac run_kind_cases [OF valid]) auto
    with new(3) obtain b where b: "rp_runs (abs_db B d) (run_baseline r) = Some b" "eligible_baseline b r"
      by (auto simp: baseline_known_def)
    then have "select_run B v 1 (run_baseline r) d = Inr b"
      using quiet by (auto simp: select_run_Inr_iff quiet_simps abs_db_def view_Some_iff)
    with b(2) ins have "put_run_tx B v r p d = Inr ((), d\<lparr>db_runs := table_put (run_id r) (new_run_row r p) (db_runs d)\<rparr>)"
      by (simp add: put_run_tx_def sql_quiet [OF quiet])
    with False valid json(1) show ?thesis by (simp add: pg_PutRun_def payload_def transact_quiet [OF quiet])
  qed
qed

lemma accept_diff:
  assumes quiet: "quiet v" and valid: "diff_validate x = None" and json: "to_json (bk_diff B) x = Some p"
      "names_record B p ''diff_id'' (diff_id x)"
    and runs: "rp_runs (abs_db B d) (diff_baseline x) = Some b" "rp_runs (abs_db B d) (diff_comparison x) = Some c"
      "comparable b c x"
    and new: "table_get (db_diffs d) (diff_id x) = None"
      "\<forall>r\<in>set (table_rows (db_diffs d)). pd_baseline r \<noteq> diff_baseline x \<or> pd_comparison r \<noteq> diff_comparison x"
  shows "pg_PutDiff B v x d = (Inr (), d\<lparr>db_diffs := table_put (diff_id x)
    \<lparr>pd_baseline = diff_baseline x, pd_comparison = diff_comparison x, pd_payload = p\<rparr> (db_diffs d)\<rparr>)"
proof -
  have ids: "diff_id x \<noteq> []" "diff_baseline x \<noteq> diff_comparison x"
    using valid by (auto simp: diff_validate_def split: if_splits)
  have sel: "select_run B v 1 (diff_baseline x) d = Inr b" "select_run B v 2 (diff_comparison x) d = Inr c"
    using runs quiet by (auto simp: select_run_Inr_iff quiet_simps abs_db_def view_Some_iff)
  have refs: "table_get (db_runs d) (diff_baseline x) \<noteq> None" "table_get (db_runs d) (diff_comparison x) \<noteq> None"
    using runs by (auto simp: abs_db_def view_Some_iff)
  have "put_diff_tx B v x p d = Inr ((), d\<lparr>db_diffs := table_put (diff_id x)
    \<lparr>pd_baseline = diff_baseline x, pd_comparison = diff_comparison x, pd_payload = p\<rparr> (db_diffs d)\<rparr>)"
    using sel runs(3) json(2) ids refs new
    by (auto simp: put_diff_tx_def insert_diff_def insert_row_def sql_quiet [OF quiet] names_record_def list_all_iff)
  with valid json(1) show ?thesis by (simp add: pg_PutDiff_def payload_def transact_quiet [OF quiet])
qed

section \<open>Several operations\<close>

definition pg_apply_all :: "'j backend \<Rightarrow> (pg_op \<times> db_env) list \<Rightarrow> 'j db \<Rightarrow> 'j db" where
  "pg_apply_all B ops d = fold (\<lambda>(op, v) d. pg_apply B v op d) ops d"

lemma pg_apply_all_simps [simp]:
  "pg_apply_all B [] d = d" "pg_apply_all B ((op, v) # ops) d = pg_apply_all B ops (pg_apply B v op d)"
  by (simp_all add: pg_apply_all_def)

lemma pg_reachable_all:
  "pg_reachable B d \<Longrightarrow> \<forall>p\<in>set ops. reads_op B (fst p) \<Longrightarrow> pg_reachable B (pg_apply_all B ops d)"
proof (induction ops arbitrary: d)
  case (Cons p ops)
  then show ?case by (cases p) (simp add: pg_reachable.after)
qed simp

lemma db_extends_trans: "db_extends B a b \<Longrightarrow> db_extends B b c \<Longrightarrow> db_extends B a c"
  unfolding db_extends_def by (meson map_le_trans sub_table_trans run_later_trans)

lemma all_extends:
  "db_ok B d \<Longrightarrow> reads_claimed B \<Longrightarrow> \<forall>p\<in>set ops. reads_op B (fst p) \<and> fst p \<noteq> PgReset
    \<Longrightarrow> db_extends B d (pg_apply_all B ops d) \<and> db_ok B (pg_apply_all B ops d)"
proof (induction ops arbitrary: d)
  case (Cons p ops)
  obtain op v where p: "p = (op, v)" by (cases p)
  with Cons.prems have "db_step B d (pg_apply B v op d)"
    using apply_step [of B d op v] by auto
  then have step: "db_extends B d (pg_apply B v op d)" "db_ok B (pg_apply B v op d)" by (simp_all add: db_step_def)
  from Cons.IH [OF step(2) Cons.prems(2)] Cons.prems(3) step(1) show ?case
    by (auto simp: p intro: db_extends_trans)
qed simp

lemma transact_Inr: "transact v body d = (Inr a, d') \<Longrightarrow> body d = Inr (a, d')"
  by (cases "de_commit v") (auto simp: transact_def commit_def split: if_splits sum.splits)

lemma claim_reads_created:
  assumes "pg_ClaimRun B v k l d = (Inr r, d')"
  obtains r0 where "rp_runs (abs_db B d) k = Some r0" "run_status r0 = ReplayRunCreated"
    "r = r0\<lparr>run_status := ReplayRunValidating\<rparr>"
proof -
  have "claim_tx B v k l d = Inr (r, d')" using assms by (simp add: pg_ClaimRun_def transact_Inr)
  then show ?thesis
    using that abs_run by (fastforce simp: claim_tx_def Let_def bind_result_Inr_iff select_run_Inr_iff split: if_splits)
qed

lemma claim_writes_validating:
  assumes ok: "db_ok B d" and reads: "reads_claimed B" and claim: "pg_ClaimRun B v k l d = (Inr r, d')"
  shows "rp_runs (abs_db B d') k = Some r \<and> run_status r = ReplayRunValidating"
proof -
  from claim have "claim_tx B v k l d = Inr (r, d')" by (simp add: pg_ClaimRun_def transact_Inr)
  then obtain r0 x p until where r: "r = r0\<lparr>run_status := ReplayRunValidating\<rparr>" "table_get (db_runs d) k = Some x"
      "of_json (bk_run B) (pr_payload x) = Some r0" "to_json (bk_run B) r = Some p"
      "d' = d\<lparr>db_runs := table_put k (x\<lparr>pr_status := ReplayRunValidating, pr_payload := p, pr_lease := until\<rparr>) (db_runs d)\<rparr>"
    by (auto simp: claim_tx_def Let_def bind_result_Inr_iff select_run_Inr_iff sql_Inr_iff payload_Inr_iff
        split: if_splits)
  then have "of_json (bk_run B) p = Some r" using reads by (auto simp: reads_claimed_def)
  with r show ?thesis by (auto simp: abs_db_def view_Some_iff)
qed

section \<open>Errors\<close>

fun error_of :: "store_error + 'a \<Rightarrow> store_error option" where
  "error_of (Inl e) = Some e"
| "error_of (Inr a) = None"

fun pg_answer :: "'j backend \<Rightarrow> db_env \<Rightarrow> pg_op \<Rightarrow> 'j db \<Rightarrow> store_error option" where
  "pg_answer B v (PgIngest e) d = error_of (fst (pg_IngestEvent B v e d))"
| "pg_answer B v (PgPutIncident i g) d = error_of (fst (pg_PutIncident B v i g d))"
| "pg_answer B v (PgPutCapsule c) d = error_of (fst (pg_PutCapsule B v c d))"
| "pg_answer B v (PgPutRun r) d = error_of (fst (pg_PutRun B v r d))"
| "pg_answer B v (PgTransition st r) d = error_of (fst (pg_TransitionRun B v st r d))"
| "pg_answer B v (PgClaim k l) d = error_of (fst (pg_ClaimRun B v k l d))"
| "pg_answer B v (PgRenew k l) d = error_of (fst (pg_RenewLease B v k l d))"
| "pg_answer B v (PgPutDiff x) d = error_of (fst (pg_PutDiff B v x d))"
| "pg_answer B v PgReset d = error_of (fst (pg_Reset v d))"

lemma transact_error:
  "fst (transact v body d) = Inl e \<Longrightarrow> de_commit v \<noteq> CommitUnknown \<Longrightarrow> snd (transact v body d) = d"
  by (cases "de_commit v") (auto simp: transact_def commit_def split: if_splits sum.splits)

lemma autocommit_error:
  "fst (autocommit v r d) = Inl e \<Longrightarrow> de_commit v \<noteq> CommitUnknown \<Longrightarrow> snd (autocommit v r d) = d"
  by (cases "de_commit v") (auto simp: autocommit_def commit_def split: sum.splits)

lemma error_of_Some: "error_of r = Some e \<longleftrightarrow> r = Inl e"
  by (cases r) simp_all

lemma error_unchanged:
  assumes "pg_answer B v op d = Some e" and "de_commit v \<noteq> CommitUnknown" and "\<And>k l. op \<noteq> PgRenew k l"
  shows "pg_apply B v op d = d"
proof (cases op)
  case (PgIngest x)
  with assms show ?thesis
    by (auto simp: error_of_Some pg_IngestEvent_def transact_error split: option.splits sum.splits)
next
  case (PgPutIncident i g)
  with assms show ?thesis
    by (auto simp: error_of_Some pg_PutIncident_def transact_error split: if_splits sum.splits)
next
  case (PgPutCapsule c)
  with assms show ?thesis
    by (auto simp: error_of_Some pg_PutCapsule_def autocommit_error split: option.splits sum.splits)
next
  case (PgPutRun r)
  with assms show ?thesis
    by (auto simp: error_of_Some pg_PutRun_def autocommit_error transact_error split: option.splits sum.splits if_splits)
next
  case (PgTransition st r)
  with assms show ?thesis
    by (auto simp: error_of_Some pg_TransitionRun_def transact_error split: if_splits sum.splits)
next
  case (PgPutDiff x)
  with assms show ?thesis
    by (auto simp: error_of_Some pg_PutDiff_def transact_error split: option.splits sum.splits)
qed (use assms in \<open>auto simp: error_of_Some pg_ClaimRun_def pg_Reset_def transact_error\<close>)

text \<open>What a commit whose fate is not known may leave: the database before, or that of a commit.\<close>

abbreviation committing :: "db_env \<Rightarrow> db_env" where
  "committing v \<equiv> v\<lparr>de_commit := Committed\<rparr>"

lemma commit_free [simp]: "sql (v\<lparr>de_commit := c\<rparr>) = sql v" "getJSON (v\<lparr>de_commit := c\<rparr>) = getJSON v"
    "select_run B (v\<lparr>de_commit := c\<rparr>) = select_run B v"
    "load_node B (v\<lparr>de_commit := c\<rparr>) = load_node B v"
  by (simp_all add: fun_eq_iff sql_def getJSON_def select_run_def load_node_def)

lemma de_fails_free: "de_fails (v\<lparr>de_commit := c\<rparr>) = de_fails v" "de_clock (v\<lparr>de_commit := c\<rparr>) = de_clock v"
  by simp_all

lemmas body_defs = put_incident_tx_def put_run_tx_def transition_tx_def put_diff_tx_def claim_tx_def renew_update_def
  reset_tx_def

lemma bodies_commit_free [simp]:
  "put_incident_tx B (v\<lparr>de_commit := c\<rparr>) = put_incident_tx B v" "put_run_tx B (v\<lparr>de_commit := c\<rparr>) = put_run_tx B v"
  "transition_tx B (v\<lparr>de_commit := c\<rparr>) = transition_tx B v" "put_diff_tx B (v\<lparr>de_commit := c\<rparr>) = put_diff_tx B v"
  "claim_tx B (v\<lparr>de_commit := c\<rparr>) = claim_tx B v" "renew_update B (v\<lparr>de_commit := c\<rparr>) = renew_update B v"
  "reset_tx (v\<lparr>de_commit := c\<rparr>) = reset_tx v"
  by (unfold body_defs commit_free de_fails_free) (rule refl)+

lemma transact_atomic: "snd (transact v body d) \<in> {d, snd (transact (committing v) body d)}"
  by (cases "de_commit v") (auto simp: transact_def commit_def split: sum.splits)

lemma autocommit_atomic: "snd (autocommit v r d) \<in> {d, snd (autocommit (committing v) r d)}"
  by (cases "de_commit v") (auto simp: autocommit_def commit_def split: sum.splits)

lemma apply_atomic: "pg_apply B v op d \<in> {d, pg_apply B (committing v) op d}"
proof (cases op)
  case (PgIngest x)
  then show ?thesis using transact_atomic [of v _ d]
    by (auto simp: pg_IngestEvent_def split: option.splits sum.splits)
next
  case (PgPutIncident i g)
  then show ?thesis using transact_atomic [of v _ d] by (auto simp: pg_PutIncident_def split: sum.splits)
next
  case (PgPutCapsule c)
  then show ?thesis using autocommit_atomic [of v _ d] by (auto simp: pg_PutCapsule_def split: option.splits sum.splits)
next
  case (PgPutRun r)
  then show ?thesis using autocommit_atomic [of v _ d] transact_atomic [of v _ d]
    by (auto simp: pg_PutRun_def split: option.splits sum.splits)
next
  case (PgTransition st r)
  then show ?thesis using transact_atomic [of v _ d] by (auto simp: pg_TransitionRun_def split: sum.splits)
next
  case (PgClaim k l)
  then show ?thesis using transact_atomic [of v _ d] by (auto simp: pg_ClaimRun_def)
next
  case (PgRenew k l)
  have "snd (pg_RenewLease B v k l d) = snd (autocommit v (renew_update B v k l d) d)" for v :: db_env
    by (auto simp: pg_RenewLease_def split: prod.splits sum.splits)
  with PgRenew autocommit_atomic [of v "renew_update B v k l d" d] show ?thesis by simp
next
  case (PgPutDiff x)
  then show ?thesis using transact_atomic [of v _ d] by (auto simp: pg_PutDiff_def split: option.splits sum.splits)
next
  case PgReset
  then show ?thesis using transact_atomic [of v _ d] by (auto simp: pg_Reset_def)
qed

end
