(* ===== verification/PostgresProps.thy ===== *)
theory PostgresProps
  imports PostgresWrites DiffProps CapsuleProps
begin

text \<open>
  The properties of the Postgres repository: it implements the abstract repository, its rows stay sound, its reads
  answer what the in-memory repository answers, its pages are complete, an error leaves the records as they were, and
  a run is claimed once.
\<close>

section \<open>A sample database\<close>

text \<open>A backend whose JSON values are the records themselves, with times in whole microseconds.\<close>

datatype document =
    DocEvent execution_event
  | DocIncident incident
  | DocGraph execution_graph
  | DocCapsule replay_capsule
  | DocRun replay_run
  | DocDiff replay_diff

fun document_text :: "document \<Rightarrow> string \<Rightarrow> string option" where
  "document_text (DocEvent e) f = (if f = ''event_id'' then Some (ev_id e) else None)"
| "document_text (DocIncident i) f = (if f = ''incident_id'' then Some (inc_id i) else None)"
| "document_text (DocGraph g) f =
     (if f = ''graph_id'' then Some (graph_id g) else if f = ''incident_id'' then Some (graph_incident g) else None)"
| "document_text (DocCapsule c) f = (if f = ''capsule_id'' then Some (cap_id c) else None)"
| "document_text (DocRun r) f =
     (if f = ''run_id'' then Some (run_id r) else if f = ''capsule_id'' then Some (run_capsule r) else None)"
| "document_text (DocDiff x) f = (if f = ''diff_id'' then Some (diff_id x) else None)"

definition whole_micros :: "instant \<Rightarrow> instant" where
  "whole_micros t = Instant (nanos t div 1000 * 1000)"

definition sample_backend :: "document backend" where
  "sample_backend = \<lparr>
     bk_event = \<lparr>to_json = (\<lambda>e. Some (DocEvent e)), of_json = (\<lambda>j. case j of DocEvent e \<Rightarrow> Some e | _ \<Rightarrow> None)\<rparr>,
     bk_incident = \<lparr>to_json = (\<lambda>i. Some (DocIncident i)), of_json = (\<lambda>j. case j of DocIncident i \<Rightarrow> Some i | _ \<Rightarrow> None)\<rparr>,
     bk_graph = \<lparr>to_json = (\<lambda>g. Some (DocGraph g)), of_json = (\<lambda>j. case j of DocGraph g \<Rightarrow> Some g | _ \<Rightarrow> None)\<rparr>,
     bk_capsule = \<lparr>to_json = (\<lambda>c. Some (DocCapsule c)), of_json = (\<lambda>j. case j of DocCapsule c \<Rightarrow> Some c | _ \<Rightarrow> None)\<rparr>,
     bk_run = \<lparr>to_json = (\<lambda>r. Some (DocRun r)), of_json = (\<lambda>j. case j of DocRun r \<Rightarrow> Some r | _ \<Rightarrow> None)\<rparr>,
     bk_diff = \<lparr>to_json = (\<lambda>x. Some (DocDiff x)), of_json = (\<lambda>j. case j of DocDiff x \<Rightarrow> Some x | _ \<Rightarrow> None)\<rparr>,
     bk_object = (\<lambda>_. True), bk_text = document_text,
     bk_nodes = (\<lambda>j. case j of DocGraph g \<Rightarrow> Some (map (\<lambda>n. (node_event n, node_index n)) (graph_nodes g)) | _ \<Rightarrow> None),
     bk_time = (\<lambda>s. map_option (\<lambda>p. whole_micros (fst p)) (parse_time s)), bk_micros = whole_micros, bk_less = (<)\<rparr>"

lemma sample_reads_claimed: "reads_claimed sample_backend"
  by (auto simp: reads_claimed_def sample_backend_def split: document.splits)

lemma reads_self: "\<exists>m. e\<lparr>ev_attributes := m\<rparr> = e" "\<exists>m f. c\<lparr>cap_trigger := m, cap_dependency_fixtures := f\<rparr> = c"
  "\<exists>x. r\<lparr>run_error_field := x\<rparr> = r" "\<exists>m f. x\<lparr>diff_changed := m, diff_divergence := f\<rparr> = x"
  by (rule exI [of _ "ev_attributes e"], simp) (rule exI [of _ "cap_trigger c"], rule exI [of _ "cap_dependency_fixtures c"], simp,
    rule exI [of _ "run_error_field r"], simp, rule exI [of _ "diff_changed x"], rule exI [of _ "diff_divergence x"], simp)

lemma sample_reads: "reads_op sample_backend op"
proof -
  have ev: "reads_event sample_backend e" for e
    using reads_self(1) [of e] by (auto simp: reads_event_def sample_backend_def) metis
  have cap: "reads_capsule sample_backend c" for c
    using reads_self(2) [of c] by (auto simp: reads_capsule_def sample_backend_def) metis
  have run: "reads_run sample_backend r" for r
    using reads_self(3) [of r] by (auto simp: reads_run_def sample_backend_def) metis
  have diff: "reads_diff sample_backend x" for x
    using reads_self(4) [of x] by (auto simp: reads_diff_def sample_backend_def) metis
  show ?thesis
    by (cases op) (simp_all add: ev cap run diff, simp_all add: reads_incident_def reads_graph_def sample_backend_def)
qed

definition calm :: db_env where
  "calm = \<lparr>de_fails = (\<lambda>_. False), de_commit = Committed, de_clock = zero_time, de_now = zero_time\<rparr>"

lemma calm_quiet: "quiet calm"
  by (simp add: quiet_def calm_def)

definition stored_capsule :: replay_capsule where
  "stored_capsule = \<lparr>cap_schema = ContractVersion, cap_id = ''c'', cap_created_at = ''2026-01-02T00:00:00Z'',
     cap_source = \<lparr>src_incident = ''i1'', src_trace = ''t'', src_execution = ''x'', src_environment = CaptureDemo,
       src_captured_at = ''2026-01-02T00:00:00Z''\<rparr>,
     cap_pack = \<lparr>pack_id = ''p'', pack_version = ''1'', pack_interface = ContractVersion\<rparr>, cap_trigger = sample_trigger,
     cap_events = [''a''], cap_graph = ''g-i1'',
     cap_state_fixtures = [\<lparr>sf_id = ''sf'', sf_kind = StateFixturePostgresRowset, sf_ref = ''fixture://s'',
       sf_digest = replicate 64 CHR ''a'', sf_sanitization = SanitizationPass, sf_reset = FixtureTruncateAndLoad\<rparr>],
     cap_dependency_fixtures = [\<lparr>df_id = ''df'', df_dependency = DependencyPaymentSimulator, df_request = Some [],
       df_response = Some [], df_latency = 350, df_failure_mode = FailureModeNone, df_limit = 2\<rparr>],
     cap_timing = \<lparr>clock_tolerance_ms = 5, timeout_ms = 200\<rparr>,
     cap_plan = \<lparr>plan_entrypoint = ''gateway.checkout'', plan_components = Some p0_components,
       plan_load_order = Some [''sf'', ''df''], plan_reset = ReplayResetGoldenV1\<rparr>,
     cap_oracle = \<lparr>spec_id = ''duplicate_ledger_effect'', spec_version = ''1.0.0'', spec_expected = True,
       spec_effects = \<lparr>payment_attempts = 2, ledger_commits = 2\<rparr>\<rparr>,
     cap_interventions = p0_interventions, cap_safety = SafePolicy,
     cap_integrity = \<lparr>int_algorithm = IntegritySHA256, int_digest = replicate 64 CHR ''a''\<rparr>\<rparr>"

lemma stored_capsule_valid: "capsule_validate stored_capsule = None"
  by code_simp

definition stored_diff :: replay_diff where
  "stored_diff = projr (Build (store_source (\<lambda>_ m. m) diff_store) ''d'' ''b'' ''w''
     (checkout_pack (\<lambda>_. []) [] (\<lambda>_. None) (\<lambda>_. None)))"

lemma stored_diff_ok:
  "diff_validate stored_diff = None" "diff_id stored_diff = ''d''" "diff_baseline stored_diff = ''b''"
  "diff_comparison stored_diff = ''w''" "run_intervention sample_what_if = Some (diff_intervention stored_diff)"
proof -
  let ?pack = "checkout_pack (\<lambda>_. []) [] (\<lambda>_. None) (\<lambda>_. None)"
  obtain x where x: "Build (store_source (\<lambda>_ m. m) diff_store) ''d'' ''b'' ''w'' ?pack = Inr x"
    using diff_sample_run by (auto simp: map_sum_Inr_iff)
  then have eq: "stored_diff = x" by (simp add: stored_diff_def)
  have "repository_pack ?pack" by (auto simp: repository_pack_def)
  from pack_contract.Build_sound [OF repository_pack_contract [OF this] x] obtain b c where
    bc: "src_run (store_source (\<lambda>_ m. m) diff_store) ''b'' = Inr b" "src_run (store_source (\<lambda>_ m. m) diff_store) ''w'' = Inr c"
      "diff_id x = ''d''" "diff_of_runs (store_source (\<lambda>_ m. m) diff_store) b c x" by blast
  have "GetRun False ''b'' diff_store = Inr sample_baseline" "GetRun False ''w'' diff_store = Inr sample_what_if"
    by code_simp+
  with bc(1,2) have "b = sample_baseline" "c = sample_what_if" by (simp_all add: store_source_def)
  with bc(3,4) eq show "diff_validate stored_diff = None" "diff_id stored_diff = ''d''" "diff_baseline stored_diff = ''b''"
    "diff_comparison stored_diff = ''w''" "run_intervention sample_what_if = Some (diff_intervention stored_diff)"
    by (simp_all add: diff_of_runs_def sample_baseline_def sample_what_if_def completed_sample_def sample_run_def)
qed

abbreviation one_event :: execution_event where
  "one_event \<equiv> sample_event ''a'' ''2026-01-01T00:00:00Z'' 2"

abbreviation one_incident :: incident where
  "one_incident \<equiv> sample_incident ''i1'' ''a'' ''2026-01-02T00:00:00Z''"

abbreviation one_graph :: execution_graph where
  "one_graph \<equiv> sample_incident_graph ''i1'' ''a''"

definition pg_sample :: "document db" where
  "pg_sample = \<lparr>
     db_events = [(''a'', \<lparr>pe_execution = ''x'', pe_trace = ''t'', pe_run = None, pe_payload = DocEvent one_event,
       pe_at = whole_micros (time_of ''2026-01-01T00:00:00Z''), pe_sequence = 2\<rparr>)],
     db_incidents = [(''i1'', \<lparr>pi_status = IncidentReady, pi_detected = whole_micros (time_of ''2026-01-02T00:00:00Z''),
       pi_payload = DocIncident one_incident\<rparr>)],
     db_graphs = [(''g-i1'', \<lparr>pg_incident = ''i1'', pg_payload = DocGraph one_graph\<rparr>)],
     db_capsules = [(''c'', \<lparr>pc_incident = ''i1'', pc_created = whole_micros (time_of ''2026-01-02T00:00:00Z''),
       pc_payload = DocCapsule stored_capsule\<rparr>)],
     db_runs = [(''r'', new_run_row (sample_run ''r'') (DocRun (sample_run ''r''))),
       (''b'', new_run_row sample_baseline (DocRun sample_baseline)),
       (''w'', new_run_row sample_what_if (DocRun sample_what_if))],
     db_diffs = [(''d'', \<lparr>pd_baseline = ''b'', pd_comparison = ''w'', pd_payload = DocDiff stored_diff\<rparr>)]\<rparr>"

definition memory_sample :: store where
  "memory_sample = \<lparr>st_events = [(''a'', one_event)], st_incidents = [(''i1'', one_incident)],
     st_graphs = [(''g-i1'', one_graph)], st_capsules = [(''c'', stored_capsule)],
     st_runs = [(''r'', sample_run ''r''), (''b'', sample_baseline), (''w'', sample_what_if)],
     st_diffs = [(''d'', stored_diff)], st_leases = []\<rparr>"

lemma sample_valid:
  "event_validate one_event = None" "incident_validate one_incident = None" "graph_validate one_graph = None"
  "Order [one_event] one_graph = Inr [one_event]" "run_validate (sample_run ''r'') = None"
  "run_validate sample_baseline = None" "run_validate sample_what_if = None" "eligible_baseline sample_baseline sample_what_if"
  by code_simp+

lemma sample_fields:
  "ev_id one_event = ''a''" "ev_execution one_event = ''x''" "ev_trace one_event = ''t''" "ev_run one_event = []"
  "ev_sequence one_event = 2" "ev_occurred_at one_event = ''2026-01-01T00:00:00Z''"
  "inc_id one_incident = ''i1''" "inc_status one_incident = IncidentReady" "inc_graph one_incident = ''g-i1''"
  "inc_execution one_incident = ''x''" "inc_trace one_incident = ''t''" "inc_evidence one_incident = [''a'']"
  "inc_detected_at one_incident = ''2026-01-02T00:00:00Z''" "graph_id one_graph = ''g-i1''" "graph_incident one_graph = ''i1''"
  "graph_nodes one_graph = [\<lparr>node_event = ''a'', node_index = 0\<rparr>]"
  "cap_id stored_capsule = ''c''" "src_incident (cap_source stored_capsule) = ''i1''"
  "cap_created_at stored_capsule = ''2026-01-02T00:00:00Z''"
  "run_id (sample_run k) = k" "run_id sample_baseline = ''b''" "run_id sample_what_if = ''w''"
  "run_capsule (sample_run k) = ''c''" "run_capsule sample_baseline = ''c''" "run_capsule sample_what_if = ''c''"
  "run_kind (sample_run k) = RunTypeBaseline" "run_kind sample_baseline = RunTypeBaseline"
  "run_kind sample_what_if = RunTypeWhatIf" "run_baseline sample_what_if = ''b''"
  by (simp_all add: sample_event_def zero_event_def sample_incident_def sample_incident_graph_def stored_capsule_def sample_run_def
      sample_baseline_def sample_what_if_def completed_sample_def)

lemma sample_codecs:
  "to_json (bk_event sample_backend) e = Some (DocEvent e)" "of_json (bk_event sample_backend) (DocEvent e) = Some e"
  "to_json (bk_incident sample_backend) i = Some (DocIncident i)" "of_json (bk_incident sample_backend) (DocIncident i) = Some i"
  "to_json (bk_graph sample_backend) g = Some (DocGraph g)" "of_json (bk_graph sample_backend) (DocGraph g) = Some g"
  "to_json (bk_capsule sample_backend) c = Some (DocCapsule c)" "of_json (bk_capsule sample_backend) (DocCapsule c) = Some c"
  "to_json (bk_run sample_backend) r = Some (DocRun r)" "of_json (bk_run sample_backend) (DocRun r) = Some r"
  "to_json (bk_diff sample_backend) x = Some (DocDiff x)" "of_json (bk_diff sample_backend) (DocDiff x) = Some x"
  "names_record sample_backend (DocEvent e) ''event_id'' (ev_id e)"
  "names_record sample_backend (DocIncident i) ''incident_id'' (inc_id i)"
  "names_record sample_backend (DocGraph g) ''graph_id'' (graph_id g)" "names sample_backend (DocGraph g) ''incident_id'' (graph_incident g)"
  "names_record sample_backend (DocCapsule c) ''capsule_id'' (cap_id c)"
  "names_record sample_backend (DocRun r) ''run_id'' (run_id r)" "names sample_backend (DocRun r) ''capsule_id'' (run_capsule r)"
  "names_record sample_backend (DocDiff x) ''diff_id'' (diff_id x)"
  "validUTCTime s \<Longrightarrow> bk_time sample_backend s = Some (whole_micros (time_of s))"
  by (auto simp: sample_backend_def names_record_def names_def validUTCTime_def time_of_def split: option.splits)

lemmas sample_tables = table_get_def table_put_def table_rows_def

lemma pg_sample_reachable: "pg_reachable sample_backend pg_sample"
proof -
  let ?B = sample_backend
  have utc: "validUTCTime (ev_occurred_at one_event)" "validUTCTime (inc_detected_at one_incident)" "validUTCTime (cap_created_at stored_capsule)"
    using sample_valid by (simp_all add: event_validate_None_iff incident_valid_detected_at sample_fields) (simp_all add: incident_valid_detected_at [of one_incident, unfolded sample_fields])
  note step = pg_reachable.after [OF _ sample_reads, where v = calm]
  let ?d1 = "empty_db\<lparr>db_events := db_events pg_sample\<rparr>"
  let ?d2 = "?d1\<lparr>db_incidents := db_incidents pg_sample, db_graphs := db_graphs pg_sample\<rparr>"
  let ?d3 = "?d2\<lparr>db_capsules := db_capsules pg_sample\<rparr>"
  let ?d4 = "?d3\<lparr>db_runs := take 1 (db_runs pg_sample)\<rparr>"
  let ?d5 = "?d3\<lparr>db_runs := take 2 (db_runs pg_sample)\<rparr>"
  let ?d6 = "?d3\<lparr>db_runs := db_runs pg_sample\<rparr>"
  have "pg_apply ?B calm (PgIngest one_event) empty_db = ?d1"
    using accept_event [OF calm_quiet sample_valid(1) sample_codecs(1) sample_codecs(21) [OF utc(1)] sample_codecs(13), of empty_db]
    by (simp add: sample_fields sample_tables empty_db_def pg_sample_def nullableString_def)
  then have d1: "pg_reachable ?B ?d1" using step [OF pg_reachable.fresh, of "PgIngest one_event"] by simp
  have "pg_apply ?B calm (PgPutIncident one_incident one_graph) ?d1 = ?d2"
    using accept_incident [OF calm_quiet sample_valid(2,3) _ _ sample_codecs(3,5) sample_codecs(21) [OF utc(2)]
        sample_codecs(14,15), where d = ?d1 and events = "[one_event]"] sample_valid(4) sample_codecs(16) [of one_graph]
    by (simp add: sample_fields sample_codecs sample_tables empty_db_def pg_sample_def abs_db_def view_def node_ids_def)
  then have d2: "pg_reachable ?B ?d2" using step [OF d1, of "PgPutIncident one_incident one_graph"] by simp
  have "pg_apply ?B calm (PgPutCapsule stored_capsule) ?d2 = ?d3"
    using accept_capsule [OF calm_quiet stored_capsule_valid sample_codecs(7) sample_codecs(21) [OF utc(3)] sample_codecs(17), of ?d2]
    by (simp add: sample_fields sample_tables empty_db_def pg_sample_def)
  then have d3: "pg_reachable ?B ?d3" using step [OF d2, of "PgPutCapsule stored_capsule"] by simp
  have "pg_apply ?B calm (PgPutRun (sample_run ''r'')) ?d3 = ?d4"
    using accept_run [OF calm_quiet sample_valid(5) sample_codecs(9) sample_codecs(18,19), of ?d3]
    by (simp add: sample_fields sample_tables empty_db_def pg_sample_def baseline_known_def)
  then have d4: "pg_reachable ?B ?d4" using step [OF d3, of "PgPutRun (sample_run ''r'')"] by simp
  have "pg_apply ?B calm (PgPutRun sample_baseline) ?d4 = ?d5"
    using accept_run [OF calm_quiet sample_valid(6) sample_codecs(9) sample_codecs(18,19), of ?d4]
    by (simp add: sample_fields sample_tables empty_db_def pg_sample_def baseline_known_def)
  then have d5: "pg_reachable ?B ?d5" using step [OF d4, of "PgPutRun sample_baseline"] by simp
  have "pg_apply ?B calm (PgPutRun sample_what_if) ?d5 = ?d6"
    using accept_run [OF calm_quiet sample_valid(7) sample_codecs(9) sample_codecs(18,19), of ?d5] sample_valid(8)
    by (simp add: sample_fields sample_codecs sample_tables empty_db_def pg_sample_def baseline_known_def abs_db_def view_def new_run_row_def)
  then have d6: "pg_reachable ?B ?d6" using step [OF d5, of "PgPutRun sample_what_if"] by simp
  have "comparable sample_baseline sample_what_if stored_diff"
    using stored_diff_ok(5) by (simp add: comparable_def sample_baseline_def sample_what_if_def completed_sample_def sample_run_def)
  then have "pg_apply ?B calm (PgPutDiff stored_diff) ?d6 = pg_sample"
    using accept_diff [OF calm_quiet stored_diff_ok(1) sample_codecs(11,20), where d = ?d6]
    by (simp add: stored_diff_ok sample_codecs sample_tables empty_db_def pg_sample_def abs_db_def view_def new_run_row_def)
  then show ?thesis using step [OF d6, of "PgPutDiff stored_diff"] by simp
qed

lemma memory_sample_reachable: "reachable memory_sample"
proof -
  let ?ops = "[OpIngest False one_event, OpPutIncident False one_incident one_graph, OpPutCapsule False stored_capsule,
    OpPutRun False (sample_run ''r''), OpPutRun False sample_baseline, OpPutRun False sample_what_if, OpPutDiff False stored_diff]"
  have "apply_ops ?ops NewStore = memory_sample"
    using sample_valid stored_capsule_valid
    by (simp add: apply_ops_def NewStore_def memory_sample_def IngestEvent_def PutIncident_def PutCapsule_def PutRun_def PutDiff_def
        sample_fields stored_diff_ok sample_tables node_lookup_def node_ids_def)
  with reachable_apply_ops [OF reachable.start, of ?ops] show ?thesis by simp
qed

lemma samples_agree: "abs_store memory_sample = abs_db sample_backend pg_sample"
  by (simp add: abs_store_def abs_db_def memory_sample_def pg_sample_def view_def sample_tables sample_codecs
      new_run_row_def fun_eq_iff)

section \<open>Properties\<close>

text \<open>C6: the Postgres repository implements the same abstract repository as the in-memory one. The records of a database
  are what its JSON decodes to; whatever statements fail and whatever becomes of the commit, an operation leaves them
  alone or makes one step of the abstract repository: a valid record under a new id, a run with a known baseline, a
  run moved one step along its life cycle, or the reset.\<close>

theorem postgres_refines_repository:
  assumes "pg_reachable B d" and "reads_claimed B" and "reads_op B op"
  shows "abs_db B empty_db = empty_repository
    \<and> (abs_db B (pg_apply B v op d) = abs_db B d \<or> repo_step (abs_db B d) (abs_db B (pg_apply B v op d)))"
  using apply_step [OF pg_reachable_ok [OF assms(1,2)] assms(2,3), of v] repo_step.clear [of "abs_db B d"]
  by (auto simp: db_step_def abs_empty_db)

theorem postgres_refines_repository_witness:
  "repo_step (abs_db sample_backend pg_sample) (abs_db sample_backend (pg_apply sample_backend calm PgReset pg_sample))"
proof -
  have empty: "pg_apply sample_backend calm PgReset pg_sample = empty_db"
    by (simp add: pg_Reset_def transact_def reset_tx_def sql_def calm_def commit_def)
  have "rp_runs (abs_db sample_backend pg_sample) ''r'' \<noteq> rp_runs empty_repository ''r''"
    by (simp add: abs_db_def view_def pg_sample_def sample_tables new_run_row_def sample_codecs empty_repository_def)
  then have "abs_db sample_backend empty_db \<noteq> abs_db sample_backend pg_sample" by (auto simp: abs_empty_db)
  with postgres_refines_repository [OF pg_sample_reachable sample_reads_claimed sample_reads, where v = calm and op = PgReset] empty
  show ?thesis by metis
qed



text \<open>C22: a database and an in-memory store that hold the same records answer reads alike when nothing fails: the same
  run, capsule and diff by id, the same incident detail with the events in the same order (the SQL join over the JSON
  nodes gives what \<open>Order\<close> gives), the same runs of a status and the same events of an execution or a run. The lists
  come in the same order when the database compares text by bytes and keeps the instants of the events exactly.\<close>

theorem postgres_agrees_with_memory:
  assumes "pg_reachable B d" and "reads_claimed B" and "reachable s" and "abs_store s = abs_db B d" and "quiet v"
    and "run_id run \<noteq> []"
  shows "pg_GetRun B v k d = GetRun False k s \<and> pg_GetCapsule B v k d = GetCapsule False k s
    \<and> pg_GetDiff B v k d = GetDiff False k s \<and> pg_GetIncidentDetail B v k d = GetIncidentDetail False k s
    \<and> (\<exists>rs rs'. pg_ListRuns B v st d = Inr rs \<and> ListRuns False st s = Inr rs' \<and> mset rs = mset rs'
        \<and> (bk_less B = (<) \<longrightarrow> rs = rs'))
    \<and> (\<exists>es es'. pg_EventsForExecution B v x d = Inr es \<and> EventsForExecution False x s = Inr es' \<and> mset es = mset es'
        \<and> (bk_less B = (<) \<and> exact_times B d \<longrightarrow> es = es'))
    \<and> (\<exists>es es'. pg_EventsForRun B v run d = Inr es \<and> EventsForRun False run s = Inr es' \<and> mset (elems es) = mset es'
        \<and> (bk_less B = (<) \<and> exact_times B d \<longrightarrow> elems es = es'))"
proof (intro conjI)
  note ok = pg_reachable_ok [OF assms(1,2)] and mem = reachable_ok [OF assms(3)]
  note lookups = lookups_agree [OF ok assms(5,4)]
  show "pg_GetRun B v k d = GetRun False k s" "pg_GetCapsule B v k d = GetCapsule False k s"
    "pg_GetDiff B v k d = GetDiff False k s" by (rule lookups)+
  show "pg_GetIncidentDetail B v k d = GetIncidentDetail False k s" by (rule detail_agrees [OF ok assms(5,4)])
  show "\<exists>rs rs'. pg_ListRuns B v st d = Inr rs \<and> ListRuns False st s = Inr rs' \<and> mset rs = mset rs'
      \<and> (bk_less B = (<) \<longrightarrow> rs = rs')"
    by (rule ListRuns_agrees [OF ok mem assms(4,5), of st]) blast
  show "\<exists>es es'. pg_EventsForExecution B v x d = Inr es \<and> EventsForExecution False x s = Inr es' \<and> mset es = mset es'
      \<and> (bk_less B = (<) \<and> exact_times B d \<longrightarrow> es = es')"
    by (rule events_agree [OF ok mem assms(4,5), where P = "\<lambda>r. pe_execution r = x" and Q = "\<lambda>e. ev_execution e = x" and n = 1])
      (use event_of_row(4) [OF ok] in \<open>auto simp: pg_EventsForExecution_def EventsForExecution_def\<close>)
  have "(pe_run (snd p) = Some (run_id run)) = (ev_run (event_of B (snd p)) = run_id run)" if "p \<in> set (db_events d)" for p
    using event_of_row(5) [OF ok that] assms(6) by (auto simp: nullableString_def split: if_splits)
  then have "\<exists>es. loadEventsForRun B v run d = Inr es
      \<and> mset es = mset (stableOrder (filter (\<lambda>e. ev_run e = run_id run) (table_rows (st_events s))))
      \<and> (bk_less B = (<) \<and> exact_times B d
          \<longrightarrow> es = stableOrder (filter (\<lambda>e. ev_run e = run_id run) (table_rows (st_events s))))"
    unfolding loadEventsForRun_def
    by (rule_tac events_agree [OF ok mem assms(4,5), where P = "\<lambda>r. pe_run r = Some (run_id run)" and Q = "\<lambda>e. ev_run e = run_id run" and n = 1])
      auto
  then obtain es where es: "loadEventsForRun B v run d = Inr es"
      "mset es = mset (stableOrder (filter (\<lambda>e. ev_run e = run_id run) (table_rows (st_events s))))"
      "bk_less B = (<) \<and> exact_times B d
        \<longrightarrow> es = stableOrder (filter (\<lambda>e. ev_run e = run_id run) (table_rows (st_events s)))" by blast
  have "pg_EventsForRun B v run d = Inr (if es = [] then None else Some es)" by (simp add: pg_EventsForRun_def es(1))
  moreover have "elems (if es = [] then None else Some es) = es" by simp
  ultimately show "\<exists>es es'. pg_EventsForRun B v run d = Inr es \<and> EventsForRun False run s = Inr es' \<and> mset (elems es) = mset es'
      \<and> (bk_less B = (<) \<and> exact_times B d \<longrightarrow> elems es = es')"
    using es(2,3) by (fastforce simp: EventsForRun_def)
qed

theorem postgres_agrees_with_memory_witness:
  "pg_GetIncidentDetail sample_backend calm ''i1'' pg_sample = Inr (one_incident, one_graph, [one_event])
    \<and> pg_GetRun sample_backend calm ''w'' pg_sample = Inr sample_what_if"
proof -
  have "run_id sample_baseline \<noteq> []" by (simp add: sample_fields)
  note agree = postgres_agrees_with_memory [OF pg_sample_reachable sample_reads_claimed memory_sample_reachable samples_agree
      calm_quiet this]
  have "pg_GetIncidentDetail sample_backend calm ''i1'' pg_sample = GetIncidentDetail False ''i1'' memory_sample"
    "pg_GetRun sample_backend calm ''w'' pg_sample = GetRun False ''w'' memory_sample" using agree by blast+
  moreover have "GetIncidentDetail False ''i1'' memory_sample = Inr (one_incident, one_graph, [one_event])"
    using sample_valid(4) by (simp add: GetIncidentDetail_def memory_sample_def sample_tables sample_fields)
  moreover have "GetRun False ''w'' memory_sample = Inr sample_what_if"
    by (simp add: GetRun_def lookup_row_def memory_sample_def sample_tables)
  ultimately show ?thesis by simp
qed

text \<open>C40: a client that follows the cursors of the Postgres listing gets every stored incident of the asked status
  exactly once, latest detection first and then by descending id in the collation of the database, and the walk
  ends. What the columns order is what the records say: the time is the database's reading of detected_at.\<close>

theorem postgres_pages_complete:
  assumes "pg_reachable B d" and "reads_claimed B" and "quiet v" and "collation (bk_less B)" and "cursors_ok m u B d"
    and "1 \<le> query_limit q" "query_limit q \<le> 100" and "length (db_incidents d) < fuel"
  shows "\<exists>ps. follow fuel (\<lambda>c. pg_ListIncidents m u B v (q\<lparr>iq_cursor := c\<rparr>) d) [] = Inr ps
    \<and> distinct (map inc_id (concat ps))
    \<and> set (concat ps) = {i. \<exists>k. rp_incidents (abs_db B d) k = Some i
         \<and> (iq_status q = UnknownIncidentStatus [] \<or> inc_status i = iq_status q)}
    \<and> sorted_wrt (\<lambda>a b. \<exists>t t'. bk_time B (inc_detected_at a) = Some t \<and> bk_time B (inc_detected_at b) = Some t'
         \<and> pg_before B (t', inc_id b) (t, inc_id a)) (concat ps)"
proof -
  note ok = pg_reachable_ok [OF assms(1,2)]
  let ?xs = "select_incident_rows B (iq_status q) None d"
  let ?f = "incident_of B \<circ> snd"
  from pg_pages [OF ok assms(3-8)] obtain ps where ps:
    "follow fuel (\<lambda>c. pg_ListIncidents m u B v (q\<lparr>iq_cursor := c\<rparr>) d) [] = Inr ps" "concat ps = map ?f ?xs" by blast
  have mem: "p \<in> set (db_incidents d)" if "p \<in> set ?xs" for p using that by (simp add: select_incident_rows_def)
  note row = incident_of_row [OF ok mem]
  have "map inc_id (concat ps) = map fst ?xs" unfolding ps(2) using row(2) by simp
  moreover have "distinct (map fst ?xs)"
    using ok unfolding select_incident_rows_def distinct_map_sort_by
    by (auto simp: db_ok_def tab.all_entries_def table_ok_def intro: distinct_map_filter)
  ultimately have dist: "distinct (map inc_id (concat ps))" by simp
  have set: "set (concat ps) = {i. \<exists>k. rp_incidents (abs_db B d) k = Some i
      \<and> (iq_status q = UnknownIncidentStatus [] \<or> inc_status i = iq_status q)}"
  proof (intro equalityI subsetI)
    fix i assume "i \<in> set (concat ps)"
    then obtain p where "p \<in> set ?xs" "i = ?f p" unfolding ps(2) by auto
    with row(3,6) [of p] show "i \<in> {i. \<exists>k. rp_incidents (abs_db B d) k = Some i
      \<and> (iq_status q = UnknownIncidentStatus [] \<or> inc_status i = iq_status q)}"
      by (auto simp: select_incident_rows_def)
  next
    fix i assume "i \<in> {i. \<exists>k. rp_incidents (abs_db B d) k = Some i
      \<and> (iq_status q = UnknownIncidentStatus [] \<or> inc_status i = iq_status q)}"
    then obtain k r where i: "table_get (db_incidents d) k = Some r" "of_json (bk_incident B) (pi_payload r) = Some i"
        "iq_status q = UnknownIncidentStatus [] \<or> inc_status i = iq_status q"
      by (auto simp: abs_db_def view_Some_iff)
    have p: "(k, r) \<in> set (db_incidents d)" using i(1) by (simp add: table_get_def map_of_SomeD)
    have "incident_of B r = i" using i(2) by (simp add: incident_of_def)
    with i(3) p incident_of_row(3) [OF ok p] have "(k, r) \<in> set ?xs" by (auto simp: select_incident_rows_def)
    with \<open>incident_of B r = i\<close> show "i \<in> set (concat ps)" unfolding ps(2) by force
  qed
  have "sorted_wrt (\<lambda>a b. \<exists>t t'. bk_time B (inc_detected_at a) = Some t \<and> bk_time B (inc_detected_at b) = Some t'
      \<and> pg_before B (t', inc_id b) (t, inc_id a)) (map ?f ?xs)"
    unfolding sorted_wrt_map
    by (rule sorted_wrt_mono_rel [OF _ select_rows_strict [OF assms(4) ok]])
      (use row(2,4) in \<open>auto simp: row_after_def incident_position_def\<close>)
  from this [folded ps(2)] ps(1) dist set show ?thesis by blast
qed

definition pg_cursor :: "string \<Rightarrow> cursor option" where
  "pg_cursor c = (if c = ''i1'' then Some (whole_micros (time_of ''2026-01-02T00:00:00Z''), ''i1'') else None)"

lemma sample_cursors: "cursors_ok snd pg_cursor sample_backend pg_sample"
proof -
  have "\<not> is_zero (whole_micros (time_of ''2026-01-02T00:00:00Z''))" by code_simp
  then show ?thesis
    by (simp add: cursors_ok_def pg_sample_def incident_position_def pg_cursor_def sample_backend_def whole_micros_def)
qed

lemma sample_collation: "collation (bk_less sample_backend)"
  unfolding collation_def sample_backend_def by auto

theorem postgres_pages_complete_witness:
  "\<exists>ps. follow 2 (\<lambda>c. pg_ListIncidents snd pg_cursor sample_backend calm
      \<lparr>iq_status = IncidentReady, iq_limit = Some 1, iq_cursor = c\<rparr> pg_sample) [] = Inr ps \<and> one_incident \<in> set (concat ps)"
proof -
  let ?q = "\<lparr>iq_status = IncidentReady, iq_limit = Some 1, iq_cursor = []\<rparr>"
  have "1 \<le> query_limit ?q" "query_limit ?q \<le> 100" by (simp_all add: query_limit_def)
  moreover have "length (db_incidents pg_sample) < 2" by (simp add: pg_sample_def)
  ultimately obtain ps where ps: "follow 2 (\<lambda>c. pg_ListIncidents snd pg_cursor sample_backend calm (?q\<lparr>iq_cursor := c\<rparr>) pg_sample) [] = Inr ps"
      "set (concat ps) = {i. \<exists>k. rp_incidents (abs_db sample_backend pg_sample) k = Some i
         \<and> (iq_status ?q = UnknownIncidentStatus [] \<or> inc_status i = iq_status ?q)}"
    using postgres_pages_complete [OF pg_sample_reachable sample_reads_claimed calm_quiet sample_collation sample_cursors]
    by blast
  have "rp_incidents (abs_db sample_backend pg_sample) ''i1'' = Some one_incident"
    by (simp add: abs_db_def view_def pg_sample_def sample_tables sample_codecs)
  then have "one_incident \<in> set (concat ps)" unfolding ps(2) by (auto simp: sample_fields)
  with ps(1) show ?thesis by auto
qed

text \<open>C23: the operations of the Postgres repository are all or nothing. Whichever call to the database fails, the
  database afterwards is the one before or the one that the operation leaves when its commit succeeds; and an operation
  that answers an error leaves every record as it was, unless the fate of its commit is not known.\<close>

theorem postgres_failure_atomic:
  assumes "pg_reachable B d" and "reads_claimed B"
  shows "pg_apply B v op d \<in> {d, pg_apply B (committing v) op d}
    \<and> (pg_answer B v op d \<noteq> None \<and> de_commit v \<noteq> CommitUnknown \<longrightarrow> abs_db B (pg_apply B v op d) = abs_db B d)"
proof -
  note ok = pg_reachable_ok [OF assms]
  have "abs_db B (pg_apply B v op d) = abs_db B d" if "pg_answer B v op d \<noteq> None" "de_commit v \<noteq> CommitUnknown"
  proof (cases "\<exists>k l. op = PgRenew k l")
    case True
    then show ?thesis using step_renew [OF ok] by auto
  next
    case False
    with that error_unchanged [of B v op d] show ?thesis by auto
  qed
  with apply_atomic [of B v op d] show ?thesis by blast
qed

theorem postgres_failure_atomic_witness:
  "abs_db sample_backend (pg_apply sample_backend calm (PgClaim ''w'' 1) pg_sample) = abs_db sample_backend pg_sample"
proof -
  have "pg_answer sample_backend calm (PgClaim ''w'' 1) pg_sample = Some ErrInvalidLifecycle"
    by (simp add: pg_ClaimRun_def transact_def claim_tx_def select_run_def getJSON_def sql_def calm_def decodePayload_def
        pg_sample_def sample_tables new_run_row_def sample_codecs)
      (simp add: sample_what_if_def completed_sample_def)
  moreover have "de_commit calm \<noteq> CommitUnknown" by (simp add: calm_def)
  ultimately show ?thesis
    using postgres_failure_atomic [OF pg_sample_reachable sample_reads_claimed, of calm "PgClaim ''w'' 1"] by simp
qed

text \<open>C17: over Postgres too a granted claim is never granted again, whatever operations other workers run in between and
  whatever fails in them, as long as nobody resets the database; the run has left CREATED for good.\<close>

theorem postgres_claim_exclusive:
  assumes "pg_reachable B d" and "reads_claimed B" and "pg_ClaimRun B v k l d = (Inr r, d1)"
    and "\<forall>p\<in>set ops. reads_op B (fst p) \<and> fst p \<noteq> PgReset"
  shows "\<exists>e. fst (pg_ClaimRun B v' k l' (pg_apply_all B ops d1)) = Inl e"
proof (rule ccontr)
  assume "\<nexists>e. fst (pg_ClaimRun B v' k l' (pg_apply_all B ops d1)) = Inl e"
  then obtain r2 d3 where again: "pg_ClaimRun B v' k l' (pg_apply_all B ops d1) = (Inr r2, d3)"
    by (cases "pg_ClaimRun B v' k l' (pg_apply_all B ops d1)"; cases "fst (pg_ClaimRun B v' k l' (pg_apply_all B ops d1))") auto
  note ok = pg_reachable_ok [OF assms(1,2)]
  have "db_step B d d1" using step_claim [OF ok assms(2), of v k l] assms(3) by simp
  then have ok1: "db_ok B d1" by (simp add: db_step_def)
  from claim_writes_validating [OF ok assms(2,3)] have r: "rp_runs (abs_db B d1) k = Some r" "run_status r = ReplayRunValidating"
    by simp_all
  from all_extends [OF ok1 assms(2,4)] r(1) obtain r' where r': "rp_runs (abs_db B (pg_apply_all B ops d1)) k = Some r'" "run_later r r'"
    by (auto simp: db_extends_def)
  from claim_reads_created [OF again] r'(1) have "run_status r' = ReplayRunCreated" by auto
  with r(2) r'(2) transitions_rank [of "run_status r" "run_status r'"] show False by (auto simp: run_later_def)
qed

lemma sample_pg_claim: "\<exists>r d1. pg_ClaimRun sample_backend calm ''r'' 1 pg_sample = (Inr r, d1)"
proof -
  let ?r = "(sample_run ''r'')\<lparr>run_status := ReplayRunValidating\<rparr>"
  have "run_row_checks sample_backend ''r'' ((new_run_row (sample_run ''r'') (DocRun (sample_run ''r'')))
      \<lparr>pr_status := ReplayRunValidating, pr_payload := DocRun ?r, pr_lease := Some t\<rparr>)" for t
    by (simp add: run_row_checks_def new_run_row_def sample_backend_def names_def sample_run_def nullableOutcome_def
        validRunStatus_def)
  moreover have "run_status (sample_run ''r'') = ReplayRunCreated" by (simp add: sample_run_def)
  ultimately show ?thesis
    by (simp add: pg_ClaimRun_def transact_def claim_tx_def select_run_def getJSON_def sql_def calm_def decodePayload_def
        pg_sample_def sample_tables sample_codecs payload_def Let_def commit_def new_run_row_def)
qed

theorem postgres_claim_exclusive_witness:
  "\<exists>r d1 e. pg_ClaimRun sample_backend calm ''r'' 1 pg_sample = (Inr r, d1)
     \<and> fst (pg_ClaimRun sample_backend calm ''r'' 1 d1) = Inl e"
proof -
  obtain r d1 where claim: "pg_ClaimRun sample_backend calm ''r'' 1 pg_sample = (Inr r, d1)" using sample_pg_claim by blast
  have "\<forall>p\<in>set []. reads_op sample_backend (fst p) \<and> fst p \<noteq> PgReset" by simp
  from postgres_claim_exclusive [OF pg_sample_reachable sample_reads_claimed claim this] claim show ?thesis by auto
qed

end
