(* ===== verification/Http.thy ===== *)
theory Http
  imports ServicesLive CoreApi
begin

text \<open>
  HTTP between the processes: the handlers and clients of the demo services (service/http.go of demo-payment,
  demo-ledger, demo-checkout and demo-gateway), the headers of internal/capture/propagation.go and \<open>HTTPSink\<close> of
  sink.go. A handler is a function of the request and of the state of its process. net/http is modelled as far as it
  is used: exact patterns of ServeMux on clean paths, the check and the trimming of header values, a connection
  that may fail before or after the handler ran. The JSON of each wire type is a parameter (\<open>json\<close>).
\<close>

section \<open>Requests and responses\<close>

record http_request =
  hq_method :: string
  hq_path :: string
  hq_query :: "(string \<times> string list) list"
  hq_headers :: "(string \<times> string) list"
  hq_length :: int
  hq_body :: string

record http_response =
  hs_status :: int
  hs_type :: string
  hs_body :: string

text \<open>No response stands for a handler that panicked, whose connection is closed.\<close>

type_synonym 's handler = "http_request \<Rightarrow> 's \<Rightarrow> http_response option \<times> 's"

record 'a json =
  js_write :: "'a \<Rightarrow> string"
  js_read :: "string \<Rightarrow> 'a option"

definition newline :: string where
  "newline = [CHR 0x0A]"

definition http_error :: "string \<Rightarrow> int \<Rightarrow> http_response option" where
  "http_error m status =
     Some \<lparr>hs_status = status, hs_type = ''text/plain; charset=utf-8'', hs_body = m @ newline\<rparr>"

text \<open>The encoder of a response ends it with a newline.\<close>

definition json_ok :: "'a json \<Rightarrow> 'a \<Rightarrow> http_response option" where
  "json_ok j x = Some \<lparr>hs_status = 200, hs_type = ''application/json'', hs_body = js_write j x @ newline\<rparr>"

definition header_get :: "http_request \<Rightarrow> string \<Rightarrow> string" where
  "header_get rq k = (case map_of (hq_headers rq) k of None \<Rightarrow> [] | Some x \<Rightarrow> x)"

section \<open>Headers (propagation.go)\<close>

definition HeaderTraceID :: string where
  "HeaderTraceID = ''X-Causalens-Trace-Id''"

definition HeaderExecutionID :: string where
  "HeaderExecutionID = ''X-Causalens-Execution-Id''"

definition HeaderLogicalOperationID :: string where
  "HeaderLogicalOperationID = ''X-Causalens-Logical-Operation-Id''"

definition HeaderParentEventID :: string where
  "HeaderParentEventID = ''X-Causalens-Parent-Event-Id''"

text \<open>What the transport sends: no control characters but the tab, and no blanks around the value.\<close>

definition header_valid :: "string \<Rightarrow> bool" where
  "header_valid x \<longleftrightarrow> list_all (\<lambda>c. c = CHR 0x09 \<or> 32 \<le> (of_char c :: nat) \<and> (of_char c :: nat) \<noteq> 127) x"

definition header_blank :: "char \<Rightarrow> bool" where
  "header_blank c \<longleftrightarrow> c = CHR 0x20 \<or> c = CHR 0x09"

definition header_trim :: "string \<Rightarrow> string" where
  "header_trim x = rev (dropWhile header_blank (rev (dropWhile header_blank x)))"

section \<open>One exchange\<close>

datatype fate = Delivered | NotSent | AnswerLost

definition exchange :: "fate \<Rightarrow> 's handler \<Rightarrow> http_request \<Rightarrow> 's \<Rightarrow> http_response option \<times> 's" where
  "exchange f h rq s =
     (if list_ex (\<lambda>kv. \<not> header_valid (snd kv)) (hq_headers rq) then (None, s)
      else (let arrived = rq\<lparr>hq_headers := map (map_prod id header_trim) (hq_headers rq)\<rparr>
        in case f of
          NotSent \<Rightarrow> (None, s)
        | Delivered \<Rightarrow> h arrived s
        | AnswerLost \<Rightarrow> (None, snd (h arrived s))))"

type_synonym 's transport = "http_request \<Rightarrow> 's \<Rightarrow> http_response option \<times> 's"

datatype client_error = BuildRequest | RequestFailed | UnexpectedStatus int | DecodeResponse

text \<open>What every client does: it posts JSON and wants the status 200. \<open>ok\<close> says whether the base URL parses.\<close>

definition post_json :: "bool \<Rightarrow> 's transport \<Rightarrow> string \<Rightarrow> (string \<times> string) list \<Rightarrow> string \<Rightarrow> 's
    \<Rightarrow> (client_error + http_response) \<times> 's" where
  "post_json ok send path headers body s =
     (if \<not> ok then (Inl BuildRequest, s)
      else (case send \<lparr>hq_method = ''POST'', hq_path = path, hq_query = [],
                hq_headers = (''Content-Type'', ''application/json'') # headers, hq_length = int (length body),
                hq_body = body\<rparr> s of
          (None, s') \<Rightarrow> (Inl RequestFailed, s')
        | (Some r, s') \<Rightarrow> (if hs_status r \<noteq> 200 then Inl (UnexpectedStatus (hs_status r)) else Inr r, s')))"

definition read_answer :: "'a json \<Rightarrow> (client_error + http_response) \<times> 's \<Rightarrow> (client_error + 'a) \<times> 's" where
  "read_answer j x =
     (case x of
        (Inl e, s) \<Rightarrow> (Inl e, s)
      | (Inr r, s) \<Rightarrow> (case js_read j (hs_body r) of None \<Rightarrow> Inl DecodeResponse | Some a \<Rightarrow> Inr a, s))"

section \<open>Handlers\<close>

text \<open>What the correlating handlers have in common: only POST, a JSON body, the ids from the headers, the operation,
  and its answer as JSON or its error as text.\<close>

definition serve :: "'q json \<Rightarrow> ('q \<Rightarrow> 's \<Rightarrow> (string + 'a) \<times> 's) \<Rightarrow> 'r json \<Rightarrow> ('a \<Rightarrow> 'r) \<Rightarrow> 's handler" where
  "serve jq run jr wire rq s =
     (if hq_method rq \<noteq> ''POST'' then (http_error ''method not allowed'' 405, s)
      else case js_read jq (hq_body rq) of
          None \<Rightarrow> (http_error ''invalid request body'' 400, s)
        | Some q \<Rightarrow>
          (case run q s of
             (Inl m, s') \<Rightarrow> (http_error m 500, s')
           | (Inr a, s') \<Rightarrow> (json_ok jr (wire a), s')))"

definition on_path :: "string \<Rightarrow> 's handler \<Rightarrow> 's handler \<Rightarrow> 's handler" where
  "on_path p h rest rq = (if hq_path rq = p then h rq else rest rq)"

definition no_route :: "'s handler" where
  "no_route rq s = (http_error ''404 page not found'' 404, s)"

text \<open>The ids that travel in headers.\<close>

record correlation =
  cor_execution :: string
  cor_trace :: string
  cor_logical :: string
  cor_parent :: string

definition correlation_headers :: "correlation \<Rightarrow> (string \<times> string) list" where
  "correlation_headers c =
     [(HeaderExecutionID, cor_execution c), (HeaderTraceID, cor_trace c),
      (HeaderLogicalOperationID, cor_logical c), (HeaderParentEventID, cor_parent c)]"

definition correlation_of :: "http_request \<Rightarrow> correlation" where
  "correlation_of rq =
     \<lparr>cor_execution = header_get rq HeaderExecutionID, cor_trace = header_get rq HeaderTraceID,
       cor_logical = header_get rq HeaderLogicalOperationID, cor_parent = header_get rq HeaderParentEventID\<rparr>"

section \<open>Payment (demo-payment/service/http.go)\<close>

record authorize_request =
  au_ids :: correlation
  au_attempt :: int

record authorize_wire_request =
  aq_attempt :: int

record authorize_wire_response =
  ar_status :: string

record config_latency_wire =
  cl_latency :: int

record payment_json =
  pj_request :: "authorize_wire_request json"
  pj_response :: "authorize_wire_response json"
  pj_latency :: "config_latency_wire json"

text \<open>The operations of the service the handler is made for, on the state of its process.\<close>

record 's payment_service =
  ps_authorize :: "authorize_request \<Rightarrow> 's \<Rightarrow> (string + string) \<times> 's"
  ps_set_latency :: "int \<Rightarrow> 's \<Rightarrow> 's"
  ps_latency :: "'s \<Rightarrow> int"

definition config_latency :: "payment_json \<Rightarrow> 's payment_service \<Rightarrow> 's handler" where
  "config_latency J svc rq s =
     (if hq_method rq \<noteq> ''POST'' then (http_error ''method not allowed'' 405, s)
      else case js_read (pj_latency J) (hq_body rq) of
          None \<Rightarrow> (http_error ''invalid request body'' 400, s)
        | Some wire \<Rightarrow>
          if cl_latency wire < 1 \<or> 10000 < cl_latency wire
          then (http_error ''latency_ms must be between 1 and 10000'' 400, s)
          else (let s' = ps_set_latency svc (cl_latency wire) s
            in (json_ok (pj_latency J) \<lparr>cl_latency = ps_latency svc s'\<rparr>, s')))"

definition authorize_route :: "payment_json \<Rightarrow> 's payment_service \<Rightarrow> 's handler" where
  "authorize_route J svc rq =
     serve (pj_request J) (\<lambda>wire. ps_authorize svc \<lparr>au_ids = correlation_of rq, au_attempt = aq_attempt wire\<rparr>)
       (pj_response J) (\<lambda>status. \<lparr>ar_status = status\<rparr>) rq"

definition payment_handler :: "payment_json \<Rightarrow> 's payment_service \<Rightarrow> 's handler" where
  "payment_handler J svc =
     on_path ''/config/latency'' (config_latency J svc) (on_path ''/authorize'' (authorize_route J svc) no_route)"

definition client_SetLatency :: "payment_json \<Rightarrow> bool \<Rightarrow> 's transport \<Rightarrow> int \<Rightarrow> 's \<Rightarrow> client_error option \<times> 's" where
  "client_SetLatency J ok send ms s =
     (case post_json ok send ''/config/latency'' [] (js_write (pj_latency J) \<lparr>cl_latency = ms\<rparr>) s of
        (Inl e, s') \<Rightarrow> (Some e, s')
      | (Inr _, s') \<Rightarrow> (None, s'))"

definition client_Authorize :: "payment_json \<Rightarrow> bool \<Rightarrow> 's transport \<Rightarrow> authorize_request \<Rightarrow> 's \<Rightarrow> (client_error + string) \<times> 's" where
  "client_Authorize J ok send q s =
     map_prod (map_sum id ar_status) id
       (read_answer (pj_response J)
         (post_json ok send ''/authorize'' (correlation_headers (au_ids q))
           (js_write (pj_request J) \<lparr>aq_attempt = au_attempt q\<rparr>) s))"

section \<open>Ledger (demo-ledger/service/http.go)\<close>

record commit_request =
  cq_ids :: correlation
  cq_checkout :: string
  cq_attempt :: int

record commit_result =
  cr_effect :: string
  cr_committed :: bool

record commit_wire_request =
  cw_checkout :: string
  cw_attempt :: int

record commit_wire_response =
  cw_effect :: string
  cw_committed :: bool

record ledger_json =
  lj_request :: "commit_wire_request json"
  lj_response :: "commit_wire_response json"

definition ledger_handler :: "ledger_json \<Rightarrow> (commit_request \<Rightarrow> 's \<Rightarrow> (string + commit_result) \<times> 's) \<Rightarrow> 's handler" where
  "ledger_handler J run =
     on_path ''/effects''
       (\<lambda>rq. serve (lj_request J)
          (\<lambda>wire. run \<lparr>cq_ids = correlation_of rq, cq_checkout = cw_checkout wire, cq_attempt = cw_attempt wire\<rparr>)
          (lj_response J) (\<lambda>r. \<lparr>cw_effect = cr_effect r, cw_committed = cr_committed r\<rparr>) rq)
       no_route"

definition client_Commit :: "ledger_json \<Rightarrow> bool \<Rightarrow> 's transport \<Rightarrow> commit_request \<Rightarrow> 's \<Rightarrow> (client_error + commit_result) \<times> 's" where
  "client_Commit J ok send q s =
     map_prod (map_sum id (\<lambda>r. \<lparr>cr_effect = cw_effect r, cr_committed = cw_committed r\<rparr>)) id
       (read_answer (lj_response J)
         (post_json ok send ''/effects'' (correlation_headers (cq_ids q))
           (js_write (lj_request J) \<lparr>cw_checkout = cq_checkout q, cw_attempt = cq_attempt q\<rparr>) s))"

section \<open>Checkout and gateway (service/http.go of demo-checkout and demo-gateway)\<close>

record process_request =
  pq_ids :: correlation
  pq_checkout :: string

record process_wire_request =
  pw_checkout :: string

record process_wire_response =
  pw_attempts :: int

record checkout_json =
  cj_request :: "process_wire_request json"
  cj_response :: "process_wire_response json"

definition checkout_handler :: "checkout_json \<Rightarrow> (process_request \<Rightarrow> 's \<Rightarrow> (string + int) \<times> 's) \<Rightarrow> 's handler" where
  "checkout_handler J run =
     on_path ''/checkout''
       (\<lambda>rq. serve (cj_request J) (\<lambda>wire. run \<lparr>pq_ids = correlation_of rq, pq_checkout = pw_checkout wire\<rparr>)
          (cj_response J) (\<lambda>n. \<lparr>pw_attempts = n\<rparr>) rq)
       no_route"

definition client_Process :: "checkout_json \<Rightarrow> bool \<Rightarrow> 's transport \<Rightarrow> process_request \<Rightarrow> 's \<Rightarrow> (client_error + int) \<times> 's" where
  "client_Process J ok send q s =
     map_prod (map_sum id pw_attempts) id
       (read_answer (cj_response J)
         (post_json ok send ''/checkout'' (correlation_headers (pq_ids q))
           (js_write (cj_request J) \<lparr>pw_checkout = pq_checkout q\<rparr>) s))"

record gateway_wire_request =
  gw_checkout :: string
  gw_amount :: int
  gw_currency :: string
  gw_scenario :: string

record gateway_json =
  gj_request :: "gateway_wire_request json"
  gj_response :: "gateway_result json"

definition empty_wire :: gateway_wire_request where
  "empty_wire = \<lparr>gw_checkout = [], gw_amount = 0, gw_currency = [], gw_scenario = []\<rparr>"

text \<open>A request with no body is a request with nothing set.\<close>

definition gateway_handler :: "gateway_json \<Rightarrow> (gateway_request \<Rightarrow> 's \<Rightarrow> (string + gateway_result) \<times> 's) \<Rightarrow> 's handler" where
  "gateway_handler J run =
     on_path ''/checkout''
       (\<lambda>rq. serve
          (if hq_length rq = 0 then (gj_request J)\<lparr>js_read := (\<lambda>_. Some empty_wire)\<rparr> else gj_request J)
          (\<lambda>wire. run \<lparr>gq_checkout = gw_checkout wire, gq_scenario = gw_scenario wire\<rparr>)
          (gj_response J) (\<lambda>r. r) rq)
       no_route"

section \<open>The sink that posts to the core API (sink.go)\<close>

definition http_emit :: "(execution_event \<Rightarrow> string option) \<Rightarrow> bool \<Rightarrow> 's transport \<Rightarrow> string \<Rightarrow> 's sink" where
  "http_emit marshal ok send path e s =
     (case marshal e of
        None \<Rightarrow> (Some ''capture: marshal event'', s)
      | Some body \<Rightarrow>
        if \<not> ok then (Some ''capture: build request'', s)
        else (case send \<lparr>hq_method = ''POST'', hq_path = path, hq_query = [],
                  hq_headers = [(''Content-Type'', ''application/json'')], hq_length = int (length body), hq_body = body\<rparr> s of
            (None, s') \<Rightarrow> (Some ''capture: post event'', s')
          | (Some r, s') \<Rightarrow>
            (if hs_status r \<noteq> 202
             then Some (''capture: unexpected status '' @ int_dec (hs_status r) @ '' posting event '' @ ev_id e)
             else None, s')))"

text \<open>The core API as a handler: \<open>writeJSON\<close> sends the status and the encoded value.\<close>

definition api_handler :: "(api_body \<Rightarrow> string) \<Rightarrow> env \<Rightarrow> api_deps \<Rightarrow> api handler" where
  "api_handler encode v d rq a =
     map_prod
       (map_option (\<lambda>(status, body). \<lparr>hs_status = status,
          hs_type = (case body of BodyText _ \<Rightarrow> ''text/plain; charset=utf-8'' | _ \<Rightarrow> ''application/json''),
          hs_body = encode body @ newline\<rparr>)) id
       (handlerWithDeps v d \<lparr>rq_method = hq_method rq, rq_path = hq_path rq, rq_query = hq_query rq, rq_body = hq_body rq\<rparr> a)"

section \<open>The operations behind the handlers\<close>

text \<open>What a service records with: its recorder, its generator and its sink.\<close>

record 'k recording =
  rg_rec :: recorder
  rg_ids :: id_generator
  rg_sink :: 'k

definition record_in :: "'k sink \<Rightarrow> civil \<Rightarrow> record_input \<Rightarrow> 'k recording \<Rightarrow> (record_error + execution_event) \<times> 'k recording" where
  "record_in emit now i g =
     (case Record (Some emit) now i (rg_rec g) (rg_ids g) (rg_sink g) of
        (res, r, ids, k) \<Rightarrow> (res, \<lparr>rg_rec = r, rg_ids = ids, rg_sink = k\<rparr>))"

definition request_input :: "correlation \<Rightarrow> int \<Rightarrow> string \<Rightarrow> operation_kind \<Rightarrow> event_type \<Rightarrow> event_status \<Rightarrow> record_input" where
  "request_input c a name kind ty st =
     \<lparr>ri_execution = cor_execution c, ri_trace = cor_trace c, ri_parent = cor_parent c, ri_run = [],
       ri_operation = \<lparr>op_name = name, op_kind = kind\<rparr>, ri_type = ty, ri_attempt = a,
       ri_logical = cor_logical c, ri_duration = None, ri_status = st, ri_attributes = None\<rparr>"

text \<open>\<open>Authorize\<close> and \<open>Commit\<close> as a caller sees them, when no other goroutine comes in between.\<close>

definition Authorize :: "'k sink \<Rightarrow> civil \<Rightarrow> civil \<Rightarrow> authorize_request \<Rightarrow> payment \<times> 'k recording
    \<Rightarrow> (service_error + string) \<times> payment \<times> 'k recording" where
  "Authorize emit now now' q s =
     (case s of (p, g) \<Rightarrow>
       if au_attempt q < 1 then (Inl (ServiceError ''payment: attempt must be >= 1''), s)
       else (let latency = pay_latency p; p' = p\<lparr>pay_attempts := pay_attempts p + 1\<rparr>
         in case record_in emit now
              ((request_input (au_ids q) (au_attempt q) ''authorize'' OperationDependency EventStart EventRunning)
                 \<lparr>ri_attributes := Some [(''configured_latency_ms'', go_int latency)]\<rparr>) g of
            (Inl e, g') \<Rightarrow> (Inl (RecordFailed ''payment: record start event'' e), p', g')
          | (Inr _, g') \<Rightarrow>
            (case record_in emit now'
                ((request_input (au_ids q) (au_attempt q) ''authorize'' OperationDependency EventComplete EventSuccess)
                   \<lparr>ri_duration := Some latency\<rparr>) g' of
               (Inl e, g'') \<Rightarrow> (Inl (RecordFailed ''payment: record complete event'' e), p', g'')
             | (Inr _, g'') \<Rightarrow> (Inr ''APPROVED'', p', g''))))"

definition Commit :: "'k sink \<Rightarrow> civil \<Rightarrow> commit_request \<Rightarrow> ledger \<times> 'k recording
    \<Rightarrow> (service_error + commit_result) \<times> ledger \<times> 'k recording" where
  "Commit emit now q s =
     (case s of (l, g) \<Rightarrow>
       if cq_attempt q < 1 then (Inl (ServiceError ''ledger: attempt must be >= 1''), s)
       else (case commit_effect (cq_checkout q) (cq_attempt q) l of (committed, l') \<Rightarrow>
         (let k = EffectKey (cq_checkout q) (cq_attempt q)
          in case record_in emit now
               ((request_input (cq_ids q) (cq_attempt q) ''ledger.commit'' OperationSideEffect EventEffect
                    (if committed then EventSuccess else EventBlocked))
                  \<lparr>ri_attributes := Some [(''effect_id'', VStr k), (''effect_committed'', VBool committed)]\<rparr>) g of
              (Inl e, g') \<Rightarrow> (Inl (RecordFailed ''ledger: record effect event'' e), l', g')
            | (Inr _, g') \<Rightarrow> (Inr \<lparr>cr_effect = k, cr_committed = committed\<rparr>, l', g'))))"

end
