(* ===== verification/HttpProps.thy ===== *)
theory HttpProps
  imports Http CoreApiProps
begin

text \<open>
  What HTTP between the processes keeps: a client behaves like the operation behind the handler, an attempt over HTTP
  like its steps in the machine, the latency of the payment stays in its bounds, and the sink that posts to the core
  API stores an event exactly when it says so.
\<close>

section \<open>A hop\<close>

definition header_safe :: "string \<Rightarrow> bool" where
  "header_safe x \<longleftrightarrow> header_valid x \<and> header_trim x = x"

definition ids_safe :: "correlation \<Rightarrow> bool" where
  "ids_safe c \<longleftrightarrow> header_safe (cor_execution c) \<and> header_safe (cor_trace c) \<and> header_safe (cor_logical c)
     \<and> header_safe (cor_parent c)"

definition json_reads :: "'a json \<Rightarrow> 'a \<Rightarrow> bool" where
  "json_reads j x \<longleftrightarrow> js_read j (js_write j x) = Some x \<and> js_read j (js_write j x @ newline) = Some x"

text \<open>What a client answers when the operation answers \<open>direct\<close>.\<close>

definition hop_result :: "fate \<Rightarrow> (string + 'a) \<times> 's \<Rightarrow> 's \<Rightarrow> (client_error + 'a) \<times> 's" where
  "hop_result f direct s =
     (case f of
        Delivered \<Rightarrow> map_prod (map_sum (\<lambda>_. client_error.UnexpectedStatus 500) id) id direct
      | NotSent \<Rightarrow> (Inl RequestFailed, s)
      | AnswerLost \<Rightarrow> (Inl RequestFailed, snd direct))"

lemma content_type_safe: "header_valid ''application/json''" "header_trim ''application/json'' = ''application/json''"
  by code_simp+

lemma header_names: "distinct [HeaderTraceID, HeaderExecutionID, HeaderLogicalOperationID, HeaderParentEventID, ''Content-Type'']"
  by (simp add: HeaderTraceID_def HeaderExecutionID_def HeaderLogicalOperationID_def HeaderParentEventID_def)

lemma exchange_safe:
  assumes "\<forall>kv\<in>set (hq_headers rq). header_safe (snd kv)"
  shows "exchange f h rq s = (case f of NotSent \<Rightarrow> (None, s) | Delivered \<Rightarrow> h rq s | AnswerLost \<Rightarrow> (None, snd (h rq s)))"
proof -
  have "map (map_prod id header_trim) (hq_headers rq) = hq_headers rq"
    by (rule map_idI) (use assms in \<open>auto simp: header_safe_def\<close>)
  moreover have "\<not> list_ex (\<lambda>kv. \<not> header_valid (snd kv)) (hq_headers rq)"
    using assms by (auto simp: list_ex_iff header_safe_def)
  ultimately show ?thesis by (cases f) (simp_all add: exchange_def Let_def)
qed

definition wire_request :: "string \<Rightarrow> (string \<times> string) list \<Rightarrow> string \<Rightarrow> http_request" where
  "wire_request path headers body = \<lparr>hq_method = ''POST'', hq_path = path, hq_query = [],
     hq_headers = (''Content-Type'', ''application/json'') # headers, hq_length = int (length body), hq_body = body\<rparr>"

lemma wire_request_simps [simp]:
  "hq_method (wire_request p hs b) = ''POST''" "hq_path (wire_request p hs b) = p" "hq_body (wire_request p hs b) = b"
  "hq_headers (wire_request p hs b) = (''Content-Type'', ''application/json'') # hs"
  by (simp_all add: wire_request_def)

lemma correlation_arrives [simp]: "correlation_of (wire_request p (correlation_headers c) b) = c"
  using header_names by (simp add: correlation_of_def header_get_def correlation_headers_def eq_commute)

lemma correlation_safe:
  "ids_safe c \<Longrightarrow> \<forall>kv\<in>set (hq_headers (wire_request p (correlation_headers c) b)). header_safe (snd kv)"
  by (simp add: ids_safe_def correlation_headers_def header_safe_def content_type_safe)

lemma post_json_safe:
  assumes "\<forall>kv\<in>set (hq_headers (wire_request p hs b)). header_safe (snd kv)"
  shows "post_json True (exchange f h) p hs b s =
    (case f of NotSent \<Rightarrow> (Inl RequestFailed, s) | AnswerLost \<Rightarrow> (Inl RequestFailed, snd (h (wire_request p hs b) s))
     | Delivered \<Rightarrow> (case h (wire_request p hs b) s of (None, s') \<Rightarrow> (Inl RequestFailed, s')
         | (Some r, s') \<Rightarrow> (if hs_status r \<noteq> 200 then Inl (client_error.UnexpectedStatus (hs_status r)) else Inr r, s')))"
  using exchange_safe [OF assms, of f h s]
  by (cases f) (simp_all add: post_json_def wire_request_def)

text \<open>The client's request against the handler that serves it.\<close>

lemma hop:
  assumes "\<forall>kv\<in>set (hq_headers (wire_request p hs (js_write jq q))). header_safe (snd kv)" and "json_reads jq q"
    and "h (wire_request p hs (js_write jq q)) = serve jq run jr wire (wire_request p hs (js_write jq q))"
    and "\<And>a s'. run q s = (Inr a, s') \<Longrightarrow> json_reads jr (wire a) \<and> unwire (wire a) = a"
  shows "map_prod (map_sum id unwire) id (read_answer jr (post_json True (exchange f h) p hs (js_write jq q) s))
    = hop_result f (run q s) s"
proof (cases f)
  case Delivered
  obtain res s' where run: "run q s = (res, s')" by fastforce
  with assms Delivered show ?thesis
    by (cases res) (simp_all add: post_json_safe [OF assms(1)] serve_def json_reads_def http_error_def json_ok_def
        read_answer_def hop_result_def)
next
  case AnswerLost
  obtain res s' where run: "run q s = (res, s')" by fastforce
  with assms AnswerLost show ?thesis
    by (cases res) (simp_all add: post_json_safe [OF assms(1)] serve_def json_reads_def read_answer_def hop_result_def)
qed (simp add: post_json_safe [OF assms(1)] read_answer_def hop_result_def)

lemma request_eta [simp]:
  "\<lparr>au_ids = au_ids q, au_attempt = au_attempt q\<rparr> = q"
  "\<lparr>cq_ids = cq_ids r, cq_checkout = cq_checkout r, cq_attempt = cq_attempt r\<rparr> = r"
  "\<lparr>pq_ids = pq_ids x, pq_checkout = pq_checkout x\<rparr> = x"
  by (cases q, simp) (cases r, simp, cases x, simp)

lemma Authorize_hop:
  assumes "ids_safe (au_ids q)" and "json_reads (pj_request J) \<lparr>aq_attempt = au_attempt q\<rparr>"
    and "\<And>a s'. ps_authorize svc q s = (Inr a, s') \<Longrightarrow> json_reads (pj_response J) \<lparr>ar_status = a\<rparr>"
  shows "client_Authorize J True (exchange f (payment_handler J svc)) q s = hop_result f (ps_authorize svc q s) s"
proof -
  let ?rq = "wire_request ''/authorize'' (correlation_headers (au_ids q)) (js_write (pj_request J) \<lparr>aq_attempt = au_attempt q\<rparr>)"
  let ?run = "\<lambda>wire. ps_authorize svc \<lparr>au_ids = au_ids q, au_attempt = aq_attempt wire\<rparr>"
  have "payment_handler J svc ?rq = serve (pj_request J) ?run (pj_response J) (\<lambda>a. \<lparr>ar_status = a\<rparr>) ?rq"
    by (simp add: payment_handler_def on_path_def authorize_route_def)
  from hop [where h = "payment_handler J svc" and jq = "pj_request J" and run = ?run and q = "\<lparr>aq_attempt = au_attempt q\<rparr>"
      and unwire = ar_status and f = f and s = s, OF correlation_safe [OF assms(1)] assms(2) this] assms(3) show ?thesis
    by (simp add: client_Authorize_def)
qed

lemma Commit_hop:
  assumes "ids_safe (cq_ids q)" and "json_reads (lj_request J) \<lparr>cw_checkout = cq_checkout q, cw_attempt = cq_attempt q\<rparr>"
    and "\<And>a s'. run q s = (Inr a, s') \<Longrightarrow> json_reads (lj_response J) \<lparr>cw_effect = cr_effect a, cw_committed = cr_committed a\<rparr>"
  shows "client_Commit J True (exchange f (ledger_handler J run)) q s = hop_result f (run q s) s"
proof -
  let ?rq = "wire_request ''/effects'' (correlation_headers (cq_ids q))
    (js_write (lj_request J) \<lparr>cw_checkout = cq_checkout q, cw_attempt = cq_attempt q\<rparr>)"
  let ?run = "\<lambda>wire. run \<lparr>cq_ids = cq_ids q, cq_checkout = cw_checkout wire, cq_attempt = cw_attempt wire\<rparr>"
  have "ledger_handler J run ?rq = serve (lj_request J) ?run (lj_response J)
      (\<lambda>a. \<lparr>cw_effect = cr_effect a, cw_committed = cr_committed a\<rparr>) ?rq"
    by (simp add: ledger_handler_def on_path_def)
  from hop [where h = "ledger_handler J run" and jq = "lj_request J" and run = ?run
      and q = "\<lparr>cw_checkout = cq_checkout q, cw_attempt = cq_attempt q\<rparr>" and f = f and s = s
      and unwire = "\<lambda>r. \<lparr>cr_effect = cw_effect r, cr_committed = cw_committed r\<rparr>",
      OF correlation_safe [OF assms(1)] assms(2) this] assms(3) show ?thesis by (simp add: client_Commit_def)
qed

lemma Process_hop:
  assumes "ids_safe (pq_ids q)" and "json_reads (cj_request J) \<lparr>pw_checkout = pq_checkout q\<rparr>"
    and "\<And>a s'. run q s = (Inr a, s') \<Longrightarrow> json_reads (cj_response J) \<lparr>pw_attempts = a\<rparr>"
  shows "client_Process J True (exchange f (checkout_handler J run)) q s = hop_result f (run q s) s"
proof -
  let ?rq = "wire_request ''/checkout'' (correlation_headers (pq_ids q)) (js_write (cj_request J) \<lparr>pw_checkout = pq_checkout q\<rparr>)"
  let ?run = "\<lambda>wire. run \<lparr>pq_ids = pq_ids q, pq_checkout = pw_checkout wire\<rparr>"
  have "checkout_handler J run ?rq = serve (cj_request J) ?run (cj_response J) (\<lambda>a. \<lparr>pw_attempts = a\<rparr>) ?rq"
    by (simp add: checkout_handler_def on_path_def)
  from hop [where h = "checkout_handler J run" and jq = "cj_request J" and run = ?run and q = "\<lparr>pw_checkout = pq_checkout q\<rparr>"
      and unwire = pw_attempts and f = f and s = s, OF correlation_safe [OF assms(1)] assms(2) this] assms(3) show ?thesis
    by (simp add: client_Process_def)
qed

text \<open>The HTTP clients of the demo services are the operations behind them. For ids that a header can carry and values
  the JSON can carry, a client answers what the operation answers and has its effect, exactly once; an error of the operation
  is the status 500. When the connection fails the client answers an error, and the operation ran once or not at all.\<close>

lemma http_clients_transparent:
  assumes "ids_safe (au_ids qa)" and "ids_safe (cq_ids qc)" and "ids_safe (pq_ids qp)"
    and "json_reads (pj_request JP) \<lparr>aq_attempt = au_attempt qa\<rparr>"
    and "json_reads (lj_request JL) \<lparr>cw_checkout = cq_checkout qc, cw_attempt = cq_attempt qc\<rparr>"
    and "json_reads (cj_request JC) \<lparr>pw_checkout = pq_checkout qp\<rparr>"
    and "\<And>a s'. ps_authorize svc qa s = (Inr a, s') \<Longrightarrow> json_reads (pj_response JP) \<lparr>ar_status = a\<rparr>"
    and "\<And>a l'. commit qc l = (Inr a, l') \<Longrightarrow> json_reads (lj_response JL) \<lparr>cw_effect = cr_effect a, cw_committed = cr_committed a\<rparr>"
    and "\<And>a c'. process qp c = (Inr a, c') \<Longrightarrow> json_reads (cj_response JC) \<lparr>pw_attempts = a\<rparr>"
  shows "client_Authorize JP True (exchange f (payment_handler JP svc)) qa s = hop_result f (ps_authorize svc qa s) s
    \<and> client_Commit JL True (exchange f (ledger_handler JL commit)) qc l = hop_result f (commit qc l) l
    \<and> client_Process JC True (exchange f (checkout_handler JC process)) qp c = hop_result f (process qp c) c"
  using assms by (simp add: Authorize_hop Commit_hop Process_hop)

section \<open>An attempt over HTTP\<close>

text \<open>The processes of the payment and of the ledger as parts of the machine of one checkout.\<close>

definition at_payment :: "(payment \<times> 'k recording \<Rightarrow> 'a \<times> payment \<times> 'k recording) \<Rightarrow> 'k world \<Rightarrow> 'a \<times> 'k world" where
  "at_payment run w =
     (case run (w_payment w, \<lparr>rg_rec = w_recs w Payment, rg_ids = w_ids w, rg_sink = w_sink w\<rparr>) of
        (res, p, g) \<Rightarrow> (res, w\<lparr>w_payment := p, w_recs := (w_recs w)(Payment := rg_rec g), w_ids := rg_ids g, w_sink := rg_sink g\<rparr>))"

definition at_ledger :: "(ledger \<times> 'k recording \<Rightarrow> 'a \<times> ledger \<times> 'k recording) \<Rightarrow> 'k world \<Rightarrow> 'a \<times> 'k world" where
  "at_ledger run w =
     (case run (w_ledger w, \<lparr>rg_rec = w_recs w Ledger, rg_ids = w_ids w, rg_sink = w_sink w\<rparr>) of
        (res, l, g) \<Rightarrow> (res, w\<lparr>w_ledger := l, w_recs := (w_recs w)(Ledger := rg_rec g), w_ids := rg_ids g, w_sink := rg_sink g\<rparr>))"

definition call_ids :: "call \<Rightarrow> correlation" where
  "call_ids c = \<lparr>cor_execution = ca_execution c, cor_trace = ca_trace c, cor_logical = ca_logical c, cor_parent = ca_start c\<rparr>"

lemma record_at_payment:
  "record_as emit now Payment i w = (case record_in emit now i \<lparr>rg_rec = w_recs w Payment, rg_ids = w_ids w, rg_sink = w_sink w\<rparr> of
     (res, g) \<Rightarrow> (res, w\<lparr>w_recs := (w_recs w)(Payment := rg_rec g), w_ids := rg_ids g, w_sink := rg_sink g\<rparr>))"
  by (simp add: record_as_def record_in_def split: prod.split)

lemma record_at_ledger:
  "record_as emit now Ledger i w = (case record_in emit now i \<lparr>rg_rec = w_recs w Ledger, rg_ids = w_ids w, rg_sink = w_sink w\<rparr> of
     (res, g) \<Rightarrow> (res, w\<lparr>w_recs := (w_recs w)(Ledger := rg_rec g), w_ids := rg_ids g, w_sink := rg_sink g\<rparr>))"
  by (simp add: record_as_def record_in_def split: prod.split)

lemma base_request: "base_input c (ca_start c) name kind ty st a = request_input (call_ids c) a name kind ty st"
  by (simp add: base_input_def request_input_def call_ids_def)

lemma Authorize_steps:
  assumes "w_attempt w a = Authorizing"
  shows "attempt_step emit n2 a (attempt_step emit n1 a (attempt_step emit n0 a w)) =
    (case at_payment (Authorize emit n1 n2 \<lparr>au_ids = call_ids (w_call w), au_attempt = a\<rparr>) w of
       (Inl e, w') \<Rightarrow> set_attempt a (Ended (Some e)) w' | (Inr _, w') \<Rightarrow> set_attempt a Approved w')"
proof (cases "a < 1")
  case True
  with assms show ?thesis by (simp add: attempt_step_def set_attempt_def at_payment_def Authorize_def)
next
  case False
  let ?c = "w_call w" and ?p = "w_payment w"
  let ?g = "\<lparr>rg_rec = w_recs w Payment, rg_ids = w_ids w, rg_sink = w_sink w\<rparr>"
  let ?i = "payment_start_input ?c a (pay_latency ?p)" and ?j = "payment_complete_input ?c a (pay_latency ?p)"
  obtain r1 g1 where g1: "record_in emit n1 ?i ?g = (r1, g1)" by fastforce
  obtain r2 g2 where g2: "record_in emit n2 ?j g1 = (r2, g2)" by fastforce
  have g1_eta: "\<lparr>rg_rec = rg_rec g1, rg_ids = rg_ids g1, rg_sink = rg_sink g1\<rparr> = g1" by simp
  note inputs = base_request [symmetric] payment_start_input_def [symmetric] payment_complete_input_def [symmetric]
  have run: "Authorize emit n1 n2 \<lparr>au_ids = call_ids ?c, au_attempt = a\<rparr> (?p, ?g) =
      (case r1 of Inl e \<Rightarrow> (Inl (RecordFailed ''payment: record start event'' e), ?p\<lparr>pay_attempts := pay_attempts ?p + 1\<rparr>, g1)
       | Inr _ \<Rightarrow> (case r2 of
           Inl e \<Rightarrow> (Inl (RecordFailed ''payment: record complete event'' e), ?p\<lparr>pay_attempts := pay_attempts ?p + 1\<rparr>, g2)
         | Inr _ \<Rightarrow> (Inr ''APPROVED'', ?p\<lparr>pay_attempts := pay_attempts ?p + 1\<rparr>, g2)))"
    using False g1 g2 by (simp add: Authorize_def Let_def inputs split: sum.split)
  have admit: "attempt_step emit n0 a w = set_attempt a (Admitted (pay_latency ?p))
      (w\<lparr>w_payment := ?p\<lparr>pay_attempts := pay_attempts ?p + 1\<rparr>\<rparr>)"
    using assms False by (simp add: attempt_step_def)
  show ?thesis
  proof (cases r1)
    case (Inl e)
    with g1 run show ?thesis unfolding admit
      by (simp add: attempt_step_def set_attempt_def at_payment_def record_at_payment)
  next
    case (Inr x)
    with g1 g2 run show ?thesis unfolding admit
      by (cases r2) (simp_all add: attempt_step_def set_attempt_def at_payment_def record_at_payment g1_eta)
  qed
qed

lemma Commit_steps:
  assumes "w_attempt w a = Approved"
  shows "attempt_step emit n1 a (attempt_step emit n0 a w) =
    (case at_ledger (Commit emit n1 \<lparr>cq_ids = call_ids (w_call w), cq_checkout = ca_checkout (w_call w), cq_attempt = a\<rparr>) w of
       (Inl e, w') \<Rightarrow> set_attempt a (Ended (Some e)) w' | (Inr _, w') \<Rightarrow> set_attempt a (Ended None) w')"
  using assms
  by (auto simp: attempt_step_def set_attempt_def at_ledger_def Commit_def record_at_ledger base_request
      effect_input_def Let_def split: prod.splits sum.splits)

definition world_payment :: "(service_error \<Rightarrow> string) \<Rightarrow> 'k sink \<Rightarrow> civil \<Rightarrow> civil \<Rightarrow> 'k world payment_service" where
  "world_payment say emit now now' =
     \<lparr>ps_authorize = (\<lambda>q w. map_prod (map_sum say id) id (at_payment (Authorize emit now now' q) w)),
       ps_set_latency = (\<lambda>ms w. w\<lparr>w_payment := SetLatencyMs ms (w_payment w)\<rparr>),
       ps_latency = (\<lambda>w. LatencyMs (w_payment w))\<rparr>"

definition world_commit :: "(service_error \<Rightarrow> string) \<Rightarrow> 'k sink \<Rightarrow> civil \<Rightarrow> commit_request \<Rightarrow> 'k world \<Rightarrow> (string + commit_result) \<times> 'k world" where
  "world_commit say emit now q w = map_prod (map_sum say id) id (at_ledger (Commit emit now q) w)"

text \<open>The goroutine of \<open>launchAttempt\<close> with the HTTP clients as its payment and its ledger: the error it reports.\<close>

definition remote_attempt :: "payment_json \<Rightarrow> ledger_json \<Rightarrow> (service_error \<Rightarrow> string) \<Rightarrow> 'k sink \<Rightarrow> civil \<times> civil \<times> civil
    \<Rightarrow> int \<Rightarrow> 'k world \<Rightarrow> client_error option \<times> 'k world" where
  "remote_attempt JP JL say emit ns a w =
     (case ns of (n1, n2, n3) \<Rightarrow>
       (case client_Authorize JP True (exchange Delivered (payment_handler JP (world_payment say emit n1 n2)))
            \<lparr>au_ids = call_ids (w_call w), au_attempt = a\<rparr> w of
          (Inl e, w') \<Rightarrow> (Some e, w')
        | (Inr _, w') \<Rightarrow>
          (case client_Commit JL True (exchange Delivered (ledger_handler JL (world_commit say emit n3)))
              \<lparr>cq_ids = call_ids (w_call w), cq_checkout = ca_checkout (w_call w), cq_attempt = a\<rparr> w' of
             (Inl e, w'') \<Rightarrow> (Some e, w'')
           | (Inr _, w'') \<Rightarrow> (None, w''))))"

lemma at_ledger_attempt: "at_ledger run (set_attempt a pc w) = map_prod id (set_attempt a pc) (at_ledger run w)"
  by (simp add: at_ledger_def set_attempt_def split: prod.split)

lemma parts_keep [simp]:
  "at_payment run w = (res, w') \<Longrightarrow> w_call w' = w_call w"
  by (auto simp: at_payment_def split: prod.splits)

lemma set_attempt_twice [simp]: "set_attempt a x (set_attempt a y w) = set_attempt a x w" "w_attempt (set_attempt a x w) a = x"
  "w_call (set_attempt a x w) = w_call w"
  by (simp_all add: set_attempt_def)

lemma ended_idle: "attempt_step emit n a (set_attempt a (Ended e) w) = set_attempt a (Ended e) w"
  by (simp add: attempt_step_def)

lemma Authorize_status: "Authorize emit n n' q s = (Inr x, s') \<Longrightarrow> x = ''APPROVED''"
  by (auto simp: Authorize_def Let_def split: prod.splits sum.splits if_splits)

lemma Commit_answer: "Commit emit n q s = (Inr x, s') \<Longrightarrow> cr_effect x = EffectKey (cq_checkout q) (cq_attempt q)"
  by (auto simp: Commit_def Let_def split: prod.splits sum.splits if_splits)

text \<open>C12: one payment attempt that goes over HTTP, by the clients and the handlers of payment and ledger, does to the
  services what its five steps of the machine do when nothing comes in between, and fails exactly when they fail.\<close>

theorem http_attempt_refines:
  assumes "w_attempt w a = Authorizing" and "ids_safe (call_ids (w_call w))"
    and "json_reads (pj_request JP) \<lparr>aq_attempt = a\<rparr>" and "json_reads (pj_response JP) \<lparr>ar_status = ''APPROVED''\<rparr>"
    and "json_reads (lj_request JL) \<lparr>cw_checkout = ca_checkout (w_call w), cw_attempt = a\<rparr>"
    and "\<And>b. json_reads (lj_response JL) \<lparr>cw_effect = EffectKey (ca_checkout (w_call w)) a, cw_committed = b\<rparr>"
    and "remote_attempt JP JL say emit (n1, n2, n4) a w = (err, v)"
  shows "\<exists>e. fold (\<lambda>n. attempt_step emit n a) [n0, n1, n2, n3, n4] w = set_attempt a (Ended e) v
    \<and> (err = None \<longleftrightarrow> e = None) \<and> (err \<noteq> None \<longrightarrow> err = Some (client_error.UnexpectedStatus 500))"
proof -
  let ?c = "w_call w"
  let ?q = "\<lparr>au_ids = call_ids ?c, au_attempt = a\<rparr>"
  let ?r = "\<lparr>cq_ids = call_ids ?c, cq_checkout = ca_checkout ?c, cq_attempt = a\<rparr>"
  obtain x w1 where x: "at_payment (Authorize emit n1 n2 ?q) w = (x, w1)" by fastforce
  obtain y w2 where y: "at_ledger (Commit emit n4 ?r) w1 = (y, w2)" by fastforce
  have "json_reads (pj_response JP) \<lparr>ar_status = s\<rparr>" if "ps_authorize (world_payment say emit n1 n2) ?q w = (Inr s, s')" for s s'
  proof -
    from that x have "x = Inr s" by (cases x) (simp_all add: world_payment_def)
    with x have "s = ''APPROVED''" by (auto simp: at_payment_def dest: Authorize_status split: prod.splits)
    with assms(4) show ?thesis by simp
  qed
  with assms(2,3) have "client_Authorize JP True (exchange Delivered (payment_handler JP (world_payment say emit n1 n2))) ?q w
      = hop_result Delivered (ps_authorize (world_payment say emit n1 n2) ?q w) w"
    by (intro Authorize_hop) simp_all
  then have pay: "client_Authorize JP True (exchange Delivered (payment_handler JP (world_payment say emit n1 n2))) ?q w
      = (map_sum (\<lambda>_. client_error.UnexpectedStatus 500) id x, w1)"
    using x by (cases x) (simp_all add: hop_result_def world_payment_def)
  have "json_reads (lj_response JL) \<lparr>cw_effect = cr_effect s, cw_committed = cr_committed s\<rparr>"
    if "world_commit say emit n4 ?r w1 = (Inr s, s')" for s s'
  proof -
    from that y have "y = Inr s" by (cases y) (simp_all add: world_commit_def)
    with y have "cr_effect s = EffectKey (ca_checkout ?c) a" by (auto simp: at_ledger_def dest: Commit_answer split: prod.splits)
    with assms(6) show ?thesis by simp
  qed
  with assms(2,5) have "client_Commit JL True (exchange Delivered (ledger_handler JL (world_commit say emit n4))) ?r w1
      = hop_result Delivered (world_commit say emit n4 ?r w1) w1"
    by (intro Commit_hop) simp_all
  then have led: "client_Commit JL True (exchange Delivered (ledger_handler JL (world_commit say emit n4))) ?r w1
      = (map_sum (\<lambda>_. client_error.UnexpectedStatus 500) id y, w2)"
    using y by (cases y) (simp_all add: hop_result_def world_commit_def)
  note first = Authorize_steps [OF assms(1), where emit = emit and ?n0.0 = n0 and ?n1.0 = n1 and ?n2.0 = n2, unfolded x]
  show ?thesis
  proof (cases x)
    case (Inl e)
    with first pay assms(7) show ?thesis by (auto simp: remote_attempt_def ended_idle)
  next
    case (Inr s)
    have "at_ledger (Commit emit n4 ?r) (set_attempt a Approved w1) = (y, set_attempt a Approved w2)"
      by (simp add: at_ledger_attempt y)
    with Commit_steps [of "set_attempt a Approved w1" a emit n4 n3] x
    have "attempt_step emit n4 a (attempt_step emit n3 a (set_attempt a Approved w1))
        = set_attempt a (Ended (case y of Inl e \<Rightarrow> Some e | Inr _ \<Rightarrow> None)) w2"
      by (cases y) simp_all
    with first Inr pay led assms(7) show ?thesis by (cases y) (auto simp: remote_attempt_def)
  qed
qed

section \<open>The latency control\<close>

definition payment_process :: "(service_error \<Rightarrow> string) \<Rightarrow> 'k sink \<Rightarrow> civil \<Rightarrow> civil \<Rightarrow> (payment \<times> 'k recording) payment_service" where
  "payment_process say emit now now' =
     \<lparr>ps_authorize = (\<lambda>q s. map_prod (map_sum say id) id (Authorize emit now now' q s)),
       ps_set_latency = (\<lambda>ms s. map_prod (SetLatencyMs ms) id s), ps_latency = (\<lambda>s. LatencyMs (fst s))\<rparr>"

text \<open>Requests one after the other, with the times their records see.\<close>

definition serve_all :: "payment_json \<Rightarrow> (service_error \<Rightarrow> string) \<Rightarrow> 'k sink \<Rightarrow> (civil \<times> civil \<times> http_request) list
    \<Rightarrow> payment \<times> 'k recording \<Rightarrow> payment \<times> 'k recording" where
  "serve_all J say emit =
     fold (\<lambda>(now, now', rq) s. snd (payment_handler J (payment_process say emit now now') rq s))"

lemma Authorize_latency: "Authorize emit now now' q s = (res, s') \<Longrightarrow> LatencyMs (fst s') = LatencyMs (fst s)"
  by (auto simp: Authorize_def LatencyMs_def Let_def split: prod.splits sum.splits if_splits)

lemma config_latency_cases:
  "LatencyMs (fst (snd (config_latency J (payment_process say emit now now') rq s))) =
     (case js_read (pj_latency J) (hq_body rq) of None \<Rightarrow> LatencyMs (fst s)
      | Some x \<Rightarrow> if hq_method rq = ''POST'' \<and> 1 \<le> cl_latency x \<and> cl_latency x \<le> 10000 then cl_latency x else LatencyMs (fst s))"
  by (cases s) (simp add: config_latency_def payment_process_def LatencyMs_def SetLatencyMs_def Let_def split: option.split)

lemma served_latency:
  "LatencyMs (fst (snd (payment_handler J (payment_process say emit now now') rq s))) =
     (if hq_path rq = ''/config/latency''
      then LatencyMs (fst (snd (config_latency J (payment_process say emit now now') rq s))) else LatencyMs (fst s))"
proof -
  have "LatencyMs (fst (snd (authorize_route J (payment_process say emit now now') rq s))) = LatencyMs (fst s)"
  proof (cases "js_read (pj_request J) (hq_body rq)")
    case (Some x)
    obtain res s' where "Authorize emit now now' \<lparr>au_ids = correlation_of rq, au_attempt = aq_attempt x\<rparr> s = (res, s')"
      by (metis surj_pair)
    with Some Authorize_latency [OF this] show ?thesis
      by (cases res) (simp_all add: authorize_route_def serve_def payment_process_def)
  qed (simp add: authorize_route_def serve_def)
  then show ?thesis by (simp add: payment_handler_def on_path_def no_route_def)
qed

lemma served_in_bounds:
  assumes "1 \<le> LatencyMs (fst s) \<and> LatencyMs (fst s) \<le> 10000"
  shows "1 \<le> LatencyMs (fst (serve_all J say emit rqs s)) \<and> LatencyMs (fst (serve_all J say emit rqs s)) \<le> 10000"
  using assms
proof (induction rqs arbitrary: s)
  case (Cons x rqs)
  obtain now now' rq where x: "x = (now, now', rq)" by (cases x) auto
  let ?s = "snd (payment_handler J (payment_process say emit now now') rq s)"
  have "1 \<le> LatencyMs (fst ?s) \<and> LatencyMs (fst ?s) \<le> 10000"
    using Cons.prems by (simp add: served_latency config_latency_cases split: option.split)
  from Cons.IH [OF this] show ?case by (simp add: serve_all_def x)
qed (simp add: serve_all_def)

text \<open>C19: whatever requests arrive at the payment service, its latency stays between 1 and 10000 ms. A request to
  configure it is answered with 200 exactly when the latency it asks for is in these bounds, and is then the latency;
  otherwise it is answered with 400 and changes nothing, and no other request changes the latency.\<close>

theorem latency_in_bounds:
  assumes "1 \<le> LatencyMs (fst s) \<and> LatencyMs (fst s) \<le> 10000"
    and "serve_all J say emit rqs s = t" and "payment_handler J (payment_process say emit now now') rq t = (Some r, t')"
  shows "1 \<le> LatencyMs (fst t) \<and> LatencyMs (fst t) \<le> 10000
    \<and> (if hq_path rq = ''/config/latency'' \<and> hq_method rq = ''POST''
       then (case js_read (pj_latency J) (hq_body rq) of
           None \<Rightarrow> hs_status r = 400 \<and> t' = t
         | Some x \<Rightarrow> if 1 \<le> cl_latency x \<and> cl_latency x \<le> 10000
             then hs_status r = 200 \<and> LatencyMs (fst t') = cl_latency x else hs_status r = 400 \<and> t' = t)
       else LatencyMs (fst t') = LatencyMs (fst t))"
proof -
  have config: "hs_status r = (case js_read (pj_latency J) (hq_body rq) of None \<Rightarrow> 400
      | Some x \<Rightarrow> if 1 \<le> cl_latency x \<and> cl_latency x \<le> 10000 then 200 else 400)"
    "hs_status r = 400 \<Longrightarrow> t' = t" if "hq_path rq = ''/config/latency''" "hq_method rq = ''POST''"
    using assms(3) that
    by (auto simp: payment_handler_def on_path_def config_latency_def http_error_def json_ok_def Let_def split: option.splits if_splits)
  have t': "t' = snd (payment_handler J (payment_process say emit now now') rq t)" using assms(3) by simp
  have "LatencyMs (fst t') = (if hq_path rq = ''/config/latency'' then (case js_read (pj_latency J) (hq_body rq) of
      None \<Rightarrow> LatencyMs (fst t)
    | Some x \<Rightarrow> if hq_method rq = ''POST'' \<and> 1 \<le> cl_latency x \<and> cl_latency x \<le> 10000 then cl_latency x else LatencyMs (fst t))
      else LatencyMs (fst t))"
    unfolding t' served_latency config_latency_cases by simp
  with config served_in_bounds [OF assms(1)] assms(2) show ?thesis by (auto split: option.splits if_splits)
qed

text \<open>The gateway's control of the latency, over HTTP: at the latencies it uses it is the direct control.\<close>

definition http_control :: "payment_json \<Rightarrow> (authorize_request \<Rightarrow> payment \<Rightarrow> (string + string) \<times> payment) \<Rightarrow> latency_control" where
  "http_control J authorize = Some (\<lambda>ms p. map_prod (map_option (\<lambda>_. ''payment client'')) id
     (client_SetLatency J True
       (exchange Delivered (payment_handler J \<lparr>ps_authorize = authorize, ps_set_latency = SetLatencyMs, ps_latency = LatencyMs\<rparr>)) ms p))"

lemma control_cong:
  assumes "f 50 = g 50" and "f 350 = g 350"
  shows "gateway_enter (Some f) = gateway_enter (Some g)" "gateway_return (Some f) = gateway_return (Some g)"
  by (intro ext, simp add: gateway_enter_def gateway_return_def assms Let_def split: prod.split)+

lemma return_cong:
  fixes e :: "'k sink"
  assumes "gateway_return ctl = (gateway_return ctl' :: service_error + gateway_result \<Rightarrow> 'k world \<Rightarrow> 'k world)"
  shows "gateway_start e n ctl = gateway_start e n ctl'" "process_start e n ctl = process_start e n ctl'"
    "record_timeout e n ctl = record_timeout e n ctl'" "record_retry e n ctl = record_retry e n ctl'"
    "process_complete e n ctl = process_complete e n ctl'" "gateway_complete e n ctl = gateway_complete e n ctl'"
  unfolding gateway_start_def [abs_def] process_start_def [abs_def] record_timeout_def [abs_def] record_retry_def [abs_def]
    process_complete_def [abs_def] gateway_complete_def [abs_def] assms by (rule refl)+

lemma http_control_direct:
  fixes emit :: "'k sink"
  assumes "json_reads (pj_latency J) \<lparr>cl_latency = 50\<rparr>" and "json_reads (pj_latency J) \<lparr>cl_latency = 350\<rparr>"
  shows "step emit (http_control J authorize) = step emit direct_control"
proof -
  let ?svc = "\<lparr>ps_authorize = authorize, ps_set_latency = SetLatencyMs, ps_latency = LatencyMs\<rparr>"
  have set: "map_prod (map_option (\<lambda>_. ''payment client'')) id
      (client_SetLatency J True (exchange Delivered (payment_handler J ?svc)) ms p) = (None, SetLatencyMs ms p)"
    if "ms = 50 \<or> ms = 350" for ms p
  proof -
    let ?rq = "wire_request ''/config/latency'' [] (js_write (pj_latency J) \<lparr>cl_latency = ms\<rparr>)"
    have "\<forall>kv\<in>set (hq_headers ?rq). header_safe (snd kv)" by (simp add: header_safe_def content_type_safe)
    note post = post_json_safe [OF this, of Delivered "payment_handler J ?svc" p]
    have "payment_handler J ?svc ?rq p = (json_ok (pj_latency J) \<lparr>cl_latency = ms\<rparr>, SetLatencyMs ms p)"
      using assms that by (auto simp: payment_handler_def on_path_def config_latency_def json_reads_def SetLatencyMs_def LatencyMs_def)
    with post show ?thesis by (simp add: client_SetLatency_def json_ok_def)
  qed
  have ret: "gateway_return (http_control J authorize) = (gateway_return direct_control :: _ \<Rightarrow> 'k world \<Rightarrow> 'k world)"
    and enter: "gateway_enter (http_control J authorize) = (gateway_enter direct_control :: _ \<Rightarrow> 'k world \<Rightarrow> 'k world)"
    unfolding http_control_def direct_control_def by (intro control_cong ext; simp add: set)+
  show ?thesis by (intro ext) (simp add: step.simps enter ret return_cong [OF ret])
qed

section \<open>Witnesses\<close>

definition line :: "string \<Rightarrow> string" where
  "line = takeWhile (\<lambda>c. c \<noteq> CHR 0x0A)"

definition sample_payment_json :: payment_json where
  "sample_payment_json =
     \<lparr>pj_request = \<lparr>js_write = (\<lambda>r. int_dec (aq_attempt r)), js_read = (\<lambda>s. map_option authorize_wire_request.make (atoi (line s)))\<rparr>,
       pj_response = \<lparr>js_write = ar_status, js_read = (\<lambda>s. Some \<lparr>ar_status = line s\<rparr>)\<rparr>,
       pj_latency = \<lparr>js_write = (\<lambda>r. int_dec (cl_latency r)), js_read = (\<lambda>s. map_option config_latency_wire.make (atoi (line s)))\<rparr>\<rparr>"

text \<open>The checkout id, a blank, the attempt; a sign for the commit, the effect id.\<close>

definition sample_ledger_json :: ledger_json where
  "sample_ledger_json =
     \<lparr>lj_request = \<lparr>js_write = (\<lambda>r. cw_checkout r @ '' '' @ int_dec (cw_attempt r)),
         js_read = (\<lambda>s. map_option (commit_wire_request.make (takeWhile (\<lambda>c. c \<noteq> CHR '' '') s))
           (atoi (line (tl (dropWhile (\<lambda>c. c \<noteq> CHR '' '') s)))))\<rparr>,
       lj_response = \<lparr>js_write = (\<lambda>r. (if cw_committed r then CHR ''+'' else CHR ''-'') # cw_effect r),
         js_read = (\<lambda>s. Some (commit_wire_response.make (line (tl s)) (hd s = CHR ''+'')))\<rparr>\<rparr>"

definition launched_call :: call where
  "launched_call = new_call\<lparr>ca_checkout := ''8271'', ca_start := ''evt-checkout-2'', ca_timeout := 200, ca_max := 2\<rparr>"

definition launched_world :: "execution_event list world" where
  "launched_world = (golden_world False)\<lparr>w_call := launched_call, w_main := Selecting, w_attempt := (\<lambda>_. NotLaunched)(1 := Authorizing)\<rparr>"

lemma launched_safe: "ids_safe (call_ids launched_call)"
  by code_simp

lemma sample_json_reads:
  "json_reads (pj_request sample_payment_json) \<lparr>aq_attempt = 1\<rparr>"
  "json_reads (pj_response sample_payment_json) \<lparr>ar_status = ''APPROVED''\<rparr>"
  "json_reads (lj_request sample_ledger_json) \<lparr>cw_checkout = ''8271'', cw_attempt = 1\<rparr>"
  "json_reads (lj_response sample_ledger_json) \<lparr>cw_effect = EffectKey ''8271'' 1, cw_committed = True\<rparr>"
  "json_reads (lj_response sample_ledger_json) \<lparr>cw_effect = EffectKey ''8271'' 1, cw_committed = False\<rparr>"
  by code_simp+

theorem http_attempt_refines_witness:
  "\<exists>err v e. remote_attempt sample_payment_json sample_ledger_json (\<lambda>_. []) memory_emit (sample_now, sample_now, sample_now) 1 launched_world = (err, v)
     \<and> fold (\<lambda>n. attempt_step memory_emit n 1) (replicate 5 sample_now) launched_world = set_attempt 1 (Ended e) v \<and> (err = None \<longleftrightarrow> e = None)"
proof -
  obtain err v where r: "remote_attempt sample_payment_json sample_ledger_json (\<lambda>_. []) memory_emit (sample_now, sample_now, sample_now) 1
      launched_world = (err, v)" by (metis surj_pair)
  have w: "w_attempt launched_world 1 = Authorizing" "w_call launched_world = launched_call" "ca_checkout launched_call = ''8271''"
    by (simp_all add: launched_world_def launched_call_def)
  have b: "json_reads (lj_response sample_ledger_json) \<lparr>cw_effect = EffectKey ''8271'' 1, cw_committed = b\<rparr>" for b
    by (cases b) (simp_all add: sample_json_reads)
  have five: "replicate 5 sample_now = [sample_now, sample_now, sample_now, sample_now, sample_now]" by (simp add: numeral_eq_Suc)
  obtain e where e: "fold (\<lambda>n. attempt_step memory_emit n 1) [sample_now, sample_now, sample_now, sample_now, sample_now] launched_world
      = set_attempt 1 (Ended e) v" "err = None \<longleftrightarrow> e = None"
    using http_attempt_refines [OF w(1) _ sample_json_reads(1,2) _ _ r, of sample_now sample_now, unfolded w(2,3),
        OF launched_safe sample_json_reads(3) b] by blast
  show ?thesis unfolding five by (rule exI [of _ err], rule exI [of _ v], rule exI [of _ e], intro conjI r e)
qed

definition config_request :: "int \<Rightarrow> http_request" where
  "config_request n = wire_request ''/config/latency'' [] (int_dec n)"

definition golden_payment :: "payment \<times> execution_event list recording" where
  "golden_payment = (payment_reset \<lparr>pay_latency = 0, pay_attempts = 0\<rparr>,
     \<lparr>rg_rec = NewRecorder (component_of Payment), rg_ids = NewIDGenerator 1, rg_sink = []\<rparr>)"

theorem latency_in_bounds_witness:
  "\<exists>r. payment_handler sample_payment_json (payment_process (\<lambda>_. []) memory_emit sample_now sample_now) (config_request 0) golden_payment
      = (Some r, golden_payment) \<and> hs_status r = 400"
proof -
  let ?h = "payment_handler sample_payment_json (payment_process (\<lambda>_. []) memory_emit sample_now sample_now) (config_request 0)"
  have read: "js_read (pj_latency sample_payment_json) (hq_body (config_request 0)) = Some \<lparr>cl_latency = 0\<rparr>" by code_simp
  have rq: "hq_path (config_request 0) = ''/config/latency''" "hq_method (config_request 0) = ''POST''"
    by (simp_all add: config_request_def)
  have "?h golden_payment = (http_error ''latency_ms must be between 1 and 10000'' 400, golden_payment)"
    by (simp add: payment_handler_def on_path_def config_latency_def rq read)
  then obtain r t' where h: "?h golden_payment = (Some r, t')" by (simp add: http_error_def)
  have "serve_all sample_payment_json (\<lambda>_. []) memory_emit [] golden_payment = golden_payment" by (simp add: serve_all_def)
  moreover have "1 \<le> LatencyMs (fst golden_payment) \<and> LatencyMs (fst golden_payment) \<le> 10000"
    by (simp add: golden_payment_def payment_reset_def LatencyMs_def DefaultLatencyMs_def)
  ultimately have "hs_status r = 400 \<and> t' = golden_payment"
    using latency_in_bounds [OF _ _ h] by (simp add: rq read)
  with h show ?thesis by blast
qed

end
