(* ===== verification/HttpSink.thy ===== *)
theory HttpSink
  imports HttpProps
begin

text \<open>
  The sink that posts to the core API: what it answers, and what the repository holds afterwards, over a connection
  that may fail and with the detection of incidents that runs behind the route.
\<close>

section \<open>The route for events\<close>

text \<open>A System Pack whose detection never panics.\<close>

definition calm_pack :: "api_deps \<Rightarrow> bool" where
  "calm_pack d \<longleftrightarrow> (\<forall>pack es. dp_pack d = Some pack \<longrightarrow> pk_detect pack es \<noteq> Inl PackPanic)"

lemma detect_events: "st_events (snd (detectAndPersistIncident v ord packs x s)) = st_events s"
proof -
  obtain e s' where d: "detectAndPersistIncident v ord packs x s = (e, s')" by fastforce
  from detect_cases [OF d] show ?thesis
  proof (elim disjE exE conjE)
    fix pack es orc ns
    assume "PutIncident False (detected_incident pack (env_now v 2) x es orc) (detected_graph x ns (parentChildEdges es)) s = (None, s')"
    with PutIncident_cases [of False "detected_incident pack (env_now v 2) x es orc" "detected_graph x ns (parentChildEdges es)" s] d
    show ?thesis by auto
  qed (simp add: d)
qed

lemma detect_calm:
  assumes "calm_pack d"
  shows "fst (detectAndPersistIncident v ord (dp_pack d) x s) \<noteq> Some DetectPanic"
proof -
  have "pk_detect pack es \<noteq> Inl PackPanic" if "dp_pack d = Some pack" for pack es
    using assms that by (simp add: calm_pack_def)
  then show ?thesis
    by (auto simp: detectAndPersistIncident_def Let_def split: option.splits sum.splits pack_error.splits store_error.splits
        if_splits prod.splits)
qed

lemma mapped_status: "\<exists>n b. writeMappedError e c = Some (n, b) \<and> n \<noteq> 202"
  by (auto simp: writeMappedError_def writeContractError_def)

text \<open>What the route does with an event: it refuses it and keeps the repository, or it stores it.\<close>

lemma postEvent_cases:
  assumes "dec_event (dp_decoders d) body = Some e"
  shows "(\<exists>n b. postEvent v d body a = (Some (n, b), a) \<and> n \<noteq> 202)
      \<and> (env_cancelled v 0 \<or> event_validate e \<noteq> None \<or> table_get (st_events (ap_store a)) (ev_id e) \<noteq> None)
    \<or> (\<exists>r a'. postEvent v d body a = (r, a') \<and> (r = None \<or> (\<exists>b. r = Some (202, b))) \<and> (calm_pack d \<longrightarrow> r \<noteq> None)
      \<and> st_events (ap_store a') = table_put (ev_id e) e (st_events (ap_store a))
      \<and> event_validate e = None \<and> table_get (st_events (ap_store a)) (ev_id e) = None)"
proof -
  let ?s = "ap_store a"
  from IngestEvent_cases [of "env_cancelled v 0" e ?s] show ?thesis
  proof (elim disjE exE conjE)
    fix err
    assume i: "IngestEvent (env_cancelled v 0) e ?s = (Some err, ?s)"
    then have why: "env_cancelled v 0 \<or> event_validate e \<noteq> None \<or> table_get (st_events ?s) (ev_id e) \<noteq> None"
      by (auto simp: IngestEvent_def split: if_splits option.splits)
    have bad: "\<exists>n b. bad_request = Some (n, b) \<and> n \<noteq> 202" by (simp add: bad_request_def writeContractError_def)
    have "\<exists>n b. postEvent v d body a = (Some (n, b), a) \<and> n \<noteq> 202"
      using i assms bad mapped_status [of err no_code] by (cases err) (auto simp: postEvent_def)
    with why show ?thesis by blast
  next
    let ?s' = "?s\<lparr>st_events := table_put (ev_id e) e (st_events ?s)\<rparr>"
    assume i: "IngestEvent (env_cancelled v 0) e ?s = (None, ?s')"
      and new: "event_validate e = None" "table_get (st_events ?s) (ev_id e) = None"
    obtain err s'' where d: "detectAndPersistIncident v (dp_visit d) (dp_pack d) (ev_execution e) ?s' = (err, s'')" by fastforce
    have ev: "st_events s'' = table_put (ev_id e) e (st_events ?s)"
      using detect_events [of v "dp_visit d" "dp_pack d" "ev_execution e" ?s'] d by simp
    have calm: "err \<noteq> Some DetectPanic" if "calm_pack d"
      using detect_calm [OF that, of v "dp_visit d" "ev_execution e" ?s'] d by simp
    have "postEvent v d body a = (if err = Some DetectPanic then (None, a\<lparr>ap_store := s''\<rparr>)
        else (Some (202, BodyAccepted (ev_id e)), a\<lparr>ap_store := s''\<rparr>))"
      using assms i d by (auto simp: postEvent_def split: option.splits detect_error.splits)
    then show ?thesis using ev new calm by auto
  qed
qed

section \<open>The sink\<close>

definition events_path :: string where
  "events_path = ''/v1/events''"

text \<open>At the path of the route, the sink's request is served by \<open>postEvent\<close>.\<close>

lemma http_emit_posts:
  assumes "marshal e = Some body"
  shows "http_emit marshal True (exchange f (api_handler encode v d)) events_path e a =
      (case f of NotSent \<Rightarrow> (Some ''capture: post event'', a)
       | AnswerLost \<Rightarrow> (Some ''capture: post event'', snd (postEvent v d body a))
       | Delivered \<Rightarrow> (case postEvent v d body a of
           (None, a') \<Rightarrow> (Some ''capture: post event'', a')
         | (Some (n, b), a') \<Rightarrow> (if n \<noteq> 202 then Some (''capture: unexpected status '' @ int_dec n @ '' posting event '' @ ev_id e)
              else None, a')))"
proof -
  let ?w = "\<lparr>hq_method = ''POST'', hq_path = events_path, hq_query = [], hq_headers = [(''Content-Type'', ''application/json'')],
    hq_length = int (length body), hq_body = body\<rparr>"
  have "exchange f (api_handler encode v d) ?w a = (case f of NotSent \<Rightarrow> (None, a) | Delivered \<Rightarrow> api_handler encode v d ?w a
      | AnswerLost \<Rightarrow> (None, snd (api_handler encode v d ?w a)))"
    by (rule exchange_safe) (simp add: header_safe_def content_type_safe)
  moreover obtain r a' where p: "postEvent v d body a = (r, a')" by fastforce
  moreover have "handlerWithDeps v d \<lparr>rq_method = ''POST'', rq_path = events_path, rq_query = [], rq_body = body\<rparr> a = (r, a')"
    by (simp add: handlerWithDeps_def events_path_def p)
  ultimately show ?thesis
    by (auto simp: http_emit_def assms api_handler_def split: fate.split option.split)
qed

text \<open>An event that is stored is refused, whatever becomes of the connection.\<close>

lemma stored_event_refused:
  assumes "marshal e = Some body" and "dec_event (dp_decoders d) body = Some e" and "table_get (st_events (ap_store a)) (ev_id e) \<noteq> None"
  shows "\<exists>m. http_emit marshal True (exchange f (api_handler encode v d)) events_path e a = (Some m, a)"
proof -
  obtain n b where p: "postEvent v d body a = (Some (n, b), a)" "n \<noteq> 202"
    using postEvent_cases [OF assms(2), of v a] assms(3) by blast
  show ?thesis by (auto simp: http_emit_posts assms(1) p split: fate.split)
qed

lemma put_new_row: "table_get t k = None \<Longrightarrow> table_rows (table_put k x t) = table_rows t @ [x]"
  by (induction t) (auto simp: table_get_def table_put_def table_rows_def split: if_splits)



text \<open>The generators of the services start over with their process, the repository does not: after a restart, while
  the first id of a component is stored, whatever it records is refused.\<close>

lemma restarted_recorder_refused:
  assumes "\<And>e. \<exists>body. marshal e = Some body \<and> dec_event (dp_decoders d) body = Some e"
    and "table_get (st_events (ap_store a)) (event_id (comp_name c) 1) \<noteq> None"
  shows "\<exists>err r g. Record (Some (http_emit marshal True (exchange f (api_handler encode v d)) events_path)) now i
    (NewRecorder c) (NewIDGenerator 1) a = (Inl err, r, g, a)"
proof -
  let ?emit = "http_emit marshal True (exchange f (api_handler encode v d)) events_path"
  obtain k g where k: "NextEventID (comp_name c) (NewIDGenerator 1) = (k, g)" "k = event_id (comp_name c) 1"
    by (simp add: NextEventID_def NewIDGenerator_def ids_reset_def Let_def)
  obtain n r where n: "nextSequence (ri_execution i) (NewRecorder c) = (n, r)" by (metis surj_pair)
  let ?e = "build_event i c k now n"
  have "ev_id ?e = event_id (comp_name c) 1" by (simp add: build_event_def k)
  with assms stored_event_refused [of marshal ?e] obtain m where "?emit ?e a = (Some m, a)" by metis
  with k n show ?thesis by (auto simp: Record_def NewRecorder_def Let_def split: option.split)
qed

end
