(* ===== verification/Spec2Isabelle.thy ===== *)
theory Spec2Isabelle
  imports DiffProps CapsuleProps WorkerProps StoreRefine CoreApiProps RunnerProps PostgresProps HttpSink
begin

text \<open>
  CausaLens records the events of a distributed system, detects an incident among them, compiles the evidence into a
  sealed replay capsule, replays the capsule in isolation as a baseline or with an intervention, and compares two
  replays. This development models its Go code as functions and relations of HOL, and proves what the parts promise
  to each other.

  \<^bold>\<open>The program.\<close> The demo services (cmd/demo-gateway, demo-checkout, demo-payment, demo-ledger) serve one
  checkout; their recorders (internal/capture) build events and hand them to a sink. The core API (cmd/core-api)
  accepts events, stores them (internal/core) and asks the oracle of a System Pack (internal/systempack/checkout, or
  the dev pack of internal/packregistry) whether they show an incident; the incident is stored with its execution
  graph (internal/graph). It compiles capsules (internal/capsule), creates replay runs and builds diffs
  (internal/differential). The replay worker (cmd/replay-worker) claims a run under a lease, executes its capsule
  through internal/replay with a runner that drives the demo services in process, stores the events, asks the oracle
  and finalizes the run. Every record crosses these parts as a struct of internal/contracts with a \<open>Validate\<close> method.

  \<^bold>\<open>Theories and what they model.\<close>
  \<^item> Prelude, Tables: strings as the package strings sees them, decimal printing, slices with nil, Go maps as tables
    with the locale of a keyed table; shared lemmas.
  \<^item> GoTime, GoValue, Clock: time.Parse for RFC 3339 with nanoseconds, the values of type any and the JSON shape of
    them, and the clock as the code reads and prints it. \<open>env\<close> gives every reading of the clock and every
    check of the context a numbered site, so that time may pass and a context may be cancelled between any two.
  \<^item> Contracts, Validation: contracts.go, data as records and datatypes, every \<open>Validate\<close> as a function to an optional
    error. An enumeration has a constructor for any other string, for Go does not close it.
  \<^item> Cycle, Graph: \<open>ExecutionGraph.Validate\<close> with its recursive search, and graph.go: \<open>Order\<close> and \<open>BuildNodes\<close>. The
    loops run on a measure; the order in which Go iterates over a map is an argument.
  \<^item> Store, StoreProps, StoreRefine: store.go and lease.go, the state as a record of tables and leases, one function per
    method with the cancelled context as an argument; the invariant of reachable stores, and the abstract repository.
  \<^item> Postgres, PostgresSteps, PostgresReads, PostgresWrites, PostgresProps: postgres.go and the Postgres half of lease.go over
    the tables and constraints of db/migrations. A row holds the columns that queries read and the record as JSON; an
    operation is a function of the database and of which of its calls fail. Steps, reads and accepted writes in turn.
  \<^item> Pack, CheckoutPack, CheckoutProps, DevPack, DevPackProps: the interface of a System Pack as a record of functions,
    the two packs and the registry.
  \<^item> Differential, DiffProps: differential.go, with \<open>NilPointer\<close> for every dereference of nil.
  \<^item> Capsule, CapsuleProps: capsule.go.
  \<^item> Replay, ReplayProps: replay.go and executor.go; the store a function uses is its transition function, the runner a
    function from its configuration.
  \<^item> Worker, WorkerSteps, WorkerLive, WorkerProps: main.go of the replay worker, \<open>processRun\<close> and the rounds of the poll
    loop. A round ends, and a theorem over any number of rounds covers the endless loop.
  \<^item> Capture, Services, ServicesSteps, ServicesEvents, ServicesProps, ServicesLive: the recorders and sinks, and one
    checkout as a machine (\<open>step\<close>): the program counters of the request and of the two attempts, the state of the
    four services, the recorders, the sink. A step is one critical section, one \<open>Record\<close> or one choice of the select.
  \<^item> Runner, RunnerEvents, RunnerProps: runner.go, an execution as a relation over the runs of that machine.
  \<^item> CoreApi, CoreApiProps: detect.go and the handlers and routes of cmd/core-api.
  \<^item> Http, HttpProps, HttpSink: the handlers and clients of the four demo services (service/http.go), the headers of
    propagation.go and \<open>HTTPSink\<close>. A handler is a function of the request and the state of its process; a connection may
    fail before or after the handler ran. An attempt over HTTP is compared with its steps in the machine of a checkout.

  \<^bold>\<open>Interfaces.\<close> A keyed table (Tables), a System Pack whose alignment partitions the events (DiffProps), the transitions
  of a run store (ReplayProps), and an event sink with its extension to a sink that takes every valid event (Capture,
  ServicesLive) are locales; each is interpreted on the definitions that model the code, the sinks on the in-memory
  sink and on the sink of a replay.

  \<^bold>\<open>What is proved.\<close> Graph validation decides acyclicity and terminates; \<open>BuildNodes\<close> succeeds exactly on acyclic
  input, numbers the events along the edges by the documented policy and does not depend on map order, except for an
  event at the zero time. Reachable stores hold valid records only; runs move forward, keep their identity, and are
  claimed once; pagination is complete; the store refines an abstract repository. The
  Postgres repository refines the same one under every failure of the database, its columns agree with its JSON, it
  answers reads as the store does, pages completely and is all or nothing. The oracle's rule, its validity and
  its independence of order; the alignment of events key by key; diffs that are valid, account for every event and
  meet no nil. Capsules compile exactly on the frozen evidence and cannot be altered under their digest. The
  worker keeps the store sound, completes a run only when it was executed on a sealed capsule with passing isolation
  evidence, and completes every run whose surroundings work. A checkout ends within 18 steps, and the oracle says of
  its events what the ledger did; an attempt that goes over HTTP does what its steps do, the latency that HTTP can
  configure is bounded, and the sink that posts to the core API delivers an event exactly when it says so. One property
  joins these parts: a new run, processed by the worker with the
  demo runner, is completed with the outcome the services earned.

  \<^bold>\<open>Bounds.\<close> No definition uses fuel: recursion is structural or on a measure. The 18 steps of a checkout are 8 of the
  request and 5 of each attempt, and no longer run exists. The counters of event ids and of \<open>nextID\<close> are 64-bit words;
  the runner's counter is assumed 18 below its wrap-around.

  \<^bold>\<open>Parameters.\<close> SHA-256, json.Marshal, the strict JSON decoder, the base64 cursor codec, the embedded fixture file and
  the iteration order of maps are arguments; a property names what it needs of them. The database is an argument too
  (\<open>backend\<close>, \<open>db_env\<close>): the JSON of each record, the path queries, the reading and rounding of timestamps, the collation,
  which call fails, and whether a commit that reports an error was applied. So are the JSON of the HTTP bodies (\<open>json\<close>) and
  the fate of a connection (\<open>fate\<close>).

  \<^bold>\<open>Not modelled.\<close> A transaction of the Postgres repository is one atomic step (it locks the run rows that it reads to
  decide, FOR UPDATE), so races between transactions on other rows are left out, as are the created_at defaults and
  the upgrade from older schemas. The wiring of the processes in the main functions with flags and environment
  variables, DecodeStrict, the web frontend and deployment files are not modelled. \<open>Record\<close> takes its locks one after
  the other and is one step here; ServeMux's cleaning of paths is left out; recorders are never nil; the texts of errors
  are modelled where the code stores or compares them, without the wrapped parts that \<open>%v\<close> and \<open>%w\<close> print.
\<close>

end
